(* ===== verification/Prelude.thy ===== *)
theory Prelude
  imports Main "HOL-Library.Word" "HOL-Library.AList"
begin

text \<open>
  Vocabulary shared by every component of the wssocks development: bytes, connection
  identifiers, Go errors, Go maps, and the generic facts on lists (round-robin lanes,
  consecutive chunks) and on step relations that the component proofs rest on.

  Go maps are association lists with distinct keys (\<open>gm_get\<close>, \<open>gm_put\<close>, \<open>gm_del\<close>,
  \<open>gm_len\<close>): the program takes \<open>len\<close> of its maps and ranges over them, so
  their size has to be computable. Heap objects that several goroutines share through a pointer
  (a queue, a link) live in a store, a total function on references.
\<close>

section \<open>Bytes, identifiers, errors\<close>

type_synonym byte = "8 word"
type_synonym bytes = "8 word list"

text \<open>\<open>ksuid.KSUID\<close> is a \<open>[20]byte\<close> array compared by value; its zero value is 0.\<close>
type_synonym ksuid = "160 word"

text \<open>Instants and durations, in nanoseconds as in Go's package \<open>time\<close>.\<close>
type_synonym duration = int
type_synonym instant = int

text \<open>References into a store of heap objects.\<close>
type_synonym ref = nat

text \<open>
  Go error values. The sentinel errors the program compares with \<open>==\<close> (\<open>io.EOF\<close>) or
  returns by name are constructors of their own; \<open>RuntimeError\<close> is the value of the panic of a nil
  dereference; \<open>Errorf s\<close> is an error with message \<open>s\<close>.
\<close>
datatype go_error = EOF | ErrShortWrite | ErrClosedPipe | StoppedError | RuntimeError | Errorf string

fun Error :: "go_error \<Rightarrow> string" where
  "Error EOF = ''EOF''"
| "Error ErrShortWrite = ''short write''"
| "Error ErrClosedPipe = ''io: read/write on closed pipe''"
| "Error StoppedError = ''listener stopped''"
| "Error RuntimeError = ''runtime error: invalid memory address or nil pointer dereference''"
| "Error (Errorf s) = s"

text \<open>How a call can go: it returns, it is blocked for now, or it panics.\<close>
datatype 'a outcome = Returns 'a | Blocks | Panics

fun bind_outcome :: "'a outcome \<Rightarrow> ('a \<Rightarrow> 'b outcome) \<Rightarrow> 'b outcome" where
  "bind_outcome (Returns x) f = f x"
| "bind_outcome Blocks f = Blocks"
| "bind_outcome Panics f = Panics"

text \<open>The call does not panic, and what it returns, if it returns, satisfies \<open>P\<close>.\<close>

fun outcome_ok :: "('a \<Rightarrow> bool) \<Rightarrow> 'a outcome \<Rightarrow> bool" where
  "outcome_ok P (Returns x) = P x"
| "outcome_ok P Blocks = True"
| "outcome_ok P Panics = False"

lemma outcome_ok_iff: "outcome_ok P c \<longleftrightarrow> c \<noteq> Panics \<and> (\<forall>x. c = Returns x \<longrightarrow> P x)"
  by (cases c) auto

text \<open>The result of a call that has returned.\<close>

definition returned :: "('a \<Rightarrow> 'b) \<Rightarrow> 'a outcome \<Rightarrow> 'b option" where
  "returned f c = (case c of Returns x \<Rightarrow> Some (f x) | _ \<Rightarrow> None)"

lemma returned_Some: "returned f c = Some y \<longleftrightarrow> (\<exists>x. c = Returns x \<and> f x = y)"
  by (auto simp: returned_def split: outcome.splits)

text \<open>A call that panics on \<open>None\<close>.\<close>

definition or_panic :: "'a option \<Rightarrow> 'a outcome" where
  "or_panic x = (case x of None \<Rightarrow> Panics | Some y \<Rightarrow> Returns y)"

text \<open>A call that blocks on \<open>None\<close>.\<close>

definition or_block :: "'a option \<Rightarrow> 'a outcome" where
  "or_block x = (case x of None \<Rightarrow> Blocks | Some y \<Rightarrow> Returns y)"

lemma or_panic_simps [simp]: "or_panic None = Panics" "or_panic (Some x) = Returns x"
  by (simp_all add: or_panic_def)

lemma or_block_simps [simp]: "or_block None = Blocks" "or_block (Some x) = Returns x"
  by (simp_all add: or_block_def)

named_theorems wf_intros \<open>operations preserve the well-formedness invariant of their component\<close>
named_theorems op_simps \<open>what an operation does to the fields of its component\<close>

section \<open>Go maps\<close>

type_synonym ('k, 'v) gomap = "('k \<times> 'v) list"

definition gm_get :: "('k, 'v) gomap \<Rightarrow> 'k \<Rightarrow> 'v option" where
  "gm_get m k = map_of m k"

definition gm_put :: "'k \<Rightarrow> 'v \<Rightarrow> ('k, 'v) gomap \<Rightarrow> ('k, 'v) gomap" where
  "gm_put k v m = AList.update k v m"

definition gm_del :: "'k \<Rightarrow> ('k, 'v) gomap \<Rightarrow> ('k, 'v) gomap" where
  "gm_del k m = AList.delete k m"

definition gm_len :: "('k, 'v) gomap \<Rightarrow> nat" where
  "gm_len m = length m"

definition gm_keys :: "('k, 'v) gomap \<Rightarrow> 'k list" where
  "gm_keys m = map fst m"

definition gm_wf :: "('k, 'v) gomap \<Rightarrow> bool" where
  "gm_wf m \<longleftrightarrow> distinct (map fst m)"

lemma gm_wf_empty [wf_intros, simp]: "gm_wf []"
  by (simp add: gm_wf_def)

lemma gm_wf_put [wf_intros, simp]: "gm_wf m \<Longrightarrow> gm_wf (gm_put k v m)"
  by (simp add: gm_wf_def gm_put_def distinct_update)

lemma gm_wf_del [wf_intros, simp]: "gm_wf m \<Longrightarrow> gm_wf (gm_del k m)"
  by (simp add: gm_wf_def gm_del_def distinct_delete)

lemma gm_get_empty [simp]: "gm_get [] k = None"
  by (simp add: gm_get_def)

lemma gm_get_put [simp]: "gm_get (gm_put k v m) k' = (if k' = k then Some v else gm_get m k')"
  by (simp add: gm_get_def gm_put_def update_conv')

lemma gm_get_del [simp]: "gm_get (gm_del k m) k' = (if k' = k then None else gm_get m k')"
  by (simp add: gm_get_def gm_del_def delete_conv')

lemma gm_del_absent: "gm_get m k = None \<Longrightarrow> gm_del k m = m"
  by (simp add: gm_get_def gm_del_def delete_id map_of_eq_None_iff)

lemma gm_get_None_keys: "gm_get m k = None \<longleftrightarrow> k \<notin> set (gm_keys m)"
  by (simp add: gm_get_def gm_keys_def map_of_eq_None_iff)

lemma dom_gm_get: "dom (gm_get m) = set (gm_keys m)"
  unfolding gm_get_def [abs_def] gm_keys_def by (simp add: dom_map_of_conv_image_fst)

lemma gm_dom_finite [simp]: "finite (dom (gm_get m))"
  by (simp add: dom_gm_get)

lemma gm_len_card: "gm_wf m \<Longrightarrow> gm_len m = card (dom (gm_get m))"
  unfolding dom_gm_get gm_wf_def gm_keys_def gm_len_def
  using distinct_card [of "map fst m"] by simp

lemma dom_gm_put [simp]: "dom (gm_get (gm_put k v m)) = insert k (dom (gm_get m))"
  by (auto split: if_splits)

lemma dom_gm_del [simp]: "dom (gm_get (gm_del k m)) = dom (gm_get m) - {k}"
  by (auto split: if_splits)

lemma gm_len_put:
  "gm_wf m \<Longrightarrow>
     gm_len (gm_put k v m) = (if gm_get m k = None then Suc (gm_len m) else gm_len m)"
  by (simp add: gm_len_card domIff insert_absorb card_insert_if)

lemma gm_len_del:
  "gm_wf m \<Longrightarrow>
     gm_len (gm_del k m) = (if gm_get m k = None then gm_len m else gm_len m - 1)"
  by (simp add: gm_len_card domIff)

lemma gm_len_0 [simp]: "gm_len m = 0 \<longleftrightarrow> m = []"
  by (simp add: gm_len_def)

section \<open>Round-robin lanes\<close>

text \<open>
  Items with global numbers \<open>p, p + 1, \<dots>\<close> are dealt to \<open>k\<close> lanes, item \<open>j\<close> to lane
  \<open>j mod k\<close>. \<open>lane k i p xs\<close> is what lane \<open>i\<close> gets of the items \<open>xs\<close>.
\<close>

fun lane :: "nat \<Rightarrow> nat \<Rightarrow> nat \<Rightarrow> 'a list \<Rightarrow> 'a list" where
  "lane k i p [] = []"
| "lane k i p (x # xs) = (if p mod k = i then x # lane k i (Suc p) xs else lane k i (Suc p) xs)"

lemma lane_append: "lane k i p (xs @ ys) = lane k i p xs @ lane k i (p + length xs) ys"
  by (induction xs arbitrary: p) auto

lemma lane_snoc:
  "lane k i p (xs @ [x]) =
     (if (p + length xs) mod k = i then lane k i p xs @ [x] else lane k i p xs)"
  by (simp add: lane_append)

lemma length_lane_le: "length (lane k i p xs) \<le> length xs"
  by (induction xs arbitrary: p) (auto intro: le_SucI)

lemma lane_Nil_head: "lane k (p mod k) p xs = [] \<longleftrightarrow> xs = []"
  by (cases xs) auto

section \<open>Sums over a list of goroutines\<close>

lemma sum_list_map_update:
  fixes f :: "'a \<Rightarrow> 'b :: comm_monoid_add"
  assumes "i < length xs"
  shows "sum_list (map f (xs[i := x])) + f (xs ! i) = sum_list (map f xs) + f x"
  using assms
proof (induction xs arbitrary: i)
  case Nil
  then show ?case by simp
next
  case (Cons y xs)
  then show ?case by (cases i) (simp_all add: ac_simps)
qed

section \<open>Step relations\<close>

text \<open>
  States reachable by a step relation, and the invariant rule: what holds initially and is kept
  by every step holds in every reachable state. Components state their machine as an inductive
  step predicate and interpret this locale with their invariant.
\<close>

inductive reaches :: "('s \<Rightarrow> 's \<Rightarrow> bool) \<Rightarrow> 's \<Rightarrow> 's \<Rightarrow> bool" for step where
  reaches_refl: "reaches step s s"
| reaches_step: "reaches step s t \<Longrightarrow> step t u \<Longrightarrow> reaches step s u"

lemma reaches_trans: "reaches step t u \<Longrightarrow> reaches step s t \<Longrightarrow> reaches step s u"
  by (induction rule: reaches.induct) (auto intro: reaches_step)

lemma reaches_first: "step s t \<Longrightarrow> reaches step t u \<Longrightarrow> reaches step s u"
  by (rule reaches_trans) (auto intro: reaches.intros)

text \<open>A schedule: a list of events, each of which \<open>act\<close> either carries out or finds disabled.\<close>

fun run_events :: "('e \<Rightarrow> 's \<Rightarrow> 's option) \<Rightarrow> 'e list \<Rightarrow> 's \<Rightarrow> 's option" where
  "run_events act [] s = Some s"
| "run_events act (e # es) s = Option.bind (act e s) (run_events act es)"

lemma run_events_append:
  "run_events act (es @ fs) s = Option.bind (run_events act es s) (run_events act fs)"
  by (induction es arbitrary: s) (auto split: bind_splits)

lemma run_events_reaches:
  assumes "\<And>e s t. act e s = Some t \<Longrightarrow> step s t"
  shows "run_events act es s = Some t \<Longrightarrow> reaches step s t"
proof (induction es arbitrary: s)
  case Nil
  then show ?case by (simp add: reaches_refl)
next
  case (Cons e es)
  then obtain u where "act e s = Some u" "run_events act es u = Some t" by (auto simp: bind_eq_Some_conv)
  with Cons.IH assms show ?case by (blast intro: reaches_first)
qed

locale machine =
  fixes step :: "'s \<Rightarrow> 's \<Rightarrow> bool"
    and inv :: "'s \<Rightarrow> bool"
  assumes step_inv: "inv s \<Longrightarrow> step s t \<Longrightarrow> inv t"
begin

lemma reaches_inv: "reaches step s t \<Longrightarrow> inv s \<Longrightarrow> inv t"
  by (induction rule: reaches.induct) (auto intro: step_inv)

end

text \<open>
  A machine whose internal steps decrease a measure has no infinite internal run; a state with
  no internal step left is then always reached.
\<close>

locale terminating_machine = machine step inv
  for step :: "'s \<Rightarrow> 's \<Rightarrow> bool" and inv :: "'s \<Rightarrow> bool" +
  fixes weight :: "'s \<Rightarrow> nat"
  assumes weight_less: "inv s \<Longrightarrow> step s t \<Longrightarrow> weight t < weight s"
begin

lemma reaches_final: "inv s \<Longrightarrow> \<exists>t. reaches step s t \<and> inv t \<and> (\<forall>u. \<not> step t u)"
proof (induction s rule: measure_induct_rule [of weight])
  case (less s)
  show ?case
  proof (cases "\<exists>t. step s t")
    case True
    then obtain t where t: "step s t" by blast
    with less.prems have "weight t < weight s" and "inv t"
      by (auto intro: weight_less step_inv)
    then obtain u where "reaches step t u" and "inv u" and "\<forall>v. \<not> step u v"
      using less.IH by blast
    with t show ?thesis by (blast intro: reaches_first)
  next
    case False
    with less.prems show ?thesis by (blast intro: reaches_refl)
  qed
qed

lemma run_length: "inv s \<Longrightarrow> (step ^^ n) s t \<Longrightarrow> n + weight t \<le> weight s \<and> inv t"
proof (induction n arbitrary: t)
  case 0
  then show ?case by simp
next
  case (Suc n)
  then obtain u where "(step ^^ n) s u" and u: "step u t" by auto
  with Suc have "n + weight u \<le> weight s" and "inv u" by blast+
  with u show ?case using weight_less [of u t] step_inv [of u t] by simp
qed

end

text \<open>
  A simulation: every step of the detailed system is matched by some steps, or none, of the abstract
  one. Whatever the detailed system reaches is then related to something the abstract one reaches.
\<close>

locale simulation =
  fixes cstep :: "'s \<Rightarrow> 's \<Rightarrow> bool"
    and astep :: "'a \<Rightarrow> 'a \<Rightarrow> bool"
    and rel :: "'s \<Rightarrow> 'a \<Rightarrow> bool"
  assumes step_sim: "rel s a \<Longrightarrow> cstep s t \<Longrightarrow> \<exists>b. reaches astep a b \<and> rel t b"
begin

lemma reaches_sim: "reaches cstep s t \<Longrightarrow> rel s a \<Longrightarrow> \<exists>b. reaches astep a b \<and> rel t b"
proof (induction rule: reaches.induct)
  case (reaches_refl s)
  then show ?case by (blast intro: reaches.reaches_refl)
next
  case (reaches_step s t u)
  then obtain b where "reaches astep a b" "rel t b" by blast
  with step_sim [OF this(2) reaches_step.hyps(2)] show ?case by (blast intro: reaches_trans)
qed

end

section \<open>Closing twice\<close>

text \<open>
  The contract of every \<open>Close\<close> and \<open>close\<close> method of the program: it marks the object
  closed, and on a closed object it does nothing. \<open>None\<close> is a panic (Go panics when a channel is
  closed a second time).
\<close>

locale idempotent_close =
  fixes close_op :: "'s \<Rightarrow> 's option"
    and is_closed :: "'s \<Rightarrow> bool"
  assumes close_closes: "close_op s = Some t \<Longrightarrow> is_closed t"
    and closed_close: "is_closed s \<Longrightarrow> close_op s = Some s"
begin

lemma close_twice: "close_op s = Some t \<Longrightarrow> close_op t = Some t"
  by (simp add: close_closes closed_close)

fun close_times :: "nat \<Rightarrow> 's \<Rightarrow> 's option" where
  "close_times 0 s = Some s"
| "close_times (Suc n) s = Option.bind (close_op s) (close_times n)"

lemma close_times_closed: "is_closed s \<Longrightarrow> close_times n s = Some s"
  by (induction n) (auto simp: closed_close)

lemma close_times_once: "close_times (Suc n) s = close_op s"
  by (cases "close_op s") (auto simp: close_times_closed close_closes)

end

section \<open>Registries\<close>

text \<open>
  The contract of the mutex-guarded maps that register objects by identifier: a lookup finds what
  was added last and not removed, and the size counts the registered identifiers.
\<close>

locale registry =
  fixes reg_add :: "'k \<Rightarrow> 'v \<Rightarrow> 'm \<Rightarrow> 'm"
    and reg_get :: "'k \<Rightarrow> 'm \<Rightarrow> 'v option"
    and reg_remove :: "'k \<Rightarrow> 'm \<Rightarrow> 'm"
    and reg_size :: "'m \<Rightarrow> nat"
    and reg_wf :: "'m \<Rightarrow> bool"
  assumes get_add: "reg_get k' (reg_add k v m) = (if k' = k then Some v else reg_get k' m)"
    and get_remove: "reg_get k' (reg_remove k m) = (if k' = k then None else reg_get k' m)"
    and wf_add: "reg_wf m \<Longrightarrow> reg_wf (reg_add k v m)"
    and wf_remove: "reg_wf m \<Longrightarrow> reg_wf (reg_remove k m)"
    and size_card: "reg_wf m \<Longrightarrow> reg_size m = card {k. reg_get k m \<noteq> None}"
    and get_finite: "reg_wf m \<Longrightarrow> finite {k. reg_get k m \<noteq> None}"
begin

text \<open>A history of additions and removals.\<close>

fun replay :: "('k \<times> 'v option) list \<Rightarrow> 'm \<Rightarrow> 'm" where
  "replay [] m = m"
| "replay ((k, Some v) # ops) m = replay ops (reg_add k v m)"
| "replay ((k, None) # ops) m = replay ops (reg_remove k m)"

lemma replay_wf: "reg_wf m \<Longrightarrow> reg_wf (replay ops m)"
  by (induction ops m rule: replay.induct) (auto intro: wf_add wf_remove)

lemma replay_get:
  "reg_get k (replay ops m) =
     (case map_of (rev ops) k of None \<Rightarrow> reg_get k m | Some r \<Rightarrow> r)"
proof (induction ops m rule: replay.induct)
  case (1 m)
  show ?case by simp
next
  case (2 k' v ops m)
  then show ?case by (simp add: get_add map_add_def split: option.splits)
next
  case (3 k' ops m)
  then show ?case by (simp add: get_remove map_add_def split: option.splits)
qed

lemma size_add_new: "reg_wf m \<Longrightarrow> reg_get k m = None \<Longrightarrow> reg_size (reg_add k v m) = Suc (reg_size m)"
proof -
  assume wf: "reg_wf m" and new: "reg_get k m = None"
  have "{j. reg_get j (reg_add k v m) \<noteq> None} = insert k {j. reg_get j m \<noteq> None}"
    by (auto simp: get_add)
  with wf new get_finite [OF wf] show ?thesis
    by (simp add: size_card wf_add del: Collect_case_prod)
qed

lemma size_remove: "reg_wf m \<Longrightarrow> reg_get k m \<noteq> None \<Longrightarrow> reg_size m = Suc (reg_size (reg_remove k m))"
proof -
  assume wf: "reg_wf m" and old: "reg_get k m \<noteq> None"
  have eq: "{j. reg_get j m \<noteq> None} = insert k {j. reg_get j (reg_remove k m) \<noteq> None}"
    using old by (auto simp: get_remove)
  have "k \<notin> {j. reg_get j (reg_remove k m) \<noteq> None}"
    by (simp add: get_remove)
  then have "card {j. reg_get j m \<noteq> None} = Suc (card {j. reg_get j (reg_remove k m) \<noteq> None})"
    unfolding eq by (intro card_insert_disjoint get_finite wf_remove wf)
  then show ?thesis
    using size_card [OF wf] size_card [OF wf_remove [OF wf]] by simp
qed

end

text \<open>A Go map alone is a registry.\<close>

interpretation gm_registry: registry gm_put "\<lambda>k m. gm_get m k" gm_del gm_len gm_wf
proof
  fix m :: "('a, 'b) gomap"
  assume "gm_wf m"
  then show "gm_len m = card {k. gm_get m k \<noteq> None}" by (simp only: gm_len_card dom_def)
  show "finite {k. gm_get m k \<noteq> None}" using gm_dom_finite [of m] by (simp only: dom_def)
qed simp_all

end
