(* ===== verification/Go_Chan.thy ===== *)
theory Go_Chan
  imports Prelude
begin

text \<open>
  Go channels. A buffered channel is its queue of values, its capacity and whether it was
  closed; the three operations say when they go through, when they block and when they panic,
  as the language specification does. Receiving from a closed and drained channel yields the
  zero value of the element type at once.
\<close>

record 'a chan =
  ch_buf :: "'a list"
  ch_cap :: nat
  ch_closed :: bool

definition make_chan :: "nat \<Rightarrow> 'a chan" where
  "make_chan n = \<lparr>ch_buf = [], ch_cap = n, ch_closed = False\<rparr>"

datatype 'a send_result = Sent "'a chan" | SendBlocks | SendPanics

definition chan_send :: "'a \<Rightarrow> 'a chan \<Rightarrow> 'a send_result" where
  "chan_send x c =
     (if ch_closed c then SendPanics
      else if length (ch_buf c) < ch_cap c then Sent (c\<lparr>ch_buf := ch_buf c @ [x]\<rparr>)
      else SendBlocks)"

text \<open>\<open>zero\<close> is the zero value of the element type.\<close>

definition chan_recv :: "'a \<Rightarrow> 'a chan \<Rightarrow> ('a \<times> 'a chan) option" where
  "chan_recv zero c =
     (case ch_buf c of
        x # xs \<Rightarrow> Some (x, c\<lparr>ch_buf := xs\<rparr>)
      | [] \<Rightarrow> if ch_closed c then Some (zero, c) else None)"

text \<open>Closing a closed channel panics: \<open>None\<close>.\<close>

definition chan_close :: "'a chan \<Rightarrow> 'a chan option" where
  "chan_close c = (if ch_closed c then None else Some (c\<lparr>ch_closed := True\<rparr>))"

definition chan_wf :: "'a chan \<Rightarrow> bool" where
  "chan_wf c \<longleftrightarrow> length (ch_buf c) \<le> ch_cap c"

lemma chan_wf_make [wf_intros, simp]: "chan_wf (make_chan n)"
  by (simp add: chan_wf_def make_chan_def)

lemma chan_wf_send [wf_intros]: "chan_wf c \<Longrightarrow> chan_send x c = Sent c' \<Longrightarrow> chan_wf c'"
  by (auto simp: chan_wf_def chan_send_def split: if_splits)

lemma chan_wf_recv [wf_intros]: "chan_wf c \<Longrightarrow> chan_recv z c = Some (x, c') \<Longrightarrow> chan_wf c'"
  by (auto simp: chan_wf_def chan_recv_def split: if_splits list.splits)

lemma chan_wf_close [wf_intros]: "chan_wf c \<Longrightarrow> chan_close c = Some c' \<Longrightarrow> chan_wf c'"
  by (auto simp: chan_wf_def chan_close_def split: if_splits)

lemma chan_send_Sent_iff:
  "chan_send x c = Sent c' \<longleftrightarrow>
     \<not> ch_closed c \<and> length (ch_buf c) < ch_cap c \<and> c' = c\<lparr>ch_buf := ch_buf c @ [x]\<rparr>"
  by (auto simp: chan_send_def)

lemma chan_send_Blocks_iff:
  "chan_send x c = SendBlocks \<longleftrightarrow> \<not> ch_closed c \<and> ch_cap c \<le> length (ch_buf c)"
  by (auto simp: chan_send_def)

lemma chan_send_Panics_iff: "chan_send x c = SendPanics \<longleftrightarrow> ch_closed c"
  by (auto simp: chan_send_def)

lemma chan_recv_None_iff: "chan_recv z c = None \<longleftrightarrow> ch_buf c = [] \<and> \<not> ch_closed c"
  by (auto simp: chan_recv_def split: list.splits)

lemma chan_recv_Cons [simp]: "ch_buf c = x # xs \<Longrightarrow> chan_recv z c = Some (x, c\<lparr>ch_buf := xs\<rparr>)"
  by (simp add: chan_recv_def)

lemma chan_recv_zero: "ch_buf c = [] \<Longrightarrow> ch_closed c \<Longrightarrow> chan_recv z c = Some (z, c)"
  by (simp add: chan_recv_def)

text \<open>
  The contract of a FIFO between a producer and a consumer: what goes in is appended to the
  contents, what comes out is their head.
\<close>

locale fifo =
  fixes put :: "'a \<Rightarrow> 'c \<Rightarrow> 'c option"
    and get :: "'c \<Rightarrow> ('a \<times> 'c) option"
    and contents :: "'c \<Rightarrow> 'a list"
  assumes put_contents: "put x c = Some c' \<Longrightarrow> contents c' = contents c @ [x]"
    and get_contents: "get c = Some (x, c') \<Longrightarrow> contents c = x # contents c'"
begin

text \<open>Puts and gets in any order: what was got is a prefix of what was there and was put.\<close>

fun run_fifo :: "'a option list \<Rightarrow> 'c \<Rightarrow> ('a list \<times> 'a list \<times> 'c) option" where
  "run_fifo [] c = Some ([], [], c)"
| "run_fifo (Some x # ops) c =
     (case put x c of None \<Rightarrow> None
      | Some c' \<Rightarrow> map_option (\<lambda>(ins, outs, d). (x # ins, outs, d)) (run_fifo ops c'))"
| "run_fifo (None # ops) c =
     (case get c of None \<Rightarrow> None
      | Some (y, c') \<Rightarrow> map_option (\<lambda>(ins, outs, d). (ins, y # outs, d)) (run_fifo ops c'))"

lemma run_fifo_order:
  "run_fifo ops c = Some (ins, outs, d) \<Longrightarrow> contents c @ ins = outs @ contents d"
proof (induction ops c arbitrary: ins outs d rule: run_fifo.induct)
  case (1 c)
  then show ?case by simp
next
  case (2 x ops c)
  then show ?case by (fastforce split: option.splits dest: put_contents)
next
  case (3 ops c)
  then show ?case by (fastforce split: option.splits dest: get_contents)
qed

end

definition chan_put :: "'a \<Rightarrow> 'a chan \<Rightarrow> 'a chan option" where
  "chan_put x c = (case chan_send x c of Sent c' \<Rightarrow> Some c' | _ \<Rightarrow> None)"

definition chan_get :: "'a chan \<Rightarrow> ('a \<times> 'a chan) option" where
  "chan_get c = (if ch_buf c = [] then None else chan_recv (hd (ch_buf c)) c)"

interpretation chan_fifo: fifo chan_put chan_get ch_buf
proof
  fix x :: 'a and c c' :: "'a chan"
  assume "chan_put x c = Some c'"
  then show "ch_buf c' = ch_buf c @ [x]"
    by (auto simp: chan_put_def chan_send_def split: if_splits)
next
  fix x :: 'a and c c' :: "'a chan"
  assume "chan_get c = Some (x, c')"
  then show "ch_buf c = x # ch_buf c'"
    by (auto simp: chan_get_def chan_recv_def split: if_splits list.splits)
qed

end
