(* ===== verification/Pipe_Func.thy ===== *)
theory Pipe_Func
  imports Go_Chan
begin

text \<open>
  The helpers of package \<open>pipe\<close> (\<open>pipe/func.go\<close>, \<open>pipe/dead.go\<close>, \<open>pipe/tcp.go\<close>):
  the life-cycle states, the buffer exchanged through channels, TCP connections as the code
  uses them, the guarded write, the read with a timeout, and \<open>CopyBuffer\<close>, the loop that
  moves a connection's incoming bytes into a \<open>PipeWriter\<close>.

  The interface \<open>PipeWriter\<close> is a record of operations (the method table); its contract, the one
  of \<open>io.Writer\<close> for the byte counts, is the locale \<open>pipe_writer\<close>, in which the correctness of
  \<open>CopyBuffer\<close> is proved once for every writer.
\<close>

section \<open>Constants and data\<close>

definition pipeDebug :: bool where
  "pipeDebug = False"

definition Second :: duration where
  "Second = 1000000000"

definition Minute :: duration where
  "Minute = 60 * Second"

definition Hour :: duration where
  "Hour = 60 * Minute"

definition expHour :: duration where
  "expHour = 1 * Hour"

definition expMinute :: duration where
  "expMinute = 1 * Minute"

definition expFiveMinute :: duration where
  "expFiveMinute = 5 * Minute"

text \<open>The four values of a \<open>status\<close> field.\<close>
datatype status =
    StaWait   \<comment> \<open>\<open>Send\<close> has not run yet\<close>
  | StaSend   \<comment> \<open>\<open>Send\<close> is running\<close>
  | StaDone   \<comment> \<open>\<open>Send\<close> has returned\<close>
  | StaClose  \<comment> \<open>\<open>close\<close> has run\<close>

record buffer =
  b_eof :: bool
  b_data :: bytes

definition zero_buffer :: buffer where
  "zero_buffer = \<lparr>b_eof = False, b_data = []\<rparr>"

definition data_buffer :: "bytes \<Rightarrow> buffer" where
  "data_buffer d = \<lparr>b_eof = False, b_data = d\<rparr>"

definition eof_buffer :: buffer where
  "eof_buffer = \<lparr>b_eof = True, b_data = []\<rparr>"

lemma buffer_sel [simp]:
  "b_eof zero_buffer = False" "b_data zero_buffer = []"
  "b_eof (data_buffer d) = False" "b_data (data_buffer d) = d"
  "b_eof eof_buffer = True" "b_data eof_buffer = []"
  by (simp_all add: zero_buffer_def data_buffer_def eof_buffer_def)

definition makeBuffer :: "buffer chan" where
  "makeBuffer = (if pipeDebug then make_chan 1 else make_chan 10)"

lemma makeBuffer_sel [simp]:
  "ch_buf makeBuffer = []" "ch_cap makeBuffer = 10" "ch_closed makeBuffer = False"
  by (simp_all add: makeBuffer_def pipeDebug_def make_chan_def)

record dead =
  Line :: duration

definition NewDead :: dead where
  "NewDead = \<lparr>Line = 5 * Minute\<rparr>"

section \<open>TCP connections\<close>

text \<open>
  What the code sees of a \<open>*net.TCPConn\<close>. The peer's side is a script: \<open>rx\<close> lists what reads
  will find (data that arrived, or an error: end of stream, a deadline that passed, a reset),
  \<open>tx_script\<close> what the operating system answers to the next writes (\<open>None\<close>: all bytes taken;
  \<open>Some (n, e)\<close>: \<open>n\<close> bytes taken, then error \<open>e\<close>; after the script, all bytes are taken). \<open>tx\<close>
  collects the bytes the peer gets.
\<close>

datatype rx_event = RxData bytes | RxErr go_error

record tcpconn =
  rx :: "rx_event list"
  tx :: bytes
  tx_script :: "(nat \<times> go_error) option list"
  wr_closed :: bool
  conn_closed :: bool

definition new_conn :: "rx_event list \<Rightarrow> tcpconn" where
  "new_conn evs = \<lparr>rx = evs, tx = [], tx_script = [], wr_closed = False, conn_closed = False\<rparr>"

definition closed_conn_error :: go_error where
  "closed_conn_error = Errorf ''use of closed network connection''"

definition conn_Read :: "nat \<Rightarrow> tcpconn \<Rightarrow> ((bytes \<times> go_error option) \<times> tcpconn) option" where
  "conn_Read n c =
     (if conn_closed c then Some (([], Some closed_conn_error), c)
      else case rx c of
        [] \<Rightarrow> None
      | RxData d # r \<Rightarrow>
          if length d \<le> n then Some ((d, None), c\<lparr>rx := r\<rparr>)
          else Some ((take n d, None), c\<lparr>rx := RxData (drop n d) # r\<rparr>)
      | RxErr e # r \<Rightarrow> Some (([], Some e), c\<lparr>rx := (if e = EOF then rx c else r)\<rparr>))"

definition conn_Write :: "bytes \<Rightarrow> tcpconn \<Rightarrow> (nat \<times> go_error option) \<times> tcpconn" where
  "conn_Write p c =
     (if conn_closed c then ((0, Some closed_conn_error), c)
      else if wr_closed c then ((0, Some (Errorf ''broken pipe'')), c)
      else case tx_script c of
        Some (n, e) # r \<Rightarrow>
          ((min n (length p), Some e),
           c\<lparr>tx := tx c @ take (min n (length p)) p, tx_script := r\<rparr>)
      | _ \<Rightarrow> ((length p, None), c\<lparr>tx := tx c @ p, tx_script := tl (tx_script c)\<rparr>))"

definition conn_CloseWrite :: "tcpconn \<Rightarrow> go_error option \<times> tcpconn" where
  "conn_CloseWrite c =
     (if conn_closed c then (Some closed_conn_error, c) else (None, c\<lparr>wr_closed := True\<rparr>))"

definition conn_Close :: "tcpconn \<Rightarrow> tcpconn" where
  "conn_Close c = c\<lparr>conn_closed := True\<rparr>"

text \<open>The bytes a reader can still get: everything up to the first error.\<close>

fun rx_bytes :: "rx_event list \<Rightarrow> bytes" where
  "rx_bytes [] = []"
| "rx_bytes (RxData d # r) = d @ rx_bytes r"
| "rx_bytes (RxErr e # r) = []"

definition incoming :: "tcpconn \<Rightarrow> bytes" where
  "incoming c = (if conn_closed c then [] else rx_bytes (rx c))"

text \<open>The error that ends the stream, if the script has one.\<close>

fun rx_end :: "rx_event list \<Rightarrow> go_error option" where
  "rx_end [] = None"
| "rx_end (RxData d # r) = rx_end r"
| "rx_end (RxErr e # r) = Some e"

definition incoming_end :: "tcpconn \<Rightarrow> go_error option" where
  "incoming_end c = (if conn_closed c then Some closed_conn_error else rx_end (rx c))"

fun rx_size :: "rx_event list \<Rightarrow> nat" where
  "rx_size [] = 0"
| "rx_size (RxData d # r) = Suc (length d + rx_size r)"
| "rx_size (RxErr e # r) = Suc (rx_size r)"

lemma conn_Read_data:
  assumes "conn_Read n c = Some ((d, None), c')" and "0 < n"
  shows "length d \<le> n" and "incoming c = d @ incoming c'" and "rx_size (rx c') < rx_size (rx c)"
    and "incoming_end c' = incoming_end c" and "\<not> conn_closed c"
  using assms
  by (auto simp: conn_Read_def incoming_def incoming_end_def
      split: if_splits list.splits rx_event.splits)

lemma conn_Read_error:
  assumes "conn_Read n c = Some ((d, Some e), c')"
  shows "d = []" and "incoming c = []" and "incoming_end c = Some e"
  using assms
  by (auto simp: conn_Read_def incoming_def incoming_end_def
      split: if_splits list.splits rx_event.splits)

lemma conn_Read_None: "conn_Read n c = None \<longleftrightarrow> \<not> conn_closed c \<and> rx c = []"
  by (auto simp: conn_Read_def split: list.splits rx_event.splits)

lemma conn_Write_takes:
  "conn_Write p c = ((n, e), c') \<Longrightarrow>
     n \<le> length p \<and> tx c' = tx c @ take n p \<and> (e = None \<longrightarrow> n = length p)"
  by (auto simp: conn_Write_def split: if_splits list.splits option.splits)

lemma conn_Write_frame:
  "conn_Write p c = (r, c') \<Longrightarrow>
     rx c' = rx c \<and> wr_closed c' = wr_closed c \<and> conn_closed c' = conn_closed c"
  by (auto simp: conn_Write_def split: if_splits list.splits option.splits)

lemma conn_Write_ok:
  "\<not> conn_closed c \<Longrightarrow> \<not> wr_closed c \<Longrightarrow> tx_script c = [] \<Longrightarrow>
     conn_Write p c = ((length p, None), c\<lparr>tx := tx c @ p\<rparr>)"
  by (simp add: conn_Write_def)

section \<open>Guarded write, read with timeout\<close>

text \<open>
  \<open>safeWrite\<close> on the connection behind a possibly nil pointer. The deferred \<open>recover\<close> turns a
  panic of the call into a plain return; none of the calls modelled here panics.
\<close>

definition safeWrite ::
  "tcpconn option \<Rightarrow> bytes \<Rightarrow> bool \<Rightarrow> (nat \<times> go_error option) \<times> tcpconn option" where
  "safeWrite conn d closeWrite =
     (case conn of
        None \<Rightarrow> ((0, Some (Errorf ''conn is closed'')), None)
      | Some c \<Rightarrow>
          if closeWrite then (case conn_CloseWrite c of (err, c') \<Rightarrow> ((0, err), Some c'))
          else (case conn_Write d c of (r, c') \<Rightarrow> (r, Some c')))"

text \<open>
  \<open>readWithTimeout\<close> waits for the channel or the timer. \<open>timer\<close> says whether the timer fires while
  nothing arrives; \<open>None\<close> is "still waiting".
\<close>

definition readWithTimeout ::
  "buffer chan \<Rightarrow> bool \<Rightarrow> ((buffer \<times> go_error option) \<times> buffer chan) option" where
  "readWithTimeout b timer =
     (case chan_recv zero_buffer b of
        Some (d, b') \<Rightarrow> Some ((d, None), b')
      | None \<Rightarrow> if timer then Some ((zero_buffer, Some (Errorf ''time out'')), b) else None)"

lemma readWithTimeout_blocked: "readWithTimeout b False = None \<longleftrightarrow> ch_buf b = [] \<and> \<not> ch_closed b"
  by (auto simp: readWithTimeout_def chan_recv_def split: list.splits option.splits)

section \<open>The PipeWriter interface and CopyBuffer\<close>

text \<open>
  The method table of an implementation: \<open>'w\<close> is the receiver, \<open>'s\<close> the state the call runs in.
  A call that is still blocked is \<open>None\<close>.
\<close>

record ('w, 's) PipeWriter =
  pw_Write :: "'w \<Rightarrow> bytes \<Rightarrow> 's \<Rightarrow> ((nat \<times> go_error option) \<times> 's) option"
  pw_WriteEOF :: "'w \<Rightarrow> 's \<Rightarrow> 's option"

definition bufSize :: nat where
  "bufSize = (if pipeDebug then 10 else 4 * 1024)"

lemma bufSize_pos [simp]: "0 < bufSize"
  by (simp add: bufSize_def pipeDebug_def)

text \<open>
  The copy loop. \<open>written\<close> is the named result, an \<open>int64\<close>. The three error returns carry the
  prefixes of the source.
\<close>

function CopyBuffer ::
  "('w, 's) PipeWriter \<Rightarrow> 'w \<Rightarrow> 64 word \<Rightarrow> tcpconn \<Rightarrow> 's \<Rightarrow>
     ((64 word \<times> go_error option) \<times> tcpconn \<times> 's) option" where
  "CopyBuffer pw w written conn s =
     (case conn_Read bufSize conn of
        None \<Rightarrow> None
      | Some ((buf, er), conn') \<Rightarrow>
          (case (if 0 < length buf
                 then map_option (\<lambda>((nw, ew), s').
                        (nw, (if ew \<noteq> None then Some (Errorf (''#1 '' @ Error (the ew)))
                              else if length buf \<noteq> nw
                              then Some (Errorf (''#2 '' @ Error ErrShortWrite)) else None), s'))
                      (pw_Write pw w buf s)
                 else Some (0, None, s)) of
             None \<Rightarrow> None
           | Some (nw, Some err, s') \<Rightarrow> Some ((written + of_nat nw, Some err), conn', s')
           | Some (nw, None, s') \<Rightarrow>
               (case er of
                  None \<Rightarrow> CopyBuffer pw w (written + of_nat nw) conn' s'
                | Some e \<Rightarrow>
                    map_option (\<lambda>s''. ((written + of_nat nw,
                        if e = EOF then None else Some (Errorf (''#3 '' @ Error e))), conn', s''))
                      (pw_WriteEOF pw w s'))))"
  by pat_completeness auto
termination
  by (relation "measure (\<lambda>(pw, w, written, conn, s). rx_size (rx conn))")
    (auto dest: conn_Read_data(3))

declare CopyBuffer.simps [simp del]


lemma CopyBuffer_chunk:
  assumes "conn_Read bufSize c = Some ((d, None), c')" and "d \<noteq> []"
    and "pw_Write pw w d s = Some ((length d, None), s')"
  shows "CopyBuffer pw w n c s = CopyBuffer pw w (n + of_nat (length d)) c' s'"
  using assms by (subst CopyBuffer.simps) simp

lemma CopyBuffer_skip:
  assumes "conn_Read bufSize c = Some (([], None), c')"
  shows "CopyBuffer pw w n c s = CopyBuffer pw w n c' s"
  using assms by (subst CopyBuffer.simps) simp

lemma CopyBuffer_end:
  assumes "conn_Read bufSize c = Some ((d, Some e), c')" and "pw_WriteEOF pw w s = Some s'"
  shows "CopyBuffer pw w n c s =
           Some ((n, if e = EOF then None else Some (Errorf (''#3 '' @ Error e))), c', s')"
  using assms conn_Read_error(1) [OF assms(1)] by (subst CopyBuffer.simps) simp

text \<open>
  The three ways a returned \<open>CopyBuffer\<close> step can have gone: it looped after a chunk that was
  taken whole, a write failed or was short, or the stream ended.
\<close>

lemma CopyBuffer_cases [consumes 1, case_names loop fail finish]:
  assumes "CopyBuffer pw w n c s = Some ((n', err), c2, s2)"
  obtains (loop) d c' s' where "conn_Read bufSize c = Some ((d, None), c')"
      "d = [] \<and> s' = s \<or> pw_Write pw w d s = Some ((length d, None), s')"
      "CopyBuffer pw w (n + of_nat (length d)) c' s' = Some ((n', err), c2, s2)"
  | (fail) d er nw ew where "conn_Read bufSize c = Some ((d, er), c2)"
      "pw_Write pw w d s = Some ((nw, ew), s2)" "n' = n + of_nat nw"
      "ew \<noteq> None \<or> length d \<noteq> nw" "er = None"
      "err = Some (Errorf (case ew of Some e \<Rightarrow> ''#1 '' @ Error e | None \<Rightarrow> ''#2 '' @ Error ErrShortWrite))"
  | (finish) e where "conn_Read bufSize c = Some (([], Some e), c2)"
      "pw_WriteEOF pw w s = Some s2" "n' = n"
      "err = (if e = EOF then None else Some (Errorf (''#3 '' @ Error e)))"
proof -
  from assms obtain d er c' where r: "conn_Read bufSize c = Some ((d, er), c')"
    by (subst (asm) CopyBuffer.simps) (auto split: option.splits)
  show ?thesis
  proof (cases er)
    case (Some e)
    then have d: "d = []" using r by (auto dest: conn_Read_error)
    then have "pw_WriteEOF pw w s = Some s2 \<and> c' = c2 \<and> n' = n \<and>
        err = (if e = EOF then None else Some (Errorf (''#3 '' @ Error e)))"
      using assms r Some by (subst (asm) CopyBuffer.simps) auto
    then show ?thesis using finish r d Some by blast
  next
    case None
    show ?thesis
    proof (cases "d = []")
      case True
      then have "CopyBuffer pw w (n + of_nat (length d)) c' s = Some ((n', err), c2, s2)"
        using assms r None by (simp add: CopyBuffer_skip)
      then show ?thesis using loop r True None by blast
    next
      case False
      then obtain nw ew s' where wr: "pw_Write pw w d s = Some ((nw, ew), s')"
        using assms r None by (subst (asm) CopyBuffer.simps) (auto split: option.splits)
      show ?thesis
      proof (cases "ew = None \<and> nw = length d")
        case True
        then have "CopyBuffer pw w (n + of_nat (length d)) c' s' = Some ((n', err), c2, s2)"
          using assms r None wr False by (simp add: CopyBuffer_chunk)
        then show ?thesis using loop r None wr True by blast
      next
        case bad: False
        then have "n' = n + of_nat nw \<and> c' = c2 \<and> s' = s2 \<and>
            err = Some (Errorf (case ew of Some e \<Rightarrow> ''#1 '' @ Error e
                                | None \<Rightarrow> ''#2 '' @ Error ErrShortWrite))"
          using assms r None wr False
          by (subst (asm) CopyBuffer.simps) (auto split: option.splits)
        then show ?thesis using fail r None wr bad by blast
      qed
    qed
  qed
qed

text \<open>
  The contract of a \<open>PipeWriter\<close>: a \<open>Write\<close> that returns \<open>n\<close> has appended the first \<open>n\<close> bytes of its
  argument to what the writer has taken, and \<open>WriteEOF\<close> takes no data.
\<close>

locale pipe_writer =
  fixes pw :: "('w, 's) PipeWriter"
    and w :: 'w
    and accepted :: "'s \<Rightarrow> bytes"
  assumes write_accepts: "pw_Write pw w p s = Some ((n, e), s') \<Longrightarrow>
      n \<le> length p \<and> accepted s' = accepted s @ take n p"
    and eof_accepts: "pw_WriteEOF pw w s = Some s' \<Longrightarrow> accepted s' = accepted s"
begin

lemma copy_outcome:
  assumes "CopyBuffer pw w n c s = Some ((n', err), c', s')"
  shows "\<exists>k \<le> length (incoming c).
      accepted s' = accepted s @ take k (incoming c) \<and> n' = n + of_nat k \<and>
      (k = length (incoming c) \<and>
         (case incoming_end c of None \<Rightarrow> False
          | Some e \<Rightarrow> err = (if e = EOF then None else Some (Errorf (''#3 '' @ Error e))))
       \<or> (\<exists>e. err = Some (Errorf (''#1 '' @ Error e)))
       \<or> err = Some (Errorf (''#2 '' @ Error ErrShortWrite)))"
  using assms
proof (induction "rx_size (rx c)" arbitrary: n c s rule: less_induct)
  case less
  from less.prems show ?case
  proof (cases rule: CopyBuffer_cases)
    case (loop d c1 s1)
    note rd = conn_Read_data [OF loop(1) bufSize_pos]
    have acc: "accepted s1 = accepted s @ d"
      using loop(2) write_accepts by fastforce
    from less.hyps [OF rd(3) loop(3)] obtain k where k: "k \<le> length (incoming c1)"
        "accepted s' = accepted s1 @ take k (incoming c1)"
        "n' = n + of_nat (length d) + of_nat k" and
      rest: "k = length (incoming c1) \<and>
         (case incoming_end c1 of None \<Rightarrow> False
          | Some e \<Rightarrow> err = (if e = EOF then None else Some (Errorf (''#3 '' @ Error e))))
       \<or> (\<exists>e. err = Some (Errorf (''#1 '' @ Error e)))
       \<or> err = Some (Errorf (''#2 '' @ Error ErrShortWrite))"
      by blast
    show ?thesis
      using k acc rest rd(2,4)
      by (intro exI [of _ "length d + k"]) (auto simp: add.assoc)
  next
    case (fail d er nw ew)
    from fail(1,5) have "incoming c = d @ incoming c'"
      using conn_Read_data(2) [of bufSize c d c'] by simp
    with write_accepts [OF fail(2)] fail(3,6) show ?thesis
      by (intro exI [of _ nw]) (auto split: option.splits)
  next
    case (finish e)
    from conn_Read_error [OF finish(1)] eof_accepts [OF finish(2)] finish(3,4) show ?thesis
      by simp
  qed
qed

text \<open>Without a write error the whole stream went through, and the loop ended at end of stream.\<close>

lemma copy_ok:
  assumes "CopyBuffer pw w n c s = Some ((n', None), c', s')"
  shows "accepted s' = accepted s @ incoming c" and "n' = n + of_nat (length (incoming c))"
    and "incoming_end c = Some EOF"
  using copy_outcome [OF assms] by (auto split: option.splits if_splits)

end

text \<open>
  A writer that is ready takes every write whole and stays ready. With such a writer the loop
  always comes back once the stream has an end.
\<close>

locale ready_writer = pipe_writer pw w accepted
  for pw :: "('w, 's) PipeWriter" and w :: 'w and accepted :: "'s \<Rightarrow> bytes" +
  fixes ready :: "'s \<Rightarrow> bool"
  assumes ready_write: "ready s \<Longrightarrow> \<exists>s'. pw_Write pw w p s = Some ((length p, None), s') \<and> ready s'"
    and ready_eof: "ready s \<Longrightarrow> \<exists>s'. pw_WriteEOF pw w s = Some s'"
begin

lemma copy_returns:
  assumes "ready s" and "incoming_end c = Some e"
  shows "\<exists>c' s'. CopyBuffer pw w n c s =
           Some ((n + of_nat (length (incoming c)),
                  if e = EOF then None else Some (Errorf (''#3 '' @ Error e))), c', s') \<and>
           accepted s' = accepted s @ incoming c"
  using assms
proof (induction "rx_size (rx c)" arbitrary: n c s rule: less_induct)
  case less
  obtain d er c1 where r: "conn_Read bufSize c = Some ((d, er), c1)"
    using less.prems(2) conn_Read_None [of bufSize c]
    by (cases "conn_Read bufSize c") (auto simp: incoming_end_def)
  show ?case
  proof (cases er)
    case (Some e')
    with conn_Read_error [of bufSize c d e' c1] r less.prems(2)
    have "e' = e" "d = []" "incoming c = []" by auto
    moreover obtain s1 where "pw_WriteEOF pw w s = Some s1"
      using ready_eof less.prems(1) by blast
    ultimately show ?thesis
      using CopyBuffer_end [of c d e' c1 pw w s s1 n] r Some eof_accepts by auto
  next
    case None
    note rd = conn_Read_data [OF r [unfolded None] bufSize_pos]
    obtain s1 where s1: "if d = [] then s1 = s else pw_Write pw w d s = Some ((length d, None), s1)"
        "ready s1" "accepted s1 = accepted s @ d"
      using ready_write [OF less.prems(1), of d] less.prems(1) write_accepts
      by (cases "d = []") fastforce+
    have "CopyBuffer pw w n c s = CopyBuffer pw w (n + of_nat (length d)) c1 s1"
      using s1 r None CopyBuffer_skip [of c c1 pw w n s] CopyBuffer_chunk [of c d c1 pw w s s1 n]
      by (cases "d = []") auto
    with less.hyps [OF rd(3) s1(2), of "n + of_nat (length d)"] rd(2,4) less.prems(2) s1(3)
    show ?thesis by (auto simp: add.assoc)
  qed
qed

end

section \<open>tcp: writing to a local connection\<close>

text \<open>
  \<open>pipe.tcp\<close> wraps a connection; its two methods call \<open>Write\<close> and \<open>CloseWrite\<close> on it. The state is
  the connection itself.
\<close>

definition tcp_Write :: "unit \<Rightarrow> bytes \<Rightarrow> tcpconn \<Rightarrow> ((nat \<times> go_error option) \<times> tcpconn) option" where
  "tcp_Write q d conn = Some (conn_Write d conn)"

definition tcp_WriteEOF :: "unit \<Rightarrow> tcpconn \<Rightarrow> tcpconn option" where
  "tcp_WriteEOF q conn = Some (snd (conn_CloseWrite conn))"

definition NewTcp :: "(unit, tcpconn) PipeWriter" where
  "NewTcp = \<lparr>pw_Write = tcp_Write, pw_WriteEOF = tcp_WriteEOF\<rparr>"

interpretation tcp: ready_writer NewTcp "()" tx
  "\<lambda>c. \<not> conn_closed c \<and> \<not> wr_closed c \<and> tx_script c = []"
proof
  fix p s n e and s' :: tcpconn
  assume "pw_Write NewTcp () p s = Some ((n, e), s')"
  then show "n \<le> length p \<and> tx s' = tx s @ take n p"
    by (auto simp: NewTcp_def tcp_Write_def dest: conn_Write_takes)
next
  fix s s' :: tcpconn
  assume "pw_WriteEOF NewTcp () s = Some s'"
  then show "tx s' = tx s"
    by (auto simp: NewTcp_def tcp_WriteEOF_def conn_CloseWrite_def)
next
  fix s :: tcpconn and p
  assume "\<not> conn_closed s \<and> \<not> wr_closed s \<and> tx_script s = []"
  then show "\<exists>s'. pw_Write NewTcp () p s = Some ((length p, None), s') \<and>
      \<not> conn_closed s' \<and> \<not> wr_closed s' \<and> tx_script s' = []"
    by (auto simp: NewTcp_def tcp_Write_def conn_Write_ok)
next
  fix s :: tcpconn
  show "\<exists>s'. pw_WriteEOF NewTcp () s = Some s'"
    by (simp add: NewTcp_def tcp_WriteEOF_def)
qed

section \<open>The Send goroutines\<close>

text \<open>
  \<open>queue.Send\<close> and \<open>link.Send\<close> run in goroutines of their own, interleaved with everything else.
  Their program counters: the status check on entry, the assignment of \<open>StaSend\<close>, the top of the
  outer loop, the inner \<open>range\<close> over the identifiers left (\<open>range\<close> evaluates its slice once), the
  receive from a channel, the write of the received buffer, the return (which starts the deferred
  function by storing \<open>StaDone\<close>), the send on the unbuffered \<open>done\<close> channel, its close, and the end.
  \<open>'w\<close> is what the inner loop looked up for the identifier: a writer, or a link.
\<close>

datatype 'w send_pc =
    SendEntry
  | SendInit
  | SendHead
  | SendIter "ksuid list"
  | SendRead "'w option" "ksuid list"
  | SendPut "'w option" buffer "ksuid list"
  | SendReturn "go_error option"
  | SendSignal "go_error option"
  | SendCloseDone "go_error option"
  | SendExit "go_error option"
  | SendCrash

text \<open>The \<open>go\<close> statements of the program, as handlers record them.\<close>

datatype go_stmt =
    GoQueueSend ref                          \<comment> \<open>\<open>go q.Send()\<close>\<close>
  | GoLinkSend ref                           \<comment> \<open>\<open>go q.Send(h)\<close>\<close>
  | GoEstablish ksuid string "bytes option"  \<comment> \<open>\<open>go establishProxy(hub, ...)\<close>\<close>
  | GoLinkWaiter ksuid ref                   \<comment> \<open>waits for the link, then shortens the read deadline of the connection\<close>
  | GoCopy ref ref                           \<comment> \<open>\<open>pipe.CopyBuffer(writer, conn, ...)\<close>\<close>

end
