(* ===== verification/Queue.thy ===== *)
theory Queue
  imports Pipe_Func
begin

text \<open>
  \<open>pipe/queue.go\<close>: a queue takes the chunks of one connection in order and its \<open>Send\<close> goroutine
  deals them to several outgoing connections in turn; the \<open>QueueHub\<close> keeps the queues by their
  master identifier.

  A queue is shared by pointer between the hub, its \<open>Send\<close> goroutine and the goroutine that fills
  it, so the hub maps identifiers to references into a store; a queue stays in the store after
  it left the hub. The hub's methods hold its mutex and are single steps; \<open>Send\<close> is a step function
  over its program counter. A method that starts \<open>go q.Send()\<close> returns the reference it starts it
  on. Where Go panics the result is \<open>None\<close> (hub methods) or \<open>SendCrash\<close>.
\<close>

section \<open>queue\<close>

record 'w queue =
  q_masterID :: ksuid
  q_buffer :: "buffer chan"
  q_writers :: "(ksuid, 'w) gomap"
  q_sorted :: "ksuid list"
  q_status :: status
  q_done_closed :: bool
  q_ctime :: instant

definition NewQueue :: "instant \<Rightarrow> ksuid \<Rightarrow> 'w queue" where
  "NewQueue now masterID =
     \<lparr>q_masterID = masterID, q_buffer = makeBuffer, q_writers = [], q_sorted = [],
      q_status = StaWait, q_done_closed = False, q_ctime = now\<rparr>"

definition queue_SetSort :: "ksuid list \<Rightarrow> 'w queue \<Rightarrow> 'w queue" where
  "queue_SetSort srt q = q\<lparr>q_sorted := srt\<rparr>"

text \<open>
  \<open>timer\<close>: the five-minute timer fires while the channel stays full. A send on the closed channel
  panics; the deferred \<open>recover\<close> makes the call return the zero results \<open>0, nil\<close>.
\<close>

definition queue_writeBuf ::
  "bool \<Rightarrow> buffer \<Rightarrow> 'w queue \<Rightarrow> ((nat \<times> go_error option) \<times> 'w queue) option" where
  "queue_writeBuf timer b q =
     (if q_status q = StaDone then Some ((0, Some (Errorf ''send is over'')), q)
      else case chan_send b (q_buffer q) of
        SendPanics \<Rightarrow> Some ((0, None), q)
      | Sent c \<Rightarrow> Some ((length (b_data b), None), q\<lparr>q_buffer := c\<rparr>)
      | SendBlocks \<Rightarrow> if timer then Some ((0, Some (Errorf ''write timeout'')), q) else None)"

definition queue_Write ::
  "bool \<Rightarrow> bytes \<Rightarrow> 'w queue \<Rightarrow> ((nat \<times> go_error option) \<times> 'w queue) option" where
  "queue_Write timer d q = queue_writeBuf timer (data_buffer d) q"

definition queue_WriteEOF :: "bool \<Rightarrow> 'w queue \<Rightarrow> 'w queue option" where
  "queue_WriteEOF timer q = map_option snd (queue_writeBuf timer eof_buffer q)"

text \<open>
  One step of \<open>Send\<close>. \<open>timer\<close> as above; \<open>waiter\<close>: another goroutine is in \<open>Wait\<close>, ready to receive
  from \<open>done\<close>. \<open>None\<close>: the goroutine is blocked (or has ended). A method call on a missing writer
  panics: the deferred function runs first, and the process ends when it is through.
\<close>

fun queue_Send_step ::
  "('w, 's) PipeWriter \<Rightarrow> bool \<Rightarrow> bool \<Rightarrow> 'w send_pc \<times> 'w queue \<times> 's \<Rightarrow>
     ('w send_pc \<times> 'w queue \<times> 's) option" where
  "queue_Send_step pw timer waiter (SendEntry, q, s) =
     Some (if q_status q = StaSend \<or> q_status q = StaDone then SendExit None else SendInit, q, s)"
| "queue_Send_step pw timer waiter (SendInit, q, s) = Some (SendHead, q\<lparr>q_status := StaSend\<rparr>, s)"
| "queue_Send_step pw timer waiter (SendHead, q, s) =
     Some (if q_status q = StaClose then SendReturn (Some ErrClosedPipe)
           else SendIter (q_sorted q), q, s)"
| "queue_Send_step pw timer waiter (SendIter [], q, s) = Some (SendHead, q, s)"
| "queue_Send_step pw timer waiter (SendIter (cid # ids), q, s) =
     Some (SendRead (gm_get (q_writers q) cid) ids, q, s)"
| "queue_Send_step pw timer waiter (SendRead w ids, q, s) =
     (case readWithTimeout (q_buffer q) timer of
        None \<Rightarrow> None
      | Some ((b, Some err), c) \<Rightarrow> Some (SendReturn (Some err), q\<lparr>q_buffer := c\<rparr>, s)
      | Some ((b, None), c) \<Rightarrow> Some (SendPut w b ids, q\<lparr>q_buffer := c\<rparr>, s))"
| "queue_Send_step pw timer waiter (SendPut None b ids, q, s) =
     Some (SendReturn (Some RuntimeError), q, s)"
| "queue_Send_step pw timer waiter (SendPut (Some w) b ids, q, s) =
     (if b_eof b then map_option (\<lambda>s'. (SendReturn None, q, s')) (pw_WriteEOF pw w s)
      else map_option (\<lambda>((n, e), s').
             (case e of None \<Rightarrow> SendIter ids | Some err \<Rightarrow> SendReturn (Some err), q, s'))
           (pw_Write pw w (b_data b) s))"
| "queue_Send_step pw timer waiter (SendReturn r, q, s) = Some (SendSignal r, q\<lparr>q_status := StaDone\<rparr>, s)"
| "queue_Send_step pw timer waiter (SendSignal r, q, s) =
     (if q_done_closed q then Some (SendCrash, q, s)
      else if waiter then Some (SendCloseDone r, q, s) else None)"
| "queue_Send_step pw timer waiter (SendCloseDone r, q, s) =
     Some (if q_done_closed q \<or> r = Some RuntimeError then SendCrash else SendExit r,
           q\<lparr>q_done_closed := True\<rparr>, s)"
| "queue_Send_step pw timer waiter (SendExit r, q, s) = None"
| "queue_Send_step pw timer waiter (SendCrash, q, s) = None"

text \<open>\<open>Wait\<close> receives from \<open>done\<close>: it returns with a \<open>Send\<close> that signals, or once \<open>done\<close> is closed.\<close>

definition queue_Wait_returns :: "'w send_pc \<Rightarrow> 'w queue \<Rightarrow> bool" where
  "queue_Wait_returns pc q \<longleftrightarrow> q_done_closed q \<or> (\<exists>r. pc = SendSignal r)"

definition queue_close :: "'w queue \<Rightarrow> 'w queue option" where
  "queue_close q =
     (if q_status q = StaClose then Some q
      else map_option (\<lambda>c. q\<lparr>q_status := StaClose, q_buffer := c\<rparr>) (chan_close (q_buffer q)))"

section \<open>QueueHub\<close>

record 'w QueueHub =
  qh_queue :: "(ksuid, ref) gomap"
  qh_heap :: "ref \<Rightarrow> 'w queue"
  qh_next :: ref

definition NewQueueHub :: "'w QueueHub" where
  "NewQueueHub = \<lparr>qh_queue = [], qh_heap = (\<lambda>_. NewQueue 0 0), qh_next = 0\<rparr>"

text \<open>\<open>*r = f(*r)\<close> on the store.\<close>

definition qh_update :: "ref \<Rightarrow> ('w queue \<Rightarrow> 'w queue) \<Rightarrow> 'w QueueHub \<Rightarrow> 'w QueueHub" where
  "qh_update r f h = h\<lparr>qh_heap := (qh_heap h)(r := f (qh_heap h r))\<rparr>"

text \<open>\<open>h.queue[masterID] = NewQueue(masterID)\<close>.\<close>

definition qh_create :: "instant \<Rightarrow> ksuid \<Rightarrow> 'w QueueHub \<Rightarrow> 'w QueueHub" where
  "qh_create now masterID h =
     \<lparr>qh_queue = gm_put masterID (qh_next h) (qh_queue h),
      qh_heap = (qh_heap h)(qh_next h := NewQueue now masterID),
      qh_next = Suc (qh_next h)\<rparr>"

definition QueueHub_Get :: "ksuid \<Rightarrow> 'w QueueHub \<Rightarrow> ref option" where
  "QueueHub_Get masterID h = gm_get (qh_queue h) masterID"

text \<open>\<open>Some r\<close>: the method returned true and started \<open>go q.Send()\<close> on \<open>r\<close>.\<close>

definition QueueHub_trySend :: "ksuid \<Rightarrow> 'w QueueHub \<Rightarrow> ref option" where
  "QueueHub_trySend masterID h =
     (case gm_get (qh_queue h) masterID of
        Some r \<Rightarrow>
          if gm_len (q_writers (qh_heap h r)) = length (q_sorted (qh_heap h r)) then Some r else None
      | None \<Rightarrow> None)"

definition QueueHub_TrySend :: "ksuid \<Rightarrow> 'w QueueHub \<Rightarrow> ref option" where
  "QueueHub_TrySend masterID h = QueueHub_trySend masterID h"

definition QueueHub_Add ::
  "instant \<Rightarrow> ksuid \<Rightarrow> ksuid \<Rightarrow> 'w \<Rightarrow> 'w QueueHub \<Rightarrow> 'w QueueHub \<times> ref option" where
  "QueueHub_Add now masterID cid w h =
     (let h1 = (if gm_get (qh_queue h) masterID = None then qh_create now masterID h else h);
          h2 = (case gm_get (qh_queue h1) masterID of
                  None \<Rightarrow> h1
                | Some r \<Rightarrow> qh_update r (\<lambda>q. q\<lparr>q_writers := gm_put cid w (q_writers q)\<rparr>) h1)
      in (h2, QueueHub_trySend masterID h2))"

definition QueueHub_Remove :: "ksuid \<Rightarrow> 'w QueueHub \<Rightarrow> 'w QueueHub option" where
  "QueueHub_Remove masterID h =
     (case gm_get (qh_queue h) masterID of
        None \<Rightarrow> Some h
      | Some r \<Rightarrow>
          map_option (\<lambda>q. (qh_update r (\<lambda>_. q) h)\<lparr>qh_queue := gm_del masterID (qh_queue h)\<rparr>)
            (queue_close (qh_heap h r)))"

definition QueueHub_SetSort ::
  "instant \<Rightarrow> ksuid \<Rightarrow> ksuid list \<Rightarrow> 'w QueueHub \<Rightarrow> 'w QueueHub" where
  "QueueHub_SetSort now masterID srt h =
     (let h1 = (if gm_get (qh_queue h) masterID = None then qh_create now masterID h else h)
      in case gm_get (qh_queue h1) masterID of
           None \<Rightarrow> h1
         | Some r \<Rightarrow> qh_update r (queue_SetSort srt) h1)"

text \<open>
  The first loop of \<open>TimeoutClose\<close>. Go ranges over a map in an unspecified order: \<open>order\<close> lists the
  keys as this run visits them.
\<close>

fun qh_collect :: "instant \<Rightarrow> 'w QueueHub \<Rightarrow> ksuid list \<Rightarrow> ksuid list \<Rightarrow> ksuid list" where
  "qh_collect now h [] tmp = tmp"
| "qh_collect now h (cid # order) tmp =
     (case gm_get (qh_queue h) cid of
        None \<Rightarrow> qh_collect now h order tmp
      | Some r \<Rightarrow>
          if expHour < now - q_ctime (qh_heap h r)
          then (if 100 < length (tmp @ [cid]) then tmp @ [cid]
                else qh_collect now h order (tmp @ [cid]))
          else qh_collect now h order tmp)"

text \<open>The second loop: close and delete; a key that is gone would be a nil dereference.\<close>

fun qh_close_all :: "ksuid list \<Rightarrow> 'w QueueHub \<Rightarrow> 'w QueueHub option" where
  "qh_close_all [] h = Some h"
| "qh_close_all (cid # ids) h =
     (if gm_get (qh_queue h) cid = None then None
      else Option.bind (QueueHub_Remove cid h) (qh_close_all ids))"

definition QueueHub_TimeoutClose ::
  "instant \<Rightarrow> ksuid list \<Rightarrow> 'w QueueHub \<Rightarrow> 'w QueueHub option" where
  "QueueHub_TimeoutClose now order h = qh_close_all (qh_collect now h order []) h"

definition QueueHub_Len :: "'w QueueHub \<Rightarrow> nat" where
  "QueueHub_Len h = gm_len (qh_queue h)"

section \<open>The queue as a PipeWriter\<close>

definition queue_PW :: "bool \<Rightarrow> (unit, 'w queue) PipeWriter" where
  "queue_PW timer =
     \<lparr>pw_Write = (\<lambda>_. queue_Write timer), pw_WriteEOF = (\<lambda>_. queue_WriteEOF timer)\<rparr>"

definition queue_bytes :: "'w queue \<Rightarrow> bytes" where
  "queue_bytes q = concat (map b_data (ch_buf (q_buffer q)))"

lemma queue_writeBuf_cases:
  assumes "queue_writeBuf timer b q = Some ((n, e), q')"
  obtains (over) "q_status q = StaDone" "n = 0" "e = Some (Errorf ''send is over'')" "q' = q"
  | (panicked) "q_status q \<noteq> StaDone" "ch_closed (q_buffer q)" "n = 0" "e = None" "q' = q"
  | (sent) "q_status q \<noteq> StaDone" "\<not> ch_closed (q_buffer q)"
      "length (ch_buf (q_buffer q)) < ch_cap (q_buffer q)" "n = length (b_data b)" "e = None"
      "q' = q\<lparr>q_buffer := (q_buffer q)\<lparr>ch_buf := ch_buf (q_buffer q) @ [b]\<rparr>\<rparr>"
  | (full) "q_status q \<noteq> StaDone" "timer" "ch_cap (q_buffer q) \<le> length (ch_buf (q_buffer q))"
      "n = 0" "e = Some (Errorf ''write timeout'')" "q' = q"
proof (cases "q_status q = StaDone")
  case True
  with assms show ?thesis by (intro over) (simp_all add: queue_writeBuf_def)
next
  case False
  show ?thesis
  proof (cases "chan_send b (q_buffer q)")
    case (Sent c)
    with assms False show ?thesis
      by (intro sent) (simp_all add: queue_writeBuf_def chan_send_Sent_iff)
  next
    case SendBlocks
    with assms False show ?thesis
      by (intro full) (simp_all add: queue_writeBuf_def chan_send_Blocks_iff split: if_splits)
  next
    case SendPanics
    with assms False show ?thesis
      by (intro panicked) (simp_all add: queue_writeBuf_def chan_send_Panics_iff)
  qed
qed

lemma queue_writeBuf_bytes:
  assumes "queue_writeBuf timer b q = Some ((n, e), q')"
  shows "n \<le> length (b_data b) \<and> queue_bytes q' = queue_bytes q @ take n (b_data b)"
  using assms by (rule queue_writeBuf_cases) (auto simp: queue_bytes_def)

interpretation queue_pw: pipe_writer "queue_PW timer" "()" queue_bytes
  for timer :: bool
proof
  fix p s n e and s' :: "'a queue"
  assume "pw_Write (queue_PW timer) () p s = Some ((n, e), s')"
  then show "n \<le> length p \<and> queue_bytes s' = queue_bytes s @ take n p"
    using queue_writeBuf_bytes [of timer "data_buffer p" s n e s']
    by (simp add: queue_PW_def queue_Write_def)
next
  fix s s' :: "'a queue"
  assume "pw_WriteEOF (queue_PW timer) () s = Some s'"
  then show "queue_bytes s' = queue_bytes s"
    using queue_writeBuf_bytes [of timer eof_buffer s _ _ s']
    by (auto simp: queue_PW_def queue_WriteEOF_def)
qed

interpretation queue_close: idempotent_close queue_close "\<lambda>q. q_status q = StaClose"
  by unfold_locales (auto simp: queue_close_def split: if_splits)

lemma queue_close_Some: "\<not> ch_closed (q_buffer q) \<Longrightarrow> \<exists>q'. queue_close q = Some q'"
  by (simp add: queue_close_def chan_close_def)

section \<open>What no step of Send changes\<close>

lemma queue_Send_step_frame:
  assumes "queue_Send_step pw timer waiter (pc, q, s) = Some (pc', q', s')"
  shows "q_masterID q' = q_masterID q \<and> q_writers q' = q_writers q \<and> q_sorted q' = q_sorted q \<and>
    q_ctime q' = q_ctime q \<and> ch_closed (q_buffer q') = ch_closed (q_buffer q) \<and>
    ch_cap (q_buffer q') = ch_cap (q_buffer q)"
  using assms
  by (cases "(pw, timer, waiter, (pc, q, s))" rule: queue_Send_step.cases)
    (auto split: option.splits if_splits list.splits simp: readWithTimeout_def chan_recv_def)

text \<open>\<open>Send\<close> never brings a queue into the closed state, and leaves it only through \<open>SendInit\<close> and the return.\<close>

lemma queue_Send_step_status:
  assumes "queue_Send_step pw timer waiter (pc, q, s) = Some (pc', q', s')"
  shows "q_status q' = (case pc of SendInit \<Rightarrow> StaSend | SendReturn r \<Rightarrow> StaDone | _ \<Rightarrow> q_status q)"
  using assms
  by (cases "(pw, timer, waiter, (pc, q, s))" rule: queue_Send_step.cases)
    (auto split: option.splits if_splits list.splits)

section \<open>The hub invariant\<close>

text \<open>
  A queue in the hub is filed under its own master identifier, lies in the allocated part of the
  store, was not closed, and has a proper writer map.
\<close>

definition queue_live :: "ksuid \<Rightarrow> 'w queue \<Rightarrow> bool" where
  "queue_live m q \<longleftrightarrow>
     q_masterID q = m \<and> \<not> ch_closed (q_buffer q) \<and> q_status q \<noteq> StaClose \<and> gm_wf (q_writers q)"

definition qh_wf :: "'w QueueHub \<Rightarrow> bool" where
  "qh_wf h \<longleftrightarrow> gm_wf (qh_queue h) \<and>
     (\<forall>m r. gm_get (qh_queue h) m = Some r \<longrightarrow> r < qh_next h \<and> queue_live m (qh_heap h r))"

lemma queue_live_New [simp]: "queue_live m (NewQueue now m)"
  by (simp add: queue_live_def NewQueue_def)

lemma qh_wfD:
  "qh_wf h \<Longrightarrow> gm_get (qh_queue h) m = Some r \<Longrightarrow> r < qh_next h \<and> queue_live m (qh_heap h r)"
  by (simp add: qh_wf_def)

lemma qh_wf_inj:
  "qh_wf h \<Longrightarrow> gm_get (qh_queue h) m = Some r \<Longrightarrow> gm_get (qh_queue h) m' = Some r \<Longrightarrow> m = m'"
  by (metis qh_wfD queue_live_def)

lemma qh_wf_NewQueueHub [wf_intros, simp]: "qh_wf NewQueueHub"
  by (simp add: qh_wf_def NewQueueHub_def)

lemma qh_wf_create [wf_intros]: "qh_wf h \<Longrightarrow> qh_wf (qh_create now m h)"
  by (auto simp: qh_wf_def qh_create_def less_Suc_eq)

lemma qh_wf_update [wf_intros]:
  "qh_wf h \<Longrightarrow> (\<And>m. queue_live m (qh_heap h r) \<Longrightarrow> queue_live m (f (qh_heap h r))) \<Longrightarrow>
     qh_wf (qh_update r f h)"
  by (auto simp: qh_wf_def qh_update_def)

lemma NewQueueHub_sel [simp]: "qh_queue NewQueueHub = []" "qh_next NewQueueHub = 0"
  by (simp_all add: NewQueueHub_def)

lemma qh_update_sel [simp]:
  "qh_queue (qh_update r f h) = qh_queue h" "qh_next (qh_update r f h) = qh_next h"
  "qh_heap (qh_update r f h) r' = (if r' = r then f (qh_heap h r) else qh_heap h r')"
  by (simp_all add: qh_update_def)

lemma qh_create_sel [simp]:
  "gm_get (qh_queue (qh_create now m h)) m' =
     (if m' = m then Some (qh_next h) else gm_get (qh_queue h) m')"
  "qh_heap (qh_create now m h) r =
     (if r = qh_next h then NewQueue now m else qh_heap h r)"
  by (simp_all add: qh_create_def)

text \<open>The step common to \<open>Add\<close> and \<open>SetSort\<close>: the queue of the master, created when it is missing.\<close>

definition qh_ensure :: "instant \<Rightarrow> ksuid \<Rightarrow> 'w QueueHub \<Rightarrow> 'w QueueHub" where
  "qh_ensure now m h = (if gm_get (qh_queue h) m = None then qh_create now m h else h)"

lemma qh_wf_ensure [wf_intros]: "qh_wf h \<Longrightarrow> qh_wf (qh_ensure now m h)"
  by (simp add: qh_ensure_def qh_wf_create)

lemma qh_ensure_Some: "\<exists>r. gm_get (qh_queue (qh_ensure now m h)) m = Some r"
  by (auto simp: qh_ensure_def)

lemma QueueHub_Add_ensure:
  "gm_get (qh_queue (qh_ensure now m h)) m = Some r \<Longrightarrow>
     QueueHub_Add now m i w h =
       (let h2 = qh_update r (\<lambda>q. q\<lparr>q_writers := gm_put i w (q_writers q)\<rparr>) (qh_ensure now m h)
        in (h2, QueueHub_trySend m h2))"
  by (simp add: QueueHub_Add_def qh_ensure_def Let_def)

lemma QueueHub_SetSort_ensure:
  "gm_get (qh_queue (qh_ensure now m h)) m = Some r \<Longrightarrow>
     QueueHub_SetSort now m srt h = qh_update r (queue_SetSort srt) (qh_ensure now m h)"
  by (simp add: QueueHub_SetSort_def qh_ensure_def Let_def)

lemma qh_wf_Add [wf_intros]: "qh_wf h \<Longrightarrow> qh_wf (fst (QueueHub_Add now m i w h))"
  using qh_ensure_Some [of now m h]
  by (auto simp: QueueHub_Add_ensure Let_def queue_live_def intro!: qh_wf_update qh_wf_ensure)

lemma qh_wf_SetSort [wf_intros]: "qh_wf h \<Longrightarrow> qh_wf (QueueHub_SetSort now m srt h)"
  using qh_ensure_Some [of now m h]
  by (auto simp: QueueHub_SetSort_ensure queue_live_def queue_SetSort_def
      intro!: qh_wf_update qh_wf_ensure)

lemma QueueHub_Remove_wf:
  assumes "qh_wf h"
  shows "\<exists>h'. QueueHub_Remove m h = Some h' \<and> qh_wf h' \<and> qh_queue h' = gm_del m (qh_queue h) \<and>
           (\<forall>m' r. m' \<noteq> m \<longrightarrow> gm_get (qh_queue h) m' = Some r \<longrightarrow> qh_heap h' r = qh_heap h r)"
proof (cases "gm_get (qh_queue h) m")
  case None
  with assms show ?thesis by (simp add: QueueHub_Remove_def gm_del_absent)
next
  case (Some r)
  with assms have "queue_live m (qh_heap h r)" by (auto dest: qh_wfD)
  then obtain q where q: "queue_close (qh_heap h r) = Some q"
    using queue_close_Some by (auto simp: queue_live_def)
  define h' where "h' = (qh_update r (\<lambda>_. q) h)\<lparr>qh_queue := gm_del m (qh_queue h)\<rparr>"
  have "QueueHub_Remove m h = Some h'"
    using Some q by (simp add: QueueHub_Remove_def h'_def)
  moreover have other: "qh_heap h' r' = qh_heap h r'" if "m' \<noteq> m" "gm_get (qh_queue h) m' = Some r'" for m' r'
    using qh_wf_inj [OF assms Some, of m'] that by (auto simp: h'_def)
  moreover have "qh_wf h'"
    using assms other by (auto simp: qh_wf_def h'_def split: if_splits)
  ultimately show ?thesis by (auto simp: h'_def)
qed

end
