(* ===== verification/Link.thy ===== *)
theory Link
  imports Pipe_Func
begin

text \<open>
  \<open>pipe/link.go\<close>: a link buffers the chunks received over one of the incoming connections of a
  transfer; the link of the master connection also knows the order of all of them, and its \<open>Send\<close>
  goroutine reads the links in turn and writes the chunks to the target connection. The \<open>LinkHub\<close>
  keeps the links by identifier and starts \<open>Send\<close> once the target is connected and all connections
  have announced themselves.

  Links are shared by pointer, so the hub maps identifiers to references into a store, as in
  \<open>Queue\<close>; target connections live in a store of their own.
\<close>

section \<open>link\<close>

record link =
  l_master :: ksuid
  l_buffer :: "buffer chan"
  l_status :: status
  l_done_closed :: bool
  l_sorted :: "ksuid list"
  l_conn :: "ref option"
  l_counter :: nat
  l_ctime :: instant

definition NewLink :: "instant \<Rightarrow> ksuid \<Rightarrow> link" where
  "NewLink now masterID =
     \<lparr>l_master = masterID, l_buffer = makeBuffer, l_status = StaWait, l_done_closed = False,
      l_sorted = [], l_conn = None, l_counter = 0, l_ctime = now\<rparr>"

definition link_SetConn :: "ref option \<Rightarrow> link \<Rightarrow> link" where
  "link_SetConn conn q = q\<lparr>l_conn := conn\<rparr>"

definition link_SetSort :: "ksuid list \<Rightarrow> link \<Rightarrow> link" where
  "link_SetSort srt q = q\<lparr>l_sorted := srt\<rparr>"

definition link_writeBuf ::
  "bool \<Rightarrow> buffer \<Rightarrow> link \<Rightarrow> ((nat \<times> go_error option) \<times> link) option" where
  "link_writeBuf timer b q =
     (if l_status q = StaDone then Some ((0, Some (Errorf ''send is over'')), q)
      else case chan_send b (l_buffer q) of
        SendPanics \<Rightarrow> Some ((0, None), q)
      | Sent c \<Rightarrow> Some ((length (b_data b), None), q\<lparr>l_buffer := c\<rparr>)
      | SendBlocks \<Rightarrow> if timer then Some ((0, Some (Errorf ''write timeout'')), q) else None)"

definition link_Write ::
  "bool \<Rightarrow> bytes \<Rightarrow> link \<Rightarrow> ((nat \<times> go_error option) \<times> link) option" where
  "link_Write timer d q = link_writeBuf timer (data_buffer d) q"

definition link_WriteEOF :: "bool \<Rightarrow> link \<Rightarrow> link option" where
  "link_WriteEOF timer q = map_option snd (link_writeBuf timer eof_buffer q)"

definition link_close :: "link \<Rightarrow> link option" where
  "link_close q =
     (if l_status q = StaClose then Some q
      else map_option (\<lambda>c. q\<lparr>l_status := StaClose, l_buffer := c\<rparr>) (chan_close (l_buffer q)))"

section \<open>LinkHub\<close>

record LinkHub =
  lh_links :: "(ksuid, ref) gomap"
  lh_heap :: "ref \<Rightarrow> link"
  lh_next :: ref

definition NewLinkHub :: LinkHub where
  "NewLinkHub = \<lparr>lh_links = [], lh_heap = (\<lambda>_. NewLink 0 0), lh_next = 0\<rparr>"

definition lh_update :: "ref \<Rightarrow> (link \<Rightarrow> link) \<Rightarrow> LinkHub \<Rightarrow> LinkHub" where
  "lh_update r f h = h\<lparr>lh_heap := (lh_heap h)(r := f (lh_heap h r))\<rparr>"

text \<open>\<open>h.links[cid] = NewLink(masterID)\<close>.\<close>

definition lh_create :: "instant \<Rightarrow> ksuid \<Rightarrow> ksuid \<Rightarrow> LinkHub \<Rightarrow> LinkHub" where
  "lh_create now cid masterID h =
     \<lparr>lh_links = gm_put cid (lh_next h) (lh_links h),
      lh_heap = (lh_heap h)(lh_next h := NewLink now masterID),
      lh_next = Suc (lh_next h)\<rparr>"

text \<open>Create the entry when it is missing.\<close>

definition lh_ensure :: "instant \<Rightarrow> ksuid \<Rightarrow> ksuid \<Rightarrow> LinkHub \<Rightarrow> LinkHub" where
  "lh_ensure now cid masterID h =
     (if gm_get (lh_links h) cid = None then lh_create now cid masterID h else h)"

definition LinkHub_Get :: "ksuid \<Rightarrow> LinkHub \<Rightarrow> ref option" where
  "LinkHub_Get cid h = gm_get (lh_links h) cid"

text \<open>\<open>Some r\<close> in the second component: \<open>go q.Send(h)\<close> was started on \<open>r\<close>, and true returned.\<close>

definition LinkHub_trySend :: "ksuid \<Rightarrow> ref option \<Rightarrow> LinkHub \<Rightarrow> LinkHub \<times> ref option" where
  "LinkHub_trySend masterID conn h =
     (case gm_get (lh_links h) masterID of
        None \<Rightarrow> (h, None)
      | Some r \<Rightarrow>
          let h1 = (if conn \<noteq> None then lh_update r (link_SetConn conn) h else h);
              q = lh_heap h1 r
          in (h1, if l_conn q \<noteq> None \<and> l_counter q = length (l_sorted q) then Some r else None))"

definition LinkHub_TrySend :: "ksuid \<Rightarrow> ref option \<Rightarrow> LinkHub \<Rightarrow> LinkHub \<times> ref option" where
  "LinkHub_TrySend masterID conn h = LinkHub_trySend masterID conn h"

definition LinkHub_Add :: "instant \<Rightarrow> ksuid \<Rightarrow> ksuid \<Rightarrow> LinkHub \<Rightarrow> LinkHub \<times> ref option" where
  "LinkHub_Add now cid masterID h =
     (let h1 = lh_ensure now masterID masterID h;
          h2 = lh_ensure now cid masterID h1;
          h3 = (case gm_get (lh_links h1) masterID of
                  None \<Rightarrow> h2
                | Some m \<Rightarrow> lh_update m (\<lambda>q. q\<lparr>l_counter := Suc (l_counter q)\<rparr>) h2)
      in LinkHub_trySend masterID None h3)"

definition LinkHub_SetSort :: "instant \<Rightarrow> ksuid \<Rightarrow> ksuid list \<Rightarrow> LinkHub \<Rightarrow> LinkHub" where
  "LinkHub_SetSort now masterID srt h =
     (let h1 = lh_ensure now masterID masterID h
      in case gm_get (lh_links h1) masterID of
           None \<Rightarrow> h1
         | Some r \<Rightarrow> lh_update r (link_SetSort srt) h1)"

text \<open>\<open>c.close(cid); delete(h.links, cid)\<close> for the link at \<open>cid\<close>, if there is one.\<close>

definition lh_drop :: "ksuid \<Rightarrow> LinkHub \<Rightarrow> LinkHub option" where
  "lh_drop cid h =
     (case gm_get (lh_links h) cid of
        None \<Rightarrow> Some h
      | Some r \<Rightarrow>
          map_option (\<lambda>q. (lh_update r (\<lambda>_. q) h)\<lparr>lh_links := gm_del cid (lh_links h)\<rparr>)
            (link_close (lh_heap h r)))"

fun lh_drop_members :: "ksuid \<Rightarrow> ksuid list \<Rightarrow> LinkHub \<Rightarrow> LinkHub option" where
  "lh_drop_members masterID [] h = Some h"
| "lh_drop_members masterID (cid # ids) h =
     (if cid = masterID then lh_drop_members masterID ids h
      else Option.bind (lh_drop cid h) (lh_drop_members masterID ids))"

definition LinkHub_RemoveAll :: "ksuid \<Rightarrow> LinkHub \<Rightarrow> LinkHub option" where
  "LinkHub_RemoveAll masterID h =
     (case gm_get (lh_links h) masterID of
        None \<Rightarrow> Some h
      | Some r \<Rightarrow>
          Option.bind (lh_drop_members masterID (l_sorted (lh_heap h r)) h) (lh_drop masterID))"

fun lh_collect :: "instant \<Rightarrow> LinkHub \<Rightarrow> ksuid list \<Rightarrow> ksuid list \<Rightarrow> ksuid list" where
  "lh_collect now h [] tmp = tmp"
| "lh_collect now h (cid # order) tmp =
     (case gm_get (lh_links h) cid of
        None \<Rightarrow> lh_collect now h order tmp
      | Some r \<Rightarrow>
          if expHour < now - l_ctime (lh_heap h r)
          then (if 100 < length (tmp @ [cid]) then tmp @ [cid]
                else lh_collect now h order (tmp @ [cid]))
          else lh_collect now h order tmp)"

fun lh_close_all :: "ksuid list \<Rightarrow> LinkHub \<Rightarrow> LinkHub option" where
  "lh_close_all [] h = Some h"
| "lh_close_all (cid # ids) h =
     (if gm_get (lh_links h) cid = None then None
      else Option.bind (lh_drop cid h) (lh_close_all ids))"

definition LinkHub_TimeoutClose :: "instant \<Rightarrow> ksuid list \<Rightarrow> LinkHub \<Rightarrow> LinkHub option" where
  "LinkHub_TimeoutClose now order h = lh_close_all (lh_collect now h order []) h"

definition LinkHub_Len :: "LinkHub \<Rightarrow> nat" where
  "LinkHub_Len h = gm_len (lh_links h)"

section \<open>Send\<close>

text \<open>
  One step of \<open>Send\<close> on the link at \<open>me\<close>. \<open>conns\<close> is the store of target connections. The write goes
  to the connection the master link holds at that moment.
\<close>

fun link_Send_step ::
  "bool \<Rightarrow> bool \<Rightarrow> ref \<Rightarrow> ref send_pc \<times> LinkHub \<times> (ref \<Rightarrow> tcpconn) \<Rightarrow>
     (ref send_pc \<times> LinkHub \<times> (ref \<Rightarrow> tcpconn)) option" where
  "link_Send_step timer waiter me (SendEntry, h, conns) =
     Some (if l_status (lh_heap h me) = StaSend \<or> l_status (lh_heap h me) = StaDone
           then SendExit None else SendInit, h, conns)"
| "link_Send_step timer waiter me (SendInit, h, conns) =
     Some (SendHead, lh_update me (\<lambda>q. q\<lparr>l_status := StaSend\<rparr>) h, conns)"
| "link_Send_step timer waiter me (SendHead, h, conns) =
     Some (if l_status (lh_heap h me) = StaClose then SendReturn (Some ErrClosedPipe)
           else SendIter (l_sorted (lh_heap h me)), h, conns)"
| "link_Send_step timer waiter me (SendIter [], h, conns) = Some (SendHead, h, conns)"
| "link_Send_step timer waiter me (SendIter (cid # ids), h, conns) =
     Some (SendRead (LinkHub_Get cid h) ids, h, conns)"
| "link_Send_step timer waiter me (SendRead None ids, h, conns) =
     Some (SendReturn (Some (Errorf ''queue not found'')), h, conns)"
| "link_Send_step timer waiter me (SendRead (Some s) ids, h, conns) =
     (case readWithTimeout (l_buffer (lh_heap h s)) timer of
        None \<Rightarrow> None
      | Some ((b, Some err), c) \<Rightarrow> Some (SendReturn (Some err), h, conns)
      | Some ((b, None), c) \<Rightarrow>
          Some (SendPut (Some s) b ids, lh_update s (\<lambda>q. q\<lparr>l_buffer := c\<rparr>) h, conns))"
| "link_Send_step timer waiter me (SendPut s b ids, h, conns) =
     (case safeWrite (map_option conns (l_conn (lh_heap h me))) (b_data b) (b_eof b) of
        ((n, e), c) \<Rightarrow>
          Some (case e of
                  Some err \<Rightarrow> SendReturn (Some err)
                | None \<Rightarrow> if b_eof b then SendReturn None else SendIter ids,
                h,
                case (l_conn (lh_heap h me), c) of (Some r, Some c') \<Rightarrow> conns(r := c') | _ \<Rightarrow> conns))"
| "link_Send_step timer waiter me (SendReturn r, h, conns) =
     Some (SendSignal r, lh_update me (\<lambda>q. q\<lparr>l_status := StaDone\<rparr>) h, conns)"
| "link_Send_step timer waiter me (SendSignal r, h, conns) =
     (if l_done_closed (lh_heap h me) then Some (SendCrash, h, conns)
      else if waiter then Some (SendCloseDone r, h, conns) else None)"
| "link_Send_step timer waiter me (SendCloseDone r, h, conns) =
     Some (if l_done_closed (lh_heap h me) then SendCrash else SendExit r,
           lh_update me (\<lambda>q. q\<lparr>l_done_closed := True\<rparr>) h, conns)"
| "link_Send_step timer waiter me (SendExit r, h, conns) = None"
| "link_Send_step timer waiter me (SendCrash, h, conns) = None"

definition link_Wait_returns :: "ref send_pc \<Rightarrow> link \<Rightarrow> bool" where
  "link_Wait_returns pc q \<longleftrightarrow> l_done_closed q \<or> (\<exists>r. pc = SendSignal r)"

section \<open>The link as a PipeWriter\<close>

definition link_PW :: "bool \<Rightarrow> (unit, link) PipeWriter" where
  "link_PW timer = \<lparr>pw_Write = (\<lambda>_. link_Write timer), pw_WriteEOF = (\<lambda>_. link_WriteEOF timer)\<rparr>"

definition link_bytes :: "link \<Rightarrow> bytes" where
  "link_bytes q = concat (map b_data (ch_buf (l_buffer q)))"

lemma link_writeBuf_cases:
  assumes "link_writeBuf timer b q = Some ((n, e), q')"
  obtains (over) "l_status q = StaDone" "n = 0" "e = Some (Errorf ''send is over'')" "q' = q"
  | (panicked) "l_status q \<noteq> StaDone" "ch_closed (l_buffer q)" "n = 0" "e = None" "q' = q"
  | (sent) "l_status q \<noteq> StaDone" "\<not> ch_closed (l_buffer q)"
      "length (ch_buf (l_buffer q)) < ch_cap (l_buffer q)" "n = length (b_data b)" "e = None"
      "q' = q\<lparr>l_buffer := (l_buffer q)\<lparr>ch_buf := ch_buf (l_buffer q) @ [b]\<rparr>\<rparr>"
  | (full) "l_status q \<noteq> StaDone" "timer" "ch_cap (l_buffer q) \<le> length (ch_buf (l_buffer q))"
      "n = 0" "e = Some (Errorf ''write timeout'')" "q' = q"
proof (cases "l_status q = StaDone")
  case True
  with assms show ?thesis by (intro over) (simp_all add: link_writeBuf_def)
next
  case False
  show ?thesis
  proof (cases "chan_send b (l_buffer q)")
    case (Sent c)
    with assms False show ?thesis
      by (intro sent) (simp_all add: link_writeBuf_def chan_send_Sent_iff)
  next
    case SendBlocks
    with assms False show ?thesis
      by (intro full) (simp_all add: link_writeBuf_def chan_send_Blocks_iff split: if_splits)
  next
    case SendPanics
    with assms False show ?thesis
      by (intro panicked) (simp_all add: link_writeBuf_def chan_send_Panics_iff)
  qed
qed

lemma link_writeBuf_sent:
  "l_status q \<noteq> StaDone \<Longrightarrow> \<not> ch_closed (l_buffer q) \<Longrightarrow>
     length (ch_buf (l_buffer q)) < ch_cap (l_buffer q) \<Longrightarrow>
     link_writeBuf timer b q = Some ((length (b_data b), None),
       q\<lparr>l_buffer := (l_buffer q)\<lparr>ch_buf := ch_buf (l_buffer q) @ [b]\<rparr>\<rparr>)"
  by (simp add: link_writeBuf_def chan_send_def)

lemma link_writeBuf_bytes:
  assumes "link_writeBuf timer b q = Some ((n, e), q')"
  shows "n \<le> length (b_data b) \<and> link_bytes q' = link_bytes q @ take n (b_data b)"
  using assms by (rule link_writeBuf_cases) (auto simp: link_bytes_def)

interpretation link_pw: pipe_writer "link_PW timer" "()" link_bytes
  for timer :: bool
proof
  fix p s n e s'
  assume "pw_Write (link_PW timer) () p s = Some ((n, e), s')"
  then show "n \<le> length p \<and> link_bytes s' = link_bytes s @ take n p"
    using link_writeBuf_bytes [of timer "data_buffer p" s n e s']
    by (simp add: link_PW_def link_Write_def)
next
  fix s s'
  assume "pw_WriteEOF (link_PW timer) () s = Some s'"
  then show "link_bytes s' = link_bytes s"
    using link_writeBuf_bytes [of timer eof_buffer s _ _ s']
    by (auto simp: link_PW_def link_WriteEOF_def)
qed

interpretation link_close: idempotent_close link_close "\<lambda>q. l_status q = StaClose"
  by unfold_locales (auto simp: link_close_def split: if_splits)

lemma link_close_Some: "\<not> ch_closed (l_buffer q) \<Longrightarrow> \<exists>q'. link_close q = Some q'"
  by (simp add: link_close_def chan_close_def)

section \<open>The hub invariant\<close>

text \<open>
  Distinct identifiers have distinct links, every link of the hub lies in the allocated part of
  the store, and none of them was closed.
\<close>

definition link_live :: "link \<Rightarrow> bool" where
  "link_live q \<longleftrightarrow> \<not> ch_closed (l_buffer q) \<and> l_status q \<noteq> StaClose"

definition lh_wf :: "LinkHub \<Rightarrow> bool" where
  "lh_wf h \<longleftrightarrow> gm_wf (lh_links h) \<and>
     (\<forall>i r. gm_get (lh_links h) i = Some r \<longrightarrow> r < lh_next h \<and> link_live (lh_heap h r)) \<and>
     (\<forall>i j r. gm_get (lh_links h) i = Some r \<longrightarrow> gm_get (lh_links h) j = Some r \<longrightarrow> i = j)"

lemma link_live_New [simp]: "link_live (NewLink now m)"
  by (simp add: link_live_def NewLink_def)

lemma lh_wfD: "lh_wf h \<Longrightarrow> gm_get (lh_links h) i = Some r \<Longrightarrow> r < lh_next h \<and> link_live (lh_heap h r)"
  by (simp add: lh_wf_def)

lemma lh_wf_inj:
  "lh_wf h \<Longrightarrow> gm_get (lh_links h) i = Some r \<Longrightarrow> gm_get (lh_links h) j = Some r \<Longrightarrow> i = j"
  by (simp add: lh_wf_def)

lemma lh_wf_NewLinkHub [wf_intros, simp]: "lh_wf NewLinkHub"
  by (simp add: lh_wf_def NewLinkHub_def)

lemma NewLinkHub_sel [simp]: "lh_links NewLinkHub = []" "lh_next NewLinkHub = 0"
  by (simp_all add: NewLinkHub_def)

lemma lh_update_sel [simp]:
  "lh_links (lh_update r f h) = lh_links h" "lh_next (lh_update r f h) = lh_next h"
  "lh_heap (lh_update r f h) r' = (if r' = r then f (lh_heap h r) else lh_heap h r')"
  by (simp_all add: lh_update_def)

lemma lh_create_sel [simp]:
  "gm_get (lh_links (lh_create now i m h)) j =
     (if j = i then Some (lh_next h) else gm_get (lh_links h) j)"
  "lh_heap (lh_create now i m h) r = (if r = lh_next h then NewLink now m else lh_heap h r)"
  "lh_next (lh_create now i m h) = Suc (lh_next h)"
  by (simp_all add: lh_create_def)

lemma lh_wf_create [wf_intros]:
  assumes "lh_wf h"
  shows "lh_wf (lh_create now i m h)"
proof -
  have fresh: "gm_get (lh_links h) j \<noteq> Some (lh_next h)" for j
    using lh_wfD [OF assms, of j "lh_next h"] by auto
  have "gm_wf (lh_links (lh_create now i m h))"
    using assms by (simp add: lh_wf_def lh_create_def)
  with assms fresh show ?thesis
    unfolding lh_wf_def by (auto simp: less_Suc_eq)
qed

lemma lh_wf_ensure [wf_intros]: "lh_wf h \<Longrightarrow> lh_wf (lh_ensure now i m h)"
  by (simp add: lh_ensure_def lh_wf_create)

lemma lh_ensure_Some: "\<exists>r. gm_get (lh_links (lh_ensure now i m h)) i = Some r"
  by (auto simp: lh_ensure_def)

lemma lh_ensure_other: "gm_get (lh_links h) j = Some r \<Longrightarrow> gm_get (lh_links (lh_ensure now i m h)) j = Some r"
  by (auto simp: lh_ensure_def)

lemma lh_wf_update [wf_intros]:
  "lh_wf h \<Longrightarrow> (link_live (lh_heap h r) \<Longrightarrow> link_live (f (lh_heap h r))) \<Longrightarrow> lh_wf (lh_update r f h)"
  by (auto simp: lh_wf_def)

lemma lh_wf_trySend [wf_intros]: "lh_wf h \<Longrightarrow> lh_wf (fst (LinkHub_trySend m conn h))"
  by (auto simp: LinkHub_trySend_def Let_def link_SetConn_def link_live_def
      intro!: lh_wf_update split: option.splits)

lemma lh_wf_Add [wf_intros]: "lh_wf h \<Longrightarrow> lh_wf (fst (LinkHub_Add now i m h))"
  unfolding LinkHub_Add_def Let_def
  by (intro lh_wf_trySend) (auto split: option.splits intro!: lh_wf_update lh_wf_ensure simp: link_live_def)

lemma lh_wf_SetSort [wf_intros]: "lh_wf h \<Longrightarrow> lh_wf (LinkHub_SetSort now m srt h)"
  unfolding LinkHub_SetSort_def Let_def
  by (auto split: option.splits intro!: lh_wf_update lh_wf_ensure simp: link_live_def link_SetSort_def)

lemma lh_drop_wf:
  assumes "lh_wf h"
  shows "\<exists>h'. lh_drop i h = Some h' \<and> lh_wf h' \<and> lh_links h' = gm_del i (lh_links h) \<and>
           (\<forall>j r. j \<noteq> i \<longrightarrow> gm_get (lh_links h) j = Some r \<longrightarrow> lh_heap h' r = lh_heap h r)"
proof (cases "gm_get (lh_links h) i")
  case None
  with assms show ?thesis by (simp add: lh_drop_def gm_del_absent)
next
  case (Some r)
  with assms have "link_live (lh_heap h r)" by (auto dest: lh_wfD)
  then obtain q where q: "link_close (lh_heap h r) = Some q"
    using link_close_Some by (auto simp: link_live_def)
  define h' where "h' = (lh_update r (\<lambda>_. q) h)\<lparr>lh_links := gm_del i (lh_links h)\<rparr>"
  have "lh_drop i h = Some h'"
    using Some q by (simp add: lh_drop_def h'_def)
  moreover have other: "lh_heap h' r' = lh_heap h r'" if "j \<noteq> i" "gm_get (lh_links h) j = Some r'" for j r'
    using lh_wf_inj [OF assms Some, of j] that by (auto simp: h'_def)
  moreover have "lh_wf h'"
    using assms other by (auto simp: lh_wf_def h'_def split: if_splits)
  ultimately show ?thesis by (auto simp: h'_def)
qed

lemma lh_drop_members_wf:
  assumes "lh_wf h"
  shows "\<exists>h'. lh_drop_members m ids h = Some h' \<and> lh_wf h' \<and>
           (\<forall>j. gm_get (lh_links h') j =
              (if j \<in> set ids \<and> j \<noteq> m then None else gm_get (lh_links h) j)) \<and>
           (\<forall>j r. (j \<notin> set ids \<or> j = m) \<longrightarrow> gm_get (lh_links h) j = Some r \<longrightarrow>
              lh_heap h' r = lh_heap h r)"
  using assms
proof (induction ids arbitrary: h)
  case Nil
  then show ?case by simp
next
  case (Cons i ids)
  show ?case
  proof (cases "i = m")
    case True
    then have "lh_drop_members m (i # ids) h = lh_drop_members m ids h"
      and "\<And>j. (j \<in> set (i # ids) \<and> j \<noteq> m) = (j \<in> set ids \<and> j \<noteq> m)"
      and "\<And>j. (j \<notin> set (i # ids) \<or> j = m) = (j \<notin> set ids \<or> j = m)"
      by auto
    then show ?thesis using Cons.IH [OF Cons.prems] by (simp only:)
  next
    case False
    obtain h1 where h1: "lh_drop i h = Some h1" "lh_wf h1" "lh_links h1 = gm_del i (lh_links h)"
        "\<And>j r. j \<noteq> i \<Longrightarrow> gm_get (lh_links h) j = Some r \<Longrightarrow> lh_heap h1 r = lh_heap h r"
      using lh_drop_wf [OF Cons.prems, of i] by blast
    from Cons.IH [OF h1(2)] obtain h2 where h2: "lh_drop_members m ids h1 = Some h2" "lh_wf h2"
        "\<And>j. gm_get (lh_links h2) j = (if j \<in> set ids \<and> j \<noteq> m then None else gm_get (lh_links h1) j)"
        "\<And>j r. j \<notin> set ids \<or> j = m \<Longrightarrow> gm_get (lh_links h1) j = Some r \<Longrightarrow> lh_heap h2 r = lh_heap h1 r"
      by blast
    have "\<forall>j r. (j \<notin> set (i # ids) \<or> j = m) \<longrightarrow> gm_get (lh_links h) j = Some r \<longrightarrow>
        lh_heap h2 r = lh_heap h r"
    proof (intro allI impI)
      fix j r
      assume j: "j \<notin> set (i # ids) \<or> j = m" "gm_get (lh_links h) j = Some r"
      with False have "j \<noteq> i" by auto
      with j h1(3,4) h2(4) [of j r] show "lh_heap h2 r = lh_heap h r" by auto
    qed
    moreover have "\<forall>j. gm_get (lh_links h2) j =
        (if j \<in> set (i # ids) \<and> j \<noteq> m then None else gm_get (lh_links h) j)"
      using h1(3) h2(3) False by auto
    moreover have "lh_drop_members m (i # ids) h = Some h2"
      using h1(1) h2(1) False by simp
    ultimately show ?thesis using h2(2) by blast
  qed
qed

text \<open>
  \<open>RemoveAll\<close> on a proper hub never panics; it removes the master and the members of its order,
  and nothing else.
\<close>

lemma LinkHub_RemoveAll_wf:
  assumes "lh_wf h" and "gm_get (lh_links h) m = Some r"
  shows "\<exists>h'. LinkHub_RemoveAll m h = Some h' \<and> lh_wf h' \<and>
           (\<forall>j. gm_get (lh_links h') j =
              (if j = m \<or> j \<in> set (l_sorted (lh_heap h r)) then None else gm_get (lh_links h) j))"
proof -
  obtain h1 where h1: "lh_drop_members m (l_sorted (lh_heap h r)) h = Some h1" "lh_wf h1"
      "\<And>j. gm_get (lh_links h1) j =
         (if j \<in> set (l_sorted (lh_heap h r)) \<and> j \<noteq> m then None else gm_get (lh_links h) j)"
    using lh_drop_members_wf [OF assms(1)] by blast
  moreover obtain h2 where "lh_drop m h1 = Some h2" "lh_wf h2" "lh_links h2 = gm_del m (lh_links h1)"
    using lh_drop_wf [OF h1(2), of m] by blast
  ultimately show ?thesis
    using assms(2) by (auto simp: LinkHub_RemoveAll_def)
qed

section \<open>Receiving a chunk\<close>

text \<open>What both receivers do with a chunk that arrived for \<open>cid\<close>: \<open>link.Write\<close> or \<open>link.WriteEOF\<close> on its link,
  if there is one. \<open>None\<close>: the link is full.\<close>

definition deliver :: "bool \<Rightarrow> ksuid \<Rightarrow> buffer \<Rightarrow> LinkHub \<Rightarrow> LinkHub option" where
  "deliver timer cid b h =
     (case LinkHub_Get cid h of
        None \<Rightarrow> Some h
      | Some r \<Rightarrow> map_option (\<lambda>(res, q). lh_update r (\<lambda>_. q) h) (link_writeBuf timer b (lh_heap h r)))"

lemma link_writeBuf_live:
  "link_writeBuf timer b q = Some (r, q') \<Longrightarrow> link_live q \<Longrightarrow> link_live q'"
  by (cases r) (auto simp: link_live_def elim!: link_writeBuf_cases)

lemma deliver_wf [wf_intros]: "lh_wf h \<Longrightarrow> deliver timer cid b h = Some h' \<Longrightarrow> lh_wf h'"
  by (auto simp: deliver_def LinkHub_Get_def dest: link_writeBuf_live
      intro!: lh_wf_update split: option.splits)

end
