(* ===== verification/Base64.thy ===== *)
theory Base64
  imports Prelude
begin

text \<open>
  \<open>base64.StdEncoding\<close> of Go's standard library, as the data and establish messages use it: the
  encoder on groups of three bytes with \<open>=\<close> padding, and the decoder, which skips line breaks,
  accepts padding only at the end and otherwise fails.
\<close>

definition alphabet :: string where
  "alphabet = ''ABCDEFGHIJKLMNOPQRSTUVWXYZabcdefghijklmnopqrstuvwxyz0123456789+/''"

definition enc_digit :: "nat \<Rightarrow> char" where
  "enc_digit v = alphabet ! (v mod 64)"

definition dec_digit :: "char \<Rightarrow> nat option" where
  "dec_digit c = map_of (zip alphabet [0..<64]) c"

fun EncodeToString :: "bytes \<Rightarrow> string" where
  "EncodeToString [] = []"
| "EncodeToString [a] =
     (let val = unat a * 65536
      in [enc_digit (val div 262144), enc_digit (val div 4096), CHR ''='', CHR ''=''])"
| "EncodeToString [a, b] =
     (let val = unat a * 65536 + unat b * 256
      in [enc_digit (val div 262144), enc_digit (val div 4096), enc_digit (val div 64), CHR ''=''])"
| "EncodeToString (a # b # c # rest) =
     (let val = unat a * 65536 + unat b * 256 + unat c
      in enc_digit (val div 262144) # enc_digit (val div 4096) # enc_digit (val div 64)
           # enc_digit val # EncodeToString rest)"

fun decode_quanta :: "string \<Rightarrow> bytes option" where
  "decode_quanta [] = Some []"
| "decode_quanta (c1 # c2 # c3 # c4 # rest) =
     (case (dec_digit c1, dec_digit c2) of
        (Some d1, Some d2) \<Rightarrow>
          (case (dec_digit c3, dec_digit c4) of
             (Some d3, Some d4) \<Rightarrow>
               (let val = d1 * 262144 + d2 * 4096 + d3 * 64 + d4
                in map_option (\<lambda>r. of_nat (val div 65536) # of_nat (val div 256) # of_nat val # r)
                     (decode_quanta rest))
           | (Some d3, None) \<Rightarrow>
               (if c4 = CHR ''='' \<and> rest = []
                then (let val = d1 * 262144 + d2 * 4096 + d3 * 64
                      in Some [of_nat (val div 65536), of_nat (val div 256)])
                else None)
           | (None, _) \<Rightarrow>
               (if c3 = CHR ''='' \<and> c4 = CHR ''='' \<and> rest = []
                then Some [of_nat ((d1 * 262144 + d2 * 4096) div 65536)] else None))
      | _ \<Rightarrow> None)"
| "decode_quanta _ = None"

definition DecodeString :: "string \<Rightarrow> bytes option" where
  "DecodeString s = decode_quanta (filter (\<lambda>c. c \<noteq> CHR 0x0A \<and> c \<noteq> CHR 0x0D) s)"

section \<open>Decoding inverts encoding\<close>

lemma length_alphabet: "length alphabet = 64"
  by (simp add: alphabet_def)

lemma distinct_alphabet: "distinct alphabet"
  by (simp add: alphabet_def)

lemma dec_enc_digit [simp]: "dec_digit (enc_digit v) = Some (v mod 64)"
proof -
  have "v mod 64 < 64" by simp
  then show ?thesis
    using map_of_zip_nth [of alphabet "[0..<64]" "v mod 64"]
    by (simp add: dec_digit_def enc_digit_def length_alphabet distinct_alphabet)
qed

lemma dec_digit_pad [simp]: "dec_digit (CHR ''='') = None"
  by (simp add: dec_digit_def alphabet_def upt_conv_Cons)

lemma enc_digit_printable [simp]: "enc_digit v \<noteq> CHR 0x0A" "enc_digit v \<noteq> CHR 0x0D"
proof -
  have "enc_digit v \<in> set alphabet"
    by (simp add: enc_digit_def length_alphabet)
  moreover have "CHR 0x0A \<notin> set alphabet" "CHR 0x0D \<notin> set alphabet"
    by (simp_all add: alphabet_def)
  ultimately show "enc_digit v \<noteq> CHR 0x0A" "enc_digit v \<noteq> CHR 0x0D"
    by auto
qed

lemma byte_range: "unat (a :: byte) < 256"
  using unsigned_less [of a, where ?'a = nat] by simp

lemma of_nat_byte: "n mod 256 = unat a \<Longrightarrow> (of_nat n :: byte) = a"
proof -
  assume "n mod 256 = unat a"
  then have "unat (of_nat n :: byte) = unat a"
    by (simp add: unat_of_nat)
  then show ?thesis by (simp add: word_unat_eq_iff)
qed

text \<open>Splitting a 24-bit group into four 6-bit digits and putting it together again.\<close>

lemma regroup:
  fixes v :: nat
  assumes "v < 16777216"
  shows "v div 262144 mod 64 * 262144 + v div 4096 mod 64 * 4096 + v div 64 mod 64 * 64 + v mod 64 = v"
proof -
  have d: "v div 4096 = v div 64 div 64" "v div 262144 = v div 4096 div 64"
    by (simp_all flip: div_mult2_eq)
  have "v div 262144 < 64" using assms by (simp add: less_mult_imp_div_less)
  then have "v div 262144 mod 64 = v div 262144" by simp
  moreover have "v div 4096 = v div 262144 * 64 + v div 4096 mod 64"
    unfolding d(2) by (simp only: div_mult_mod_eq)
  moreover have "v div 64 = v div 4096 * 64 + v div 64 mod 64"
    unfolding d(1) by (simp only: div_mult_mod_eq)
  moreover have "v = v div 64 * 64 + v mod 64" by (simp only: div_mult_mod_eq)
  ultimately show ?thesis by linarith
qed

lemma byte1: "(a :: nat) < 256 \<Longrightarrow> b < 256 \<Longrightarrow> c < 256 \<Longrightarrow> (a * 65536 + b * 256 + c) div 65536 = a"
proof -
  assume *: "b < 256" "c < 256"
  then have "b * 256 + c < 65536" by linarith
  then have "(b * 256 + c) div 65536 = 0" by (rule div_less)
  then show ?thesis using div_mult_self3 [of 65536 a "b * 256 + c"] by (simp add: add.assoc)
qed

lemma byte2: "(a :: nat) < 256 \<Longrightarrow> b < 256 \<Longrightarrow> c < 256 \<Longrightarrow> (a * 65536 + b * 256 + c) div 256 mod 256 = b"
proof -
  assume *: "b < 256" "c < 256"
  have "a * 65536 + b * 256 + c = (a * 256 + b) * 256 + c" by simp
  then have "(a * 65536 + b * 256 + c) div 256 = a * 256 + b" 
    using div_mult_self3 [of 256 "a * 256 + b" c] *(2) by simp
  then show ?thesis using *(1) by simp
qed

lemma byte3: "(c :: nat) < 256 \<Longrightarrow> (a * 65536 + b * 256 + c) mod 256 = c"
proof -
  assume "c < 256"
  have "a * 65536 + b * 256 + c = (a * 256 + b) * 256 + c" by simp
  then show ?thesis using \<open>c < 256\<close> by (simp only: mod_mult_self3 mod_less)
qed
lemma decode_encode_quanta: "decode_quanta (EncodeToString bs) = Some bs"
proof (induction bs rule: EncodeToString.induct)
  case 1
  show ?case by simp
next
  case (2 a)
  define v where "v = unat a * 65536"
  have r: "unat a < 256" by (rule byte_range)
  have "v = unat a * 1024 * 64" by (simp add: v_def)
  then have "v mod 64 = 0" "v div 64 mod 64 = 0" by (simp_all only: mod_mult_self2_is_0) (simp add: mod_mult_right_eq)
  moreover have "v < 16777216" using r by (simp add: v_def)
  ultimately have "v div 262144 mod 64 * 262144 + v div 4096 mod 64 * 4096 = v"
    using regroup [of v] by simp
  moreover have "v div 262144 mod 64 = v div 262144"
    using \<open>v < 16777216\<close> by (simp add: less_mult_imp_div_less)
  moreover have "v div 65536 = unat a" by (simp add: v_def)
  ultimately show ?case by (simp add: Let_def of_nat_byte flip: v_def)
next
  case (3 a b)
  define v where "v = unat a * 65536 + unat b * 256"
  have r: "unat a < 256" "unat b < 256" by (rule byte_range)+
  have "v = (unat a * 1024 + unat b * 4) * 64" by (simp add: v_def)
  then have "v mod 64 = 0" by (simp only: mod_mult_self2_is_0)
  moreover have "v < 16777216" using r by (simp add: v_def)
  ultimately have "v div 262144 mod 64 * 262144 + v div 4096 mod 64 * 4096 + v div 64 mod 64 * 64 = v"
    using regroup [of v] by simp
  moreover have "v div 65536 = unat a" "v div 256 mod 256 = unat b"
    using byte1 [of "unat a" "unat b" 0] byte2 [of "unat a" "unat b" 0] r by (simp_all add: v_def)
  ultimately show ?case
    by (simp add: Let_def of_nat_byte flip: v_def)
next
  case (4 a b c rest)
  define v where "v = unat a * 65536 + unat b * 256 + unat c"
  have r: "unat a < 256" "unat b < 256" "unat c < 256" by (rule byte_range)+
  then have "v < 16777216" by (simp add: v_def)
  then have "v div 262144 mod 64 * 262144 + v div 4096 mod 64 * 4096 + v div 64 mod 64 * 64 + v mod 64 = v"
    by (rule regroup)
  moreover have "v div 65536 = unat a" "v div 256 mod 256 = unat b" "v mod 256 = unat c"
    using byte1 byte2 byte3 r by (simp_all add: v_def)
  ultimately show ?case
    using 4 by (simp add: Let_def of_nat_byte flip: v_def)
qed

lemma filter_encode: "filter (\<lambda>c. c \<noteq> CHR 0x0A \<and> c \<noteq> CHR 0x0D) (EncodeToString bs) = EncodeToString bs"
  by (induction bs rule: EncodeToString.induct) (simp_all add: Let_def)

lemma DecodeString_EncodeToString: "DecodeString (EncodeToString bs) = Some bs"
  by (simp add: DecodeString_def filter_encode decode_encode_quanta)

end
