(* ===== verification/Messages.thy ===== *)
theory Messages
  imports Base64
begin

text \<open>
  The wire protocol (\<open>wss/ws_datatypes.go\<close>, and the message constructions of \<open>wss/proxy_client.go\<close>,
  \<open>wss/concurrent_websocket.go\<close>, \<open>wss/hub.go\<close>, \<open>wss/websocket_client.go\<close> and \<open>wss/heart_beat.go\<close>).

  Every WebSocket message is one JSON document. Documents are trees (\<open>json\<close>); the structs are
  marshalled to and unmarshalled from trees with the rules of \<open>encoding/json\<close> the code depends on:
  keys match without regard to ASCII case, unknown keys are ignored, a missing key or a \<open>null\<close>
  leaves the zero value, a value of the wrong kind is an error. The text syntax of JSON and the
  replacement of invalid UTF-8 in strings are not modelled.

  \<open>ksuid\<close> and \<open>wsjson\<close> are third-party packages: \<open>kstr\<close> and \<open>kparse\<close> stand for \<open>KSUID.String\<close> and
  \<open>ksuid.Parse\<close>, \<open>wsjson_Write\<close> for \<open>wsjson.Write\<close>; they are arguments of the definitions.
\<close>

section \<open>JSON trees\<close>

datatype json =
    JNull
  | JBool bool
  | JNum int
  | JStr string
  | JArr "json list"
  | JObj "(string \<times> json) list"

definition lower_char :: "char \<Rightarrow> char" where
  "lower_char c =
     (let n = of_char c :: nat in if 65 \<le> n \<and> n \<le> 90 then char_of (n + 32) else c)"

definition key_is :: "string \<Rightarrow> string \<Rightarrow> bool" where
  "key_is name k \<longleftrightarrow> map lower_char k = map lower_char name"

text \<open>Decoding an object field by field; \<open>set_field\<close> fails on a value of the wrong kind.\<close>

fun dec_fields ::
  "(string \<Rightarrow> json \<Rightarrow> 'r \<Rightarrow> 'r option) \<Rightarrow> (string \<times> json) list \<Rightarrow> 'r \<Rightarrow> 'r option" where
  "dec_fields set_field [] r = Some r"
| "dec_fields set_field ((k, v) # kvs) r = Option.bind (set_field k v r) (dec_fields set_field kvs)"

text \<open>Decoding into a struct variable: \<open>null\<close> leaves it as it is.\<close>

definition dec_struct ::
  "(string \<Rightarrow> json \<Rightarrow> 'r \<Rightarrow> 'r option) \<Rightarrow> json \<Rightarrow> 'r \<Rightarrow> 'r option" where
  "dec_struct set_field j r =
     (case j of JObj kvs \<Rightarrow> dec_fields set_field kvs r | JNull \<Rightarrow> Some r | _ \<Rightarrow> None)"

fun dec_string :: "json \<Rightarrow> string \<Rightarrow> string option" where
  "dec_string (JStr s) old = Some s"
| "dec_string JNull old = Some old"
| "dec_string _ old = None"

fun dec_bool :: "json \<Rightarrow> bool \<Rightarrow> bool option" where
  "dec_bool (JBool b) old = Some b"
| "dec_bool JNull old = Some old"
| "dec_bool _ old = None"

fun dec_int :: "json \<Rightarrow> int \<Rightarrow> int option" where
  "dec_int (JNum n) old = (if - (2 ^ 63) \<le> n \<and> n < 2 ^ 63 then Some n else None)"
| "dec_int JNull old = Some old"
| "dec_int _ old = None"

section \<open>Identifiers\<close>

text \<open>A KSUID travels as its string (\<open>MarshalText\<close>) and is parsed on arrival (\<open>UnmarshalText\<close>).\<close>

fun dec_ksuid :: "(string \<Rightarrow> ksuid option) \<Rightarrow> json \<Rightarrow> ksuid \<Rightarrow> ksuid option" where
  "dec_ksuid kparse (JStr s) old = kparse s"
| "dec_ksuid kparse JNull old = Some old"
| "dec_ksuid kparse _ old = None"

fun dec_ksuids :: "(string \<Rightarrow> ksuid option) \<Rightarrow> json list \<Rightarrow> ksuid list option" where
  "dec_ksuids kparse [] = Some []"
| "dec_ksuids kparse (j # js) =
     Option.bind (dec_ksuid kparse j 0) (\<lambda>i. map_option (\<lambda>is. i # is) (dec_ksuids kparse js))"

text \<open>What the code relies on of package \<open>ksuid\<close>: parsing undoes printing.\<close>

definition ksuid_codec :: "(ksuid \<Rightarrow> string) \<Rightarrow> (string \<Rightarrow> ksuid option) \<Rightarrow> bool" where
  "ksuid_codec kstr kparse \<longleftrightarrow> (\<forall>i. kparse (kstr i) = Some i)"

section \<open>Message types and tags\<close>

definition WsTpVer :: string where "WsTpVer = ''version''"
definition WsTpBeats :: string where "WsTpBeats = ''heart_beat''"
definition WsTpClose :: string where "WsTpClose = ''finish''"
definition WsTpData :: string where "WsTpData = ''data''"
definition WsTpEst :: string where "WsTpEst = ''est''"
definition WsTpHi :: string where "WsTpHi = ''sayhi''"

lemmas WsTp_defs = WsTpVer_def WsTpBeats_def WsTpClose_def WsTpData_def WsTpEst_def WsTpHi_def

definition TagData :: int where "TagData = 0"
definition TagEstOk :: int where "TagEstOk = 1"
definition TagEstErr :: int where "TagEstErr = 2"
definition TagNoMore :: int where "TagNoMore = 3"
definition TagHandshake :: int where "TagHandshake = 4"
definition TagEOF :: int where "TagEOF = 5"

lemmas Tag_defs = TagData_def TagEstOk_def TagEstErr_def TagNoMore_def TagHandshake_def TagEOF_def

section \<open>Structs\<close>

record ProxyData =
  pd_Tag :: int
  pd_DataBase64 :: string

record ProxyEstMessage =
  pe_Addr :: string
  pe_Sorted :: "ksuid list"
  pe_WithData :: bool
  pe_DataBase64 :: string

text \<open>What the code stores in the \<open>interface{}\<close> field \<open>Data\<close>.\<close>
datatype payload =
    PNil
  | PKsuid ksuid
  | PProxyData ProxyData
  | PEst ProxyEstMessage

record WebSocketMessage =
  wm_Id :: string
  wm_Type :: string
  wm_Data :: payload

text \<open>
  A decoded message whose \<open>Data\<close> is still raw: \<open>rm_Data\<close> is the variable \<open>socketData\<close> the field points to
  (\<open>None\<close>: still empty), \<open>rm_Ptr\<close> says that the field still points there. A \<open>null\<close> sets the interface
  field itself to nil and leaves the variable alone.
\<close>
record RawMessage =
  rm_Id :: string
  rm_Type :: string
  rm_Data :: "json option"
  rm_Ptr :: bool

subsection \<open>Marshalling\<close>

definition enc_ProxyData :: "ProxyData \<Rightarrow> json" where
  "enc_ProxyData d = JObj [(''tag'', JNum (pd_Tag d)), (''base64'', JStr (pd_DataBase64 d))]"

definition enc_Sorted :: "(ksuid \<Rightarrow> string) \<Rightarrow> ksuid list \<Rightarrow> json" where
  "enc_Sorted kstr ids = (if ids = [] then JNull else JArr (map (\<lambda>i. JStr (kstr i)) ids))"

definition enc_ProxyEstMessage :: "(ksuid \<Rightarrow> string) \<Rightarrow> ProxyEstMessage \<Rightarrow> json" where
  "enc_ProxyEstMessage kstr m =
     JObj [(''addr'', JStr (pe_Addr m)), (''sorted'', enc_Sorted kstr (pe_Sorted m)),
           (''with_data'', JBool (pe_WithData m)), (''base64'', JStr (pe_DataBase64 m))]"

fun enc_payload :: "(ksuid \<Rightarrow> string) \<Rightarrow> payload \<Rightarrow> json" where
  "enc_payload kstr PNil = JNull"
| "enc_payload kstr (PKsuid i) = JStr (kstr i)"
| "enc_payload kstr (PProxyData d) = enc_ProxyData d"
| "enc_payload kstr (PEst m) = enc_ProxyEstMessage kstr m"

definition enc_message :: "(ksuid \<Rightarrow> string) \<Rightarrow> WebSocketMessage \<Rightarrow> json" where
  "enc_message kstr m =
     JObj [(''id'', JStr (wm_Id m)), (''type'', JStr (wm_Type m)),
           (''data'', enc_payload kstr (wm_Data m))]"

subsection \<open>Unmarshalling\<close>

definition set_RawMessage :: "string \<Rightarrow> json \<Rightarrow> RawMessage \<Rightarrow> RawMessage option" where
  "set_RawMessage k v m =
     (if key_is ''id'' k then map_option (\<lambda>s. m\<lparr>rm_Id := s\<rparr>) (dec_string v (rm_Id m))
      else if key_is ''type'' k then map_option (\<lambda>s. m\<lparr>rm_Type := s\<rparr>) (dec_string v (rm_Type m))
      else if key_is ''data'' k
      then Some (if v = JNull then m\<lparr>rm_Ptr := False\<rparr>
                 else if rm_Ptr m then m\<lparr>rm_Data := Some v\<rparr> else m)
      else Some m)"

definition dec_message :: "json \<Rightarrow> RawMessage option" where
  "dec_message j = dec_struct set_RawMessage j \<lparr>rm_Id = [], rm_Type = [], rm_Data = None, rm_Ptr = True\<rparr>"

definition set_ProxyData :: "string \<Rightarrow> json \<Rightarrow> ProxyData \<Rightarrow> ProxyData option" where
  "set_ProxyData k v d =
     (if key_is ''tag'' k then map_option (\<lambda>n. d\<lparr>pd_Tag := n\<rparr>) (dec_int v (pd_Tag d))
      else if key_is ''base64'' k
      then map_option (\<lambda>s. d\<lparr>pd_DataBase64 := s\<rparr>) (dec_string v (pd_DataBase64 d))
      else Some d)"

text \<open>Unmarshalling an empty raw message fails (unexpected end of input).\<close>

definition dec_ProxyData :: "json option \<Rightarrow> ProxyData option" where
  "dec_ProxyData j =
     Option.bind j (\<lambda>j. dec_struct set_ProxyData j \<lparr>pd_Tag = 0, pd_DataBase64 = []\<rparr>)"

definition set_ProxyEstMessage ::
  "(string \<Rightarrow> ksuid option) \<Rightarrow> string \<Rightarrow> json \<Rightarrow> ProxyEstMessage \<Rightarrow> ProxyEstMessage option" where
  "set_ProxyEstMessage kparse k v m =
     (if key_is ''addr'' k then map_option (\<lambda>s. m\<lparr>pe_Addr := s\<rparr>) (dec_string v (pe_Addr m))
      else if key_is ''sorted'' k
      then (case v of
              JNull \<Rightarrow> Some (m\<lparr>pe_Sorted := []\<rparr>)
            | JArr js \<Rightarrow> map_option (\<lambda>is. m\<lparr>pe_Sorted := is\<rparr>) (dec_ksuids kparse js)
            | _ \<Rightarrow> None)
      else if key_is ''with_data'' k
      then map_option (\<lambda>b. m\<lparr>pe_WithData := b\<rparr>) (dec_bool v (pe_WithData m))
      else if key_is ''base64'' k
      then map_option (\<lambda>s. m\<lparr>pe_DataBase64 := s\<rparr>) (dec_string v (pe_DataBase64 m))
      else Some m)"

definition dec_ProxyEstMessage ::
  "(string \<Rightarrow> ksuid option) \<Rightarrow> json option \<Rightarrow> ProxyEstMessage option" where
  "dec_ProxyEstMessage kparse j =
     Option.bind j (\<lambda>j. dec_struct (set_ProxyEstMessage kparse) j
       \<lparr>pe_Addr = [], pe_Sorted = [], pe_WithData = False, pe_DataBase64 = []\<rparr>)"

definition dec_masterID :: "(string \<Rightarrow> ksuid option) \<Rightarrow> json option \<Rightarrow> ksuid option" where
  "dec_masterID kparse j = Option.bind j (\<lambda>j. dec_ksuid kparse j 0)"

section \<open>The messages the program sends\<close>

definition data_message :: "(ksuid \<Rightarrow> string) \<Rightarrow> ksuid \<Rightarrow> int \<Rightarrow> bytes \<Rightarrow> WebSocketMessage" where
  "data_message kstr cid tag d =
     \<lparr>wm_Id = kstr cid, wm_Type = WsTpData,
      wm_Data = PProxyData \<lparr>pd_Tag = tag, pd_DataBase64 = EncodeToString d\<rparr>\<rparr>"

definition hi_message :: "(ksuid \<Rightarrow> string) \<Rightarrow> ksuid \<Rightarrow> ksuid \<Rightarrow> WebSocketMessage" where
  "hi_message kstr pid masterID = \<lparr>wm_Id = kstr pid, wm_Type = WsTpHi, wm_Data = PKsuid masterID\<rparr>"

text \<open>\<open>firstSendData\<close> is \<open>None\<close> for a nil slice.\<close>

definition est_message ::
  "(ksuid \<Rightarrow> string) \<Rightarrow> ksuid \<Rightarrow> bytes option \<Rightarrow> string \<Rightarrow> ksuid list \<Rightarrow> WebSocketMessage" where
  "est_message kstr pid firstSendData addr srt =
     \<lparr>wm_Id = kstr pid, wm_Type = WsTpEst,
      wm_Data = PEst (case firstSendData of
          None \<Rightarrow> \<lparr>pe_Addr = addr, pe_Sorted = srt, pe_WithData = False, pe_DataBase64 = []\<rparr>
        | Some d \<Rightarrow> \<lparr>pe_Addr = addr, pe_Sorted = srt, pe_WithData = True,
                     pe_DataBase64 = EncodeToString d\<rparr>)\<rparr>"

definition finish_message :: "(ksuid \<Rightarrow> string) \<Rightarrow> ksuid \<Rightarrow> WebSocketMessage" where
  "finish_message kstr cid = \<lparr>wm_Id = kstr cid, wm_Type = WsTpClose, wm_Data = PNil\<rparr>"

definition beat_message :: "(ksuid \<Rightarrow> string) \<Rightarrow> WebSocketMessage" where
  "beat_message kstr = \<lparr>wm_Id = kstr 0, wm_Type = WsTpBeats, wm_Data = PNil\<rparr>"

section \<open>Decoding inverts encoding\<close>

lemma lower_literals [simp]:
  "key_is ''id'' ''id''" "key_is ''type'' ''type''" "key_is ''data'' ''data''"
  "\<not> key_is ''id'' ''type''" "\<not> key_is ''id'' ''data''" "\<not> key_is ''type'' ''data''"
  "key_is ''tag'' ''tag''" "key_is ''base64'' ''base64''" "\<not> key_is ''tag'' ''base64''"
  "key_is ''addr'' ''addr''" "\<not> key_is ''addr'' ''sorted''" "key_is ''sorted'' ''sorted''"
  "\<not> key_is ''addr'' ''with_data''" "\<not> key_is ''sorted'' ''with_data''"
  "key_is ''with_data'' ''with_data''" "\<not> key_is ''addr'' ''base64''"
  "\<not> key_is ''sorted'' ''base64''" "\<not> key_is ''with_data'' ''base64''"
  by (simp_all add: key_is_def lower_char_def)

lemma dec_enc_message:
  "dec_message (enc_message kstr m) =
     Some \<lparr>rm_Id = wm_Id m, rm_Type = wm_Type m,
           rm_Data = (if enc_payload kstr (wm_Data m) = JNull then None
                      else Some (enc_payload kstr (wm_Data m))),
           rm_Ptr = (enc_payload kstr (wm_Data m) \<noteq> JNull)\<rparr>"
  by (simp add: dec_message_def enc_message_def dec_struct_def set_RawMessage_def)

lemma dec_enc_ProxyData:
  "- (2 ^ 63) \<le> pd_Tag d \<Longrightarrow> pd_Tag d < 2 ^ 63 \<Longrightarrow> dec_ProxyData (Some (enc_ProxyData d)) = Some d"
  by (simp add: dec_ProxyData_def enc_ProxyData_def dec_struct_def set_ProxyData_def)

lemma dec_ksuids_map:
  "ksuid_codec kstr kparse \<Longrightarrow> dec_ksuids kparse (map (\<lambda>i. JStr (kstr i)) ids) = Some ids"
  by (induction ids) (auto simp: ksuid_codec_def)

lemma dec_enc_ProxyEstMessage:
  "ksuid_codec kstr kparse \<Longrightarrow>
     dec_ProxyEstMessage kparse (Some (enc_ProxyEstMessage kstr m)) = Some m"
  by (simp add: dec_ProxyEstMessage_def enc_ProxyEstMessage_def dec_struct_def
      set_ProxyEstMessage_def enc_Sorted_def dec_ksuids_map)

lemma dec_masterID_enc:
  "ksuid_codec kstr kparse \<Longrightarrow> dec_masterID kparse (Some (enc_payload kstr (PKsuid i))) = Some i"
  by (simp add: dec_masterID_def ksuid_codec_def)

section \<open>A concrete codec\<close>

text \<open>Identifiers printed in unary: the law of \<open>ksuid_codec\<close> can be met.\<close>

definition kstr0 :: "ksuid \<Rightarrow> string" where
  "kstr0 i = replicate (unat i) CHR ''x''"

definition kparse0 :: "string \<Rightarrow> ksuid option" where
  "kparse0 s = Some (of_nat (length s))"

lemma codec0 [simp]: "ksuid_codec kstr0 kparse0"
  by (simp add: ksuid_codec_def kstr0_def kparse0_def)

end
