(* ===== verification/Ws_Writer.thy ===== *)
theory Ws_Writer
  imports Pipe_Func Messages
begin

text \<open>
  \<open>wss/concurrent_websocket.go\<close>, and the methods that send one control message
  (\<open>ProxyClient.SayID\<close>, \<open>ProxyClient.Establish\<close>, \<open>WebSocketClient.TellClose\<close>, \<open>Hub.tellClosed\<close>).

  \<open>wsjson_Write conn v net\<close> stands for \<open>wsjson.Write\<close> on the connection \<open>conn\<close>: an error or none, and
  the network afterwards. What the code relies on is the locale \<open>ws_network\<close>: without an error the
  document is appended to what was sent on that connection, with one nothing is sent.
\<close>

type_synonym ('c, 'net) wsjson_write = "'c \<Rightarrow> json \<Rightarrow> 'net \<Rightarrow> go_error option \<times> 'net"

section \<open>Sending data messages\<close>

definition WriteProxyMessage ::
  "('c, 'net) wsjson_write \<Rightarrow> (ksuid \<Rightarrow> string) \<Rightarrow> 'c \<Rightarrow> ksuid \<Rightarrow> int \<Rightarrow> bytes \<Rightarrow> 'net \<Rightarrow>
     go_error option \<times> 'net" where
  "WriteProxyMessage wsjson_Write kstr conn cid tag d net =
     wsjson_Write conn (enc_message kstr (data_message kstr cid tag d)) net"

text \<open>
  A writer: connection, proxy identifier and context (\<open>None\<close>: the background context, which is
  never cancelled). \<open>wr_Mu\<close>: it has a mutex. Its methods hold the mutex from start to end, so they are
  single steps either way.
\<close>

record 'c webSocketWriter =
  wr_WSC :: 'c
  wr_Id :: ksuid
  wr_Ctx :: "ref option"
  wr_Type :: int
  wr_Mu :: bool

text \<open>The network and the contexts that were cancelled.\<close>

record 'net ws_world =
  wv_net :: 'net
  wv_cancelled :: "ref list"

definition NewWebSocketWriter :: "'c \<Rightarrow> ksuid \<Rightarrow> ref option \<Rightarrow> 'c webSocketWriter" where
  "NewWebSocketWriter wsc cid ctx = \<lparr>wr_WSC = wsc, wr_Id = cid, wr_Ctx = ctx, wr_Type = 0, wr_Mu = False\<rparr>"

definition NewWebSocketWriterWithMutex :: "'c \<Rightarrow> ksuid \<Rightarrow> ref option \<Rightarrow> 'c webSocketWriter" where
  "NewWebSocketWriterWithMutex wsc cid ctx = \<lparr>wr_WSC = wsc, wr_Id = cid, wr_Ctx = ctx, wr_Type = 0, wr_Mu = True\<rparr>"

definition Ctx_Err :: "'c webSocketWriter \<Rightarrow> 'net ws_world \<Rightarrow> go_error option" where
  "Ctx_Err w s =
     (case wr_Ctx w of
        None \<Rightarrow> None
      | Some c \<Rightarrow> if c \<in> set (wv_cancelled s) then Some (Errorf ''context canceled'') else None)"

definition CloseWsWriter :: "ref \<Rightarrow> 'net ws_world \<Rightarrow> 'net ws_world" where
  "CloseWsWriter ctx s = s\<lparr>wv_cancelled := ctx # wv_cancelled s\<rparr>"

definition wsWriter_Write ::
  "('c, 'net) wsjson_write \<Rightarrow> (ksuid \<Rightarrow> string) \<Rightarrow> 'c webSocketWriter \<Rightarrow> bytes \<Rightarrow> 'net ws_world \<Rightarrow>
     ((nat \<times> go_error option) \<times> 'net ws_world) option" where
  "wsWriter_Write wsjson_Write kstr w d s =
     (if Ctx_Err w s \<noteq> None then Some ((0, Ctx_Err w s), s)
      else case WriteProxyMessage wsjson_Write kstr (wr_WSC w) (wr_Id w) TagData d (wv_net s) of
        (Some err, net) \<Rightarrow> Some ((0, Some err), s\<lparr>wv_net := net\<rparr>)
      | (None, net) \<Rightarrow> Some ((length d, None), s\<lparr>wv_net := net\<rparr>))"

definition wsWriter_WriteEOF ::
  "('c, 'net) wsjson_write \<Rightarrow> (ksuid \<Rightarrow> string) \<Rightarrow> 'c webSocketWriter \<Rightarrow> 'net ws_world \<Rightarrow>
     'net ws_world option" where
  "wsWriter_WriteEOF wsjson_Write kstr w s =
     (if Ctx_Err w s \<noteq> None then Some s
      else Some (s\<lparr>wv_net :=
        snd (WriteProxyMessage wsjson_Write kstr (wr_WSC w) (wr_Id w) TagEOF [] (wv_net s))\<rparr>))"

definition wsWriter_PW ::
  "('c, 'net) wsjson_write \<Rightarrow> (ksuid \<Rightarrow> string) \<Rightarrow> ('c webSocketWriter, 'net ws_world) PipeWriter" where
  "wsWriter_PW wsjson_Write kstr =
     \<lparr>pw_Write = wsWriter_Write wsjson_Write kstr, pw_WriteEOF = wsWriter_WriteEOF wsjson_Write kstr\<rparr>"

section \<open>Sending control messages\<close>

definition SayID ::
  "('c, 'net) wsjson_write \<Rightarrow> (ksuid \<Rightarrow> string) \<Rightarrow> ksuid \<Rightarrow> 'c \<Rightarrow> ksuid \<Rightarrow> 'net \<Rightarrow>
     go_error option \<times> 'net" where
  "SayID wsjson_Write kstr pid wsc masterID net =
     wsjson_Write wsc (enc_message kstr (hi_message kstr pid masterID)) net"

definition Establish ::
  "('c, 'net) wsjson_write \<Rightarrow> (ksuid \<Rightarrow> string) \<Rightarrow> ksuid \<Rightarrow> 'c \<Rightarrow> bytes option \<Rightarrow> string \<Rightarrow>
     ksuid list \<Rightarrow> 'net \<Rightarrow> go_error option \<times> 'net" where
  "Establish wsjson_Write kstr pid wsc firstSendData addr srt net =
     wsjson_Write wsc (enc_message kstr (est_message kstr pid firstSendData addr srt)) net"

definition TellClose ::
  "('c, 'net) wsjson_write \<Rightarrow> (ksuid \<Rightarrow> string) \<Rightarrow> 'c \<Rightarrow> ksuid \<Rightarrow> 'net \<Rightarrow>
     go_error option \<times> 'net" where
  "TellClose wsjson_Write kstr wsc cid net =
     wsjson_Write wsc (enc_message kstr (finish_message kstr cid)) net"

definition tellClosed ::
  "('c, 'net) wsjson_write \<Rightarrow> (ksuid \<Rightarrow> string) \<Rightarrow> 'c \<Rightarrow> ksuid \<Rightarrow> 'net \<Rightarrow>
     go_error option \<times> 'net" where
  "tellClosed wsjson_Write kstr wsc cid net =
     wsjson_Write wsc (enc_message kstr (finish_message kstr cid)) net"

section \<open>The writer honours the PipeWriter contract\<close>

text \<open>The payload a received data message for \<open>cid\<close> carries; other messages carry none.\<close>

definition frame_data :: "string \<Rightarrow> json \<Rightarrow> bytes" where
  "frame_data cid j =
     (case dec_message j of
        None \<Rightarrow> []
      | Some m \<Rightarrow>
          if rm_Id m = cid \<and> rm_Type m = WsTpData
          then (case dec_ProxyData (rm_Data m) of
                  None \<Rightarrow> []
                | Some d \<Rightarrow> (case DecodeString (pd_DataBase64 d) of None \<Rightarrow> [] | Some bs \<Rightarrow> bs))
          else [])"

lemma dec_data_message:
  "dec_message (enc_message kstr (data_message kstr cid tag d)) =
     Some \<lparr>rm_Id = kstr cid, rm_Type = WsTpData,
           rm_Data = Some (enc_ProxyData \<lparr>pd_Tag = tag, pd_DataBase64 = EncodeToString d\<rparr>),
           rm_Ptr = True\<rparr>"
  by (simp add: dec_enc_message data_message_def enc_ProxyData_def)

lemma frame_data_message:
  "- (2 ^ 63) \<le> tag \<Longrightarrow> tag < 2 ^ 63 \<Longrightarrow>
     frame_data (kstr cid) (enc_message kstr (data_message kstr cid tag d)) = d"
  by (simp add: frame_data_def dec_data_message dec_enc_ProxyData DecodeString_EncodeToString)

locale ws_network =
  fixes wsjson_Write :: "('c, 'net) wsjson_write"
    and frames :: "'c \<Rightarrow> 'net \<Rightarrow> json list"
    and kstr :: "ksuid \<Rightarrow> string"
    and w :: "'c webSocketWriter"
  assumes write_ok: "wsjson_Write c v net = (None, net') \<Longrightarrow> frames c net' = frames c net @ [v]"
    and write_err: "wsjson_Write c v net = (Some e, net') \<Longrightarrow> frames c net' = frames c net"
begin

definition sent_data :: "'net ws_world \<Rightarrow> bytes" where
  "sent_data s = concat (map (frame_data (kstr (wr_Id w))) (frames (wr_WSC w) (wv_net s)))"

lemma frame_data_writer:
  "frame_data (kstr i) (enc_message kstr (data_message kstr i TagData d)) = d"
  "frame_data (kstr i) (enc_message kstr (data_message kstr i TagEOF [])) = []"
  by (simp_all add: frame_data_message Tag_defs)

lemma wsWriter_Write_sent:
  assumes "wsWriter_Write wsjson_Write kstr w d s = Some ((n, e), s')"
  shows "n \<le> length d \<and> sent_data s' = sent_data s @ take n d"
proof (cases "Ctx_Err w s")
  case (Some c)
  with assms show ?thesis by (auto simp: wsWriter_Write_def)
next
  case None
  obtain r net where r: "WriteProxyMessage wsjson_Write kstr (wr_WSC w) (wr_Id w) TagData d (wv_net s) = (r, net)"
    by fastforce
  show ?thesis
  proof (cases r)
    case None
    with r have "frames (wr_WSC w) net = frames (wr_WSC w) (wv_net s)
        @ [enc_message kstr (data_message kstr (wr_Id w) TagData d)]"
      by (auto simp: WriteProxyMessage_def dest: write_ok)
    with assms r None \<open>Ctx_Err w s = None\<close> show ?thesis
      by (auto simp: wsWriter_Write_def sent_data_def frame_data_writer)
  next
    case (Some err)
    with r have "frames (wr_WSC w) net = frames (wr_WSC w) (wv_net s)"
      by (auto simp: WriteProxyMessage_def dest: write_err)
    with assms r Some \<open>Ctx_Err w s = None\<close> show ?thesis
      by (auto simp: wsWriter_Write_def sent_data_def)
  qed
qed

lemma wsWriter_WriteEOF_sent:
  assumes "wsWriter_WriteEOF wsjson_Write kstr w s = Some s'"
  shows "sent_data s' = sent_data s"
proof (cases "Ctx_Err w s = None")
  case False
  with assms show ?thesis by (simp add: wsWriter_WriteEOF_def)
next
  case True
  obtain r net where r: "wsjson_Write (wr_WSC w) (enc_message kstr (data_message kstr (wr_Id w) TagEOF [])) (wv_net s) = (r, net)"
    by fastforce
  with assms True have "s' = s\<lparr>wv_net := net\<rparr>"
    by (simp add: wsWriter_WriteEOF_def WriteProxyMessage_def)
  with r show ?thesis
    by (cases r) (auto simp: sent_data_def frame_data_writer dest: write_ok write_err)
qed

end

sublocale ws_network \<subseteq> ws_pw: pipe_writer "wsWriter_PW wsjson_Write kstr" w sent_data
  by unfold_locales
    (auto simp: wsWriter_PW_def dest: wsWriter_Write_sent wsWriter_WriteEOF_sent)

text \<open>
  The network between client and server: each connection delivers documents reliably and in
  order, so it is the list of documents under way.
\<close>

type_synonym 'c lanes = "'c \<Rightarrow> json list"

definition lanes_Write :: "('c, 'c lanes) wsjson_write" where
  "lanes_Write c v net = (None, net(c := net c @ [v]))"

interpretation lanes: ws_network lanes_Write "\<lambda>c net. net c" kstr w
  for kstr :: "ksuid \<Rightarrow> string" and w :: "'c webSocketWriter"
  by unfold_locales (auto simp: lanes_Write_def)

end
