(* ===== verification/Go_Net.thy ===== *)
theory Go_Net
  imports Prelude
begin

text \<open>
  What the code uses of Go's packages \<open>net\<close>, \<open>strconv\<close>, \<open>strings\<close> and \<open>bytes\<close>: decimal and
  hexadecimal numerals, \<open>net.IP\<close> with \<open>ParseIP\<close>, \<open>To4\<close> and \<open>String\<close>, \<open>net.JoinHostPort\<close>,
  \<open>strings.Split\<close>, \<open>strings.Contains\<close> and \<open>bytes.Compare\<close>.
\<close>

section \<open>Numerals\<close>

definition digit_char :: "nat \<Rightarrow> char" where
  "digit_char d = (if d < 10 then char_of (48 + d) else char_of (87 + d))"

fun Itoa :: "nat \<Rightarrow> string" where
  "Itoa n = (if n < 10 then [digit_char n] else Itoa (n div 10) @ [digit_char (n mod 10)])"

declare Itoa.simps [simp del]

fun hex_string :: "nat \<Rightarrow> string" where
  "hex_string n = (if n < 16 then [digit_char n] else hex_string (n div 16) @ [digit_char (n mod 16)])"

declare hex_string.simps [simp del]

definition dec_value :: "char \<Rightarrow> nat option" where
  "dec_value c = (let n = of_char c in if 48 \<le> n \<and> n \<le> 57 then Some (n - 48) else None)"

definition hex_value :: "char \<Rightarrow> nat option" where
  "hex_value c =
     (let n = of_char c in
      if 48 \<le> n \<and> n \<le> 57 then Some (n - 48)
      else if 97 \<le> n \<and> n \<le> 102 then Some (n - 87)
      else if 65 \<le> n \<and> n \<le> 70 then Some (n - 55) else None)"

text \<open>
  The scanning loops \<open>dtoi\<close> and \<open>xtoi\<close>: the number read and how many characters it took, or failure
  (no digit, or a value of \<open>0xFFFFFF\<close> or more).
\<close>

fun scan_number :: "(char \<Rightarrow> nat option) \<Rightarrow> nat \<Rightarrow> nat \<Rightarrow> nat \<Rightarrow> string \<Rightarrow> (nat \<times> nat) option" where
  "scan_number val base n i [] = (if i = 0 then None else Some (n, i))"
| "scan_number val base n i (c # s) =
     (case val c of
        None \<Rightarrow> if i = 0 then None else Some (n, i)
      | Some d \<Rightarrow>
          if 16777215 \<le> n * base + d then None else scan_number val base (n * base + d) (Suc i) s)"

definition dtoi :: "string \<Rightarrow> (nat \<times> nat) option" where
  "dtoi s = scan_number dec_value 10 0 0 s"

definition xtoi :: "string \<Rightarrow> (nat \<times> nat) option" where
  "xtoi s = scan_number hex_value 16 0 0 s"

section \<open>IP addresses\<close>

text \<open>\<open>net.IP\<close> is a byte slice of length 4 or 16; an IPv4 address in 16-byte form has the prefix \<open>::ffff\<close>.\<close>

definition v4InV6Prefix :: bytes where
  "v4InV6Prefix = replicate 10 0 @ [255, 255]"

definition IPv4 :: "byte \<Rightarrow> byte \<Rightarrow> byte \<Rightarrow> byte \<Rightarrow> bytes" where
  "IPv4 a b c d = v4InV6Prefix @ [a, b, c, d]"

definition To4 :: "bytes \<Rightarrow> bytes option" where
  "To4 ip =
     (if length ip = 4 then Some ip
      else if length ip = 16 \<and> take 12 ip = v4InV6Prefix then Some (drop 12 ip) else None)"

text \<open>\<open>parse_octets i s\<close>: the octets from position \<open>i\<close> on, each but the first after a dot.\<close>

fun parse_octets :: "nat \<Rightarrow> nat \<Rightarrow> string \<Rightarrow> bytes option" where
  "parse_octets 0 i s = (if s = [] then Some [] else None)"
| "parse_octets (Suc k) i s =
     (if s = [] then None
      else if 0 < i \<and> hd s \<noteq> CHR ''.'' then None
      else (let s1 = (if 0 < i then tl s else s)
            in case dtoi s1 of
                 None \<Rightarrow> None
               | Some (n, c) \<Rightarrow>
                   if 255 < n then None
                   else map_option (\<lambda>r. of_nat n # r) (parse_octets k (Suc i) (drop c s1))))"

definition parseIPv4 :: "string \<Rightarrow> bytes option" where
  "parseIPv4 s = map_option (\<lambda>p. v4InV6Prefix @ p) (parse_octets 4 0 s)"

text \<open>
  The main loop of \<open>parseIPv6\<close>: \<open>ip\<close> are the bytes read so far, \<open>ellipsis\<close> the position of \<open>::\<close>. The
  result is the bytes, the position and what is left of the string.
\<close>

function parse_groups :: "string \<Rightarrow> bytes \<Rightarrow> nat option \<Rightarrow> (bytes \<times> nat option \<times> string) option" where
  "parse_groups s ip ellipsis =
     (if 16 \<le> length ip then Some (ip, ellipsis, s)
      else case xtoi s of
        None \<Rightarrow> None
      | Some (n, c) \<Rightarrow>
          if 65535 < n then None
          else if c < length s \<and> s ! c = CHR ''.''
          then (if ellipsis = None \<and> length ip \<noteq> 12 then None
                else if 16 < length ip + 4 then None
                else map_option (\<lambda>ip4. (ip @ drop 12 ip4, ellipsis, [])) (parseIPv4 s))
          else (let ip1 = ip @ [of_nat (n div 256), of_nat n]; s1 = drop c s
                in if s1 = [] then Some (ip1, ellipsis, [])
                   else if hd s1 \<noteq> CHR '':'' \<or> length s1 = 1 then None
                   else (let s2 = tl s1
                         in if hd s2 = CHR '':''
                            then (if ellipsis \<noteq> None then None
                                  else if tl s2 = [] then Some (ip1, Some (length ip1), [])
                                  else parse_groups (tl s2) ip1 (Some (length ip1)))
                            else parse_groups s2 ip1 ellipsis)))"
  by pat_completeness auto
termination
  by (relation "measure (\<lambda>(s, ip, e). 16 - length ip)") auto

declare parse_groups.simps [simp del]

definition parseIPv6 :: "string \<Rightarrow> bytes option" where
  "parseIPv6 s =
     (let lead = (take 2 s = ''::'');
          s0 = (if lead then drop 2 s else s)
      in if lead \<and> s0 = [] then Some (replicate 16 0)
         else case parse_groups s0 [] (if lead then Some 0 else None) of
           None \<Rightarrow> None
         | Some (ip, ellipsis, rest) \<Rightarrow>
             if rest \<noteq> [] then None
             else if length ip < 16
             then (case ellipsis of
                     None \<Rightarrow> None
                   | Some e \<Rightarrow> Some (take e ip @ replicate (16 - length ip) 0 @ drop e ip))
             else if ellipsis \<noteq> None then None else Some ip)"

definition ParseIP :: "string \<Rightarrow> bytes option" where
  "ParseIP s =
     (case filter (\<lambda>c. c = CHR ''.'' \<or> c = CHR '':'') s of
        [] \<Rightarrow> None
      | c # _ \<Rightarrow> if c = CHR ''.'' then parseIPv4 s else parseIPv6 s)"

text \<open>Printing: dotted decimal for IPv4, groups with the longest run of zeros shortened otherwise.\<close>

definition dotted :: "bytes \<Rightarrow> string" where
  "dotted p =
     Itoa (unat (p ! 0)) @ ''.'' @ Itoa (unat (p ! 1)) @ ''.'' @ Itoa (unat (p ! 2)) @ ''.''
       @ Itoa (unat (p ! 3))"

fun groups :: "bytes \<Rightarrow> nat list" where
  "groups (a # b # r) = (unat a * 256 + unat b) # groups r"
| "groups _ = []"

definition zero_run :: "nat list \<Rightarrow> nat \<Rightarrow> nat" where
  "zero_run gs i = length (takeWhile (\<lambda>g. g = 0) (drop i gs))"

text \<open>
  The search for the longest run: start and length (in groups) of the best run so far. After a
  better run the scan continues behind the group that ended it.
\<close>

function longest_run :: "nat list \<Rightarrow> nat \<Rightarrow> nat \<times> nat \<Rightarrow> nat \<times> nat" where
  "longest_run gs i best =
     (if length gs \<le> i then best
      else if snd best < zero_run gs i
      then longest_run gs (i + zero_run gs i + 1) (i, zero_run gs i)
      else longest_run gs (i + 1) best)"
  by pat_completeness auto
termination
  by (relation "measure (\<lambda>(gs, i, best). length gs - i)") auto

declare longest_run.simps [simp del]

fun join_colon :: "string list \<Rightarrow> string" where
  "join_colon [] = []"
| "join_colon [s] = s"
| "join_colon (s # ss) = s @ '':'' @ join_colon ss"

definition groups_string :: "nat list \<Rightarrow> string" where
  "groups_string gs =
     (let (e, n) = longest_run gs 0 (0, 0)
      in if n \<le> 1 then join_colon (map hex_string gs)
         else join_colon (map hex_string (take e gs)) @ ''::''
                @ join_colon (map hex_string (drop (e + n) gs)))"

definition IP_String :: "bytes \<Rightarrow> string" where
  "IP_String ip =
     (if ip = [] then ''<nil>''
      else case To4 ip of
        Some p4 \<Rightarrow> dotted p4
      | None \<Rightarrow>
          if length ip \<noteq> 16 then ''?'' @ concat (map (\<lambda>b. [digit_char (unat b div 16), digit_char (unat b mod 16)]) ip)
          else groups_string (groups ip))"

section \<open>Strings\<close>

definition JoinHostPort :: "string \<Rightarrow> string \<Rightarrow> string" where
  "JoinHostPort host port =
     (if CHR '':'' \<in> set host \<or> CHR 0x25 \<in> set host then ''['' @ host @ '']:'' @ port
      else host @ '':'' @ port)"

text \<open>\<open>strings.Split(s, sep)\<close> for a one-character separator.\<close>

fun Split :: "char \<Rightarrow> string \<Rightarrow> string list" where
  "Split sep [] = [[]]"
| "Split sep (c # s) =
     (if c = sep then [] # Split sep s
      else (case Split sep s of [] \<Rightarrow> [[c]] | w # ws \<Rightarrow> (c # w) # ws))"

fun HasPrefix :: "string \<Rightarrow> string \<Rightarrow> bool" where
  "HasPrefix s [] = True"
| "HasPrefix [] (p # ps) = False"
| "HasPrefix (c # s) (p # ps) = (c = p \<and> HasPrefix s ps)"

fun Contains :: "string \<Rightarrow> string \<Rightarrow> bool" where
  "Contains [] sub = (sub = [])"
| "Contains (c # s) sub = (HasPrefix (c # s) sub \<or> Contains s sub)"

section \<open>bytes.Compare\<close>

fun bytes_Compare :: "bytes \<Rightarrow> bytes \<Rightarrow> int" where
  "bytes_Compare [] [] = 0"
| "bytes_Compare [] (y # ys) = -1"
| "bytes_Compare (x # xs) [] = 1"
| "bytes_Compare (x # xs) (y # ys) =
     (if x < y then -1 else if y < x then 1 else bytes_Compare xs ys)"

section \<open>Facts\<close>

lemma HasPrefix_iff: "HasPrefix s p \<longleftrightarrow> (\<exists>b. s = p @ b)"
  by (induction s p rule: HasPrefix.induct) auto

lemma Contains_iff: "Contains s sub \<longleftrightarrow> (\<exists>a b. s = a @ sub @ b)"
proof (induction s)
  case (Cons c s)
  have "(\<exists>a b. c # s = a @ sub @ b) \<longleftrightarrow> (\<exists>b. c # s = sub @ b) \<or> (\<exists>a b. s = a @ sub @ b)"
    by (metis append_Cons append_Nil list.exhaust list.inject)
  moreover have "HasPrefix (c # s) sub \<longleftrightarrow> (\<exists>b. c # s = sub @ b)"
    by (rule HasPrefix_iff)
  ultimately show ?case using Cons.IH by simp
qed simp

lemma Split_not_Nil [simp]: "Split sep s \<noteq> []"
  by (induction s) (auto split: list.splits)

lemma hd_Split: "hd (Split sep s) = takeWhile (\<lambda>c. c \<noteq> sep) s"
proof (induction s)
  case Nil
  show ?case by simp
next
  case (Cons c s)
  then show ?case
    using Split_not_Nil [of sep s] by (auto split: list.splits)
qed

lemma digit_code: "d < 10 \<Longrightarrow> of_char (digit_char d) = (48 + d :: nat)"
  by (simp add: digit_char_def of_char_of)

lemma dec_value_digit [simp]: "d < 10 \<Longrightarrow> dec_value (digit_char d) = Some d"
  by (simp add: dec_value_def digit_code)

lemma Itoa_1: "n < 10 \<Longrightarrow> Itoa n = [digit_char n]"
  by (subst Itoa.simps) simp

lemma Itoa_2: "10 \<le> n \<Longrightarrow> n < 100 \<Longrightarrow> Itoa n = [digit_char (n div 10), digit_char (n mod 10)]"
  by (subst Itoa.simps) (simp add: Itoa_1 less_mult_imp_div_less)

lemma Itoa_3:
  assumes "100 \<le> n" and "n < 1000"
  shows "Itoa n = [digit_char (n div 100), digit_char (n div 10 mod 10), digit_char (n mod 10)]"
proof -
  have "10 \<le> n div 10" "n div 10 < 100" using assms by linarith+
  then have "Itoa (n div 10) = [digit_char (n div 100), digit_char (n div 10 mod 10)]"
    by (simp add: Itoa_2 flip: div_mult2_eq)
  then show ?thesis using assms by (subst Itoa.simps) simp
qed

lemmas Itoa_small = Itoa_1 Itoa_2 Itoa_3

text \<open>Scanning a printed octet reads it back and stops where it ends.\<close>

lemma dtoi_Itoa:
  assumes "n < 256" and "s = [] \<or> dec_value (hd s) = None"
  shows "dtoi (Itoa n @ s) = Some (n, length (Itoa n))"
proof -
  have stop: "scan_number dec_value 10 m (Suc i) s = Some (m, Suc i)" for m i
    using assms(2) by (cases s) auto
  consider "n < 10" | "10 \<le> n" "n < 100" | "100 \<le> n" by linarith
  then show ?thesis
  proof cases
    case 1
    then show ?thesis by (simp add: dtoi_def Itoa_small stop)
  next
    case 2
    then have "n div 10 < 10" by linarith
    moreover have "n div 10 * 10 + n mod 10 = n" by simp
    ultimately show ?thesis using 2 by (simp add: dtoi_def Itoa_small stop)
  next
    case 3
    then have "n div 100 < 10" and "n < 1000" using assms(1) by linarith+
    moreover have "n div 100 = n div 10 div 10" by (simp flip: div_mult2_eq)
    then have q: "n div 100 * 10 + n div 10 mod 10 = n div 10" by (simp only: div_mult_mod_eq)
    then have "(n div 100 * 10 + n div 10 mod 10) * 10 + n mod 10 = n" by simp
    moreover have "n div 100 * 10 + n div 10 mod 10 < 16777215" using assms(1) q by simp
    ultimately show ?thesis using 3 assms(1) by (simp add: dtoi_def Itoa_small stop)
  qed
qed

lemma Itoa_not_Nil [simp]: "Itoa n \<noteq> []"
  by (subst Itoa.simps) simp

lemma dot_no_digit [simp]: "dec_value (CHR ''.'') = None"
  by (simp add: dec_value_def)

lemma unat_byte_less [simp]: "unat (a :: byte) < 256"
  using unsigned_less [of a, where ?'a = nat] by simp

text \<open>One octet of the dotted form, at its position.\<close>

lemma parse_octets_step:
  assumes "s = [] \<or> hd s = CHR ''.''" and "parse_octets k (Suc i) s = Some r"
  shows "parse_octets (Suc k) i ((if i = 0 then [] else ''.'') @ Itoa (unat a) @ s) = Some (a # r)"
proof -
  have "dtoi (Itoa (unat a) @ s) = Some (unat a, length (Itoa (unat a)))"
    using assms(1) by (intro dtoi_Itoa) auto
  moreover have "unat a \<le> 255" using unat_byte_less [of a] by linarith
  ultimately show ?thesis using assms(2) by (cases "i = 0") (simp_all add: Let_def)
qed

lemma parse_octets_dotted: "parse_octets 4 0 (dotted [a, b, c, d]) = Some [a, b, c, d]"
proof -
  have "parse_octets (Suc 0) 3 (CHR ''.'' # Itoa (unat d)) = Some [d]"
    using parse_octets_step [of "[]" 0 3 "[]" d] by simp
  then have "parse_octets (Suc (Suc 0)) 2 (CHR ''.'' # Itoa (unat c) @ CHR ''.'' # Itoa (unat d)) = Some [c, d]"
    using parse_octets_step [of "CHR ''.'' # Itoa (unat d)" "Suc 0" 2 "[d]" c] by simp
  then have "parse_octets (Suc (Suc (Suc 0))) 1
      (CHR ''.'' # Itoa (unat b) @ CHR ''.'' # Itoa (unat c) @ CHR ''.'' # Itoa (unat d)) = Some [b, c, d]"
    using parse_octets_step [of "CHR ''.'' # Itoa (unat c) @ CHR ''.'' # Itoa (unat d)" "Suc (Suc 0)" 1 "[c, d]" b]
    by (simp add: numeral_2_eq_2)
  then have "parse_octets (Suc (Suc (Suc (Suc 0)))) 0 (dotted [a, b, c, d]) = Some [a, b, c, d]"
    using parse_octets_step [of "CHR ''.'' # Itoa (unat b) @ CHR ''.'' # Itoa (unat c) @ CHR ''.'' # Itoa (unat d)"
        "Suc (Suc (Suc 0))" 0 "[b, c, d]" a]
    by (simp add: dotted_def)
  then show ?thesis by (simp only: numeral_eq_Suc pred_numeral_simps BitM.simps)
qed

end
