(* ===== verification/Privite.thy ===== *)
theory Privite
  imports Go_Net
begin

text \<open>
  \<open>wss/privite.go\<close>: the check that keeps the server from dialling private addresses and makes the
  client visit them directly. Name resolution (\<open>net.LookupIP\<close>, an answer of the resolver) is the
  parameter \<open>LookupIP\<close>: the addresses it returns for a host, none when it fails.
\<close>

record ipBlock =
  ip1 :: bytes
  ip2 :: bytes

text \<open>\<open>net.ParseIP\<close> gives nil, an empty slice, for a string that is no address.\<close>

definition parse_or_nil :: "string \<Rightarrow> bytes" where
  "parse_or_nil s = (case ParseIP s of None \<Rightarrow> [] | Some ip \<Rightarrow> ip)"

definition priviteIps :: "ipBlock list" where
  "priviteIps =
     [\<lparr>ip1 = parse_or_nil ''10.0.0.0'', ip2 = parse_or_nil ''10.255.255.255''\<rparr>,
      \<lparr>ip1 = parse_or_nil ''172.16.0.0'', ip2 = parse_or_nil ''172.31.255.255''\<rparr>,
      \<lparr>ip1 = parse_or_nil ''192.168.0.0'', ip2 = parse_or_nil ''192.168.255.255''\<rparr>]"

definition checkIpPrivite :: "string \<Rightarrow> bool" where
  "checkIpPrivite ip =
     (if ip = ''127.0.0.1'' then True
      else (let trial = parse_or_nil ip
            in if To4 trial = None then False
               else list_ex (\<lambda>p. 0 \<le> bytes_Compare trial (ip1 p) \<and> bytes_Compare trial (ip2 p) \<le> 0)
                      priviteIps))"

definition checkAddrPrivite :: "(string \<Rightarrow> bytes list) \<Rightarrow> string \<Rightarrow> bool" where
  "checkAddrPrivite LookupIP addr =
     (let addrs = Split (CHR '':'') addr
      in list_ex (\<lambda>ip. checkIpPrivite (IP_String ip)) (LookupIP (hd addrs)))"

section \<open>Printing and parsing IPv4 addresses\<close>

lemma set_Itoa: "c \<in> set (Itoa n) \<Longrightarrow> \<exists>d<10. c = digit_char d"
proof (induction n rule: Itoa.induct)
  case (1 n)
  show ?case
  proof (cases "n < 10")
    case True
    with "1.prems" show ?thesis by (subst (asm) Itoa.simps) auto
  next
    case False
    then have "c \<in> set (Itoa (n div 10)) \<or> c = digit_char (n mod 10)"
      using "1.prems" by (subst (asm) Itoa.simps) auto
    then show ?thesis
    proof
      assume "c \<in> set (Itoa (n div 10))"
      then show ?thesis using "1.IH" False by blast
    next
      assume "c = digit_char (n mod 10)"
      then show ?thesis by (intro exI [of _ "n mod 10"]) simp
    qed
  qed
qed

lemma Itoa_no_separator: "CHR ''.'' \<notin> set (Itoa n)" "CHR '':'' \<notin> set (Itoa n)"
proof -
  have "digit_char d \<noteq> CHR ''.''" "digit_char d \<noteq> CHR '':''" if "d < 10" for d
    using digit_code [OF that] that by auto
  then show "CHR ''.'' \<notin> set (Itoa n)" "CHR '':'' \<notin> set (Itoa n)"
    by (metis set_Itoa)+
qed

lemma filter_separators_Itoa: "filter (\<lambda>c. c = CHR ''.'' \<or> c = CHR '':'') (Itoa n) = []"
  using Itoa_no_separator [of n] by (auto simp: filter_empty_conv)

lemma ParseIP_dotted: "ParseIP (dotted [a, b, c, d]) = Some (IPv4 a b c d)"
proof -
  have "ParseIP (dotted [a, b, c, d]) = parseIPv4 (dotted [a, b, c, d])"
    by (simp add: ParseIP_def dotted_def filter_separators_Itoa)
  then show ?thesis
    by (simp add: parseIPv4_def parse_octets_dotted IPv4_def)
qed

lemma dotted_inject: "dotted [a, b, c, d] = dotted [a', b', c', d'] \<longleftrightarrow> [a, b, c, d] = [a', b', c', d']"
  using parse_octets_dotted by (metis option.inject)

lemma To4_IPv4: "To4 (IPv4 a b c d) = Some [a, b, c, d]"
  by (simp add: To4_def IPv4_def v4InV6Prefix_def)

lemma IP_String_IPv4:
  "IP_String (IPv4 a b c d) = dotted [a, b, c, d]" "IP_String [a, b, c, d] = dotted [a, b, c, d]"
proof -
  show "IP_String (IPv4 a b c d) = dotted [a, b, c, d]"
    using To4_IPv4 [of a b c d] by (simp add: IP_String_def IPv4_def)
  show "IP_String [a, b, c, d] = dotted [a, b, c, d]"
    by (simp add: IP_String_def To4_def)
qed

lemma loopback_dotted: "''127.0.0.1'' = dotted [127, 0, 0, 1]"
  by code_simp

lemma parse_literals:
  "parse_or_nil ''10.0.0.0'' = IPv4 10 0 0 0" "parse_or_nil ''10.255.255.255'' = IPv4 10 255 255 255"
  "parse_or_nil ''172.16.0.0'' = IPv4 172 16 0 0" "parse_or_nil ''172.31.255.255'' = IPv4 172 31 255 255"
  "parse_or_nil ''192.168.0.0'' = IPv4 192 168 0 0"
  "parse_or_nil ''192.168.255.255'' = IPv4 192 168 255 255"
proof -
  have p: "parse_or_nil (dotted [a, b, c, d]) = IPv4 a b c d" for a b c d
    by (simp add: parse_or_nil_def ParseIP_dotted)
  have "''10.0.0.0'' = dotted [10, 0, 0, 0]" "''10.255.255.255'' = dotted [10, 255, 255, 255]"
    "''172.16.0.0'' = dotted [172, 16, 0, 0]" "''172.31.255.255'' = dotted [172, 31, 255, 255]"
    "''192.168.0.0'' = dotted [192, 168, 0, 0]" "''192.168.255.255'' = dotted [192, 168, 255, 255]"
    by code_simp+
  then show "parse_or_nil ''10.0.0.0'' = IPv4 10 0 0 0" "parse_or_nil ''10.255.255.255'' = IPv4 10 255 255 255"
    "parse_or_nil ''172.16.0.0'' = IPv4 172 16 0 0" "parse_or_nil ''172.31.255.255'' = IPv4 172 31 255 255"
    "parse_or_nil ''192.168.0.0'' = IPv4 192 168 0 0"
    "parse_or_nil ''192.168.255.255'' = IPv4 192 168 255 255"
    by (simp_all only: p)
qed

lemma bytes_Compare_prefix: "bytes_Compare (p @ xs) (p @ ys) = bytes_Compare xs ys"
  by (induction p) auto

lemma byte_max [simp]: "\<not> (255 :: byte) < x"
proof -
  have "unat x < 256" by (rule unat_byte_less)
  then have "\<not> 255 < unat x" by linarith
  then show ?thesis by (simp add: word_less_nat_alt)
qed

lemma Compare_low: "0 \<le> bytes_Compare (x # xs) (y # replicate (length xs) 0) \<longleftrightarrow> y \<le> x"
proof -
  have z: "0 \<le> bytes_Compare xs (replicate (length xs) 0)" for xs :: bytes
    by (induction xs) auto
  then show ?thesis by (auto simp: not_less)
qed

lemma Compare_high: "bytes_Compare (x # xs) (y # replicate (length xs) 255) \<le> 0 \<longleftrightarrow> x \<le> y"
proof -
  have z: "bytes_Compare xs (replicate (length xs) 255) \<le> 0" for xs :: bytes
    by (induction xs) auto
  then show ?thesis by (auto simp: not_less)
qed

lemma byte_le_max: "(x :: byte) \<le> 255"
  using byte_max [of x] by (simp only: not_less)

lemma in_block2:
  "0 \<le> bytes_Compare [a, b, c, d] [p, lo, 0, 0] \<and> bytes_Compare [a, b, c, d] [p, hi, 255, 255] \<le> 0
     \<longleftrightarrow> a = p \<and> lo \<le> b \<and> b \<le> hi"
  using Compare_low [of b "[c, d]" lo] Compare_high [of b "[c, d]" hi] by (auto simp: numeral_eq_Suc)

text \<open>The check decides exactly the loopback address and the three private ranges.\<close>

lemma checkIpPrivite_dotted:
  "checkIpPrivite (dotted [a, b, c, d]) \<longleftrightarrow>
     [a, b, c, d] = [127, 0, 0, 1] \<or> a = 10 \<or> a = 172 \<and> 16 \<le> b \<and> b \<le> 31 \<or> a = 192 \<and> b = 168"
proof -
  have "parse_or_nil (dotted [a, b, c, d]) = IPv4 a b c d"
    by (simp add: parse_or_nil_def ParseIP_dotted)
  then have "checkIpPrivite (dotted [a, b, c, d]) \<longleftrightarrow> dotted [a, b, c, d] = ''127.0.0.1'' \<or>
      list_ex (\<lambda>p. 0 \<le> bytes_Compare (IPv4 a b c d) (ip1 p) \<and> bytes_Compare (IPv4 a b c d) (ip2 p) \<le> 0)
        priviteIps"
    by (simp add: checkIpPrivite_def To4_IPv4 Let_def)
  also have "\<dots> \<longleftrightarrow> [a, b, c, d] = [127, 0, 0, 1] \<or> a = 10 \<or> a = 172 \<and> 16 \<le> b \<and> b \<le> 31
      \<or> a = 192 \<and> 168 \<le> b \<and> b \<le> 168"
    unfolding loopback_dotted dotted_inject priviteIps_def parse_literals IPv4_def
    by (simp only: list_ex_Nil_iff list_ex_Cons_iff ipBlock.simps bytes_Compare_prefix in_block2 byte_le_max word_zero_le simp_thms)
  finally show ?thesis by auto
qed

section \<open>What the address check decides\<close>

text \<open>The addresses the comment of \<open>privite.go\<close> lists, and the loopback address.\<close>

definition private_ipv4 :: "bytes \<Rightarrow> bool" where
  "private_ipv4 p \<longleftrightarrow> p = [127, 0, 0, 1] \<or> p ! 0 = 10 \<or> p ! 0 = 172 \<and> 16 \<le> p ! 1 \<and> p ! 1 \<le> 31
     \<or> p ! 0 = 192 \<and> p ! 1 = 168"

lemma length_To4: "To4 ip = Some p \<Longrightarrow> length p = 4"
  by (auto simp: To4_def split: if_splits)

lemma checkIpPrivite_To4:
  assumes "To4 ip = Some p"
  shows "checkIpPrivite (IP_String ip) \<longleftrightarrow> private_ipv4 p"
proof -
  obtain a b c d where p: "p = [a, b, c, d]"
    using length_To4 [OF assms] by (auto simp: numeral_eq_Suc length_Suc_conv)
  have "ip \<noteq> []" using assms by (auto simp: To4_def)
  with assms have "IP_String ip = dotted [a, b, c, d]" by (simp add: IP_String_def p)
  then show ?thesis by (simp add: checkIpPrivite_dotted private_ipv4_def p)
qed

text \<open>
  C25. For a target \<open>host:port\<close> whose host resolves to IPv4 addresses, the check says private exactly when
  one of these addresses is the loopback address or lies in one of the three private ranges.
\<close>

theorem checkAddrPrivite_exact:
  assumes "CHR '':'' \<notin> set host" and "\<forall>ip \<in> set (LookupIP host). To4 ip \<noteq> None"
  shows "checkAddrPrivite LookupIP (host @ '':'' @ port) \<longleftrightarrow>
    (\<exists>ip \<in> set (LookupIP host). \<exists>p. To4 ip = Some p \<and> private_ipv4 p)"
proof -
  have "hd (Split CHR '':'' (host @ '':'' @ port)) = host"
    using assms(1) by (simp add: hd_Split takeWhile_append takeWhile_eq_all_conv)
  moreover have "checkIpPrivite (IP_String ip) \<longleftrightarrow> (\<exists>p. To4 ip = Some p \<and> private_ipv4 p)"
    if "ip \<in> set (LookupIP host)" for ip
    using that assms(2) checkIpPrivite_To4 by fastforce
  ultimately show ?thesis by (simp add: checkAddrPrivite_def list_ex_iff)
qed

theorem checkAddrPrivite_exact_witness:
  "checkAddrPrivite (\<lambda>_. [[8, 8, 8, 8], [172, 20, 0, 1]]) (''a'' @ '':'' @ ''80'')"
  using checkAddrPrivite_exact [of "''a''" "\<lambda>_. [[8, 8, 8, 8], [172, 20, 0, 1]]" "''80''"]
  by (simp add: To4_def private_ipv4_def)

text \<open>
  C37. An IPv6 literal as target is never classified as private: the address is cut at its first colon,
  inside the brackets, and the lookup of the rest finds nothing. The loopback address \<open>::1\<close> of the
  server can so be reached.
\<close>

theorem ipv6_literal_bypasses_check:
  assumes "CHR '':'' \<in> set host" and "\<forall>name. LookupIP (CHR ''['' # name) = []"
  shows "\<not> checkAddrPrivite LookupIP (JoinHostPort host port)"
  using assms by (simp add: checkAddrPrivite_def JoinHostPort_def hd_Split del: Split.simps)

theorem ipv6_literal_bypasses_check_witness:
  "\<not> checkAddrPrivite (\<lambda>name. if name \<noteq> [] \<and> hd name = CHR ''['' then [] else [[127, 0, 0, 1]])
     (JoinHostPort ''::1'' ''80'')"
  by (rule ipv6_literal_bypasses_check) simp_all

end
