(* ===== verification/Server.thy ===== *)
theory Server
  imports Queue Link Ws_Writer Privite
begin

text \<open>
  The server side: \<open>wss/hub.go\<close>, \<open>wss/hub_collection.go\<close> and \<open>wss/proxy_server.go\<close>. A \<open>Hub\<close> is one
  WebSocket connection and its pool of established proxies; the queue hub and the link hub are
  global to the process (\<open>serverQueueHub\<close>, \<open>serverLinkHub\<close>). \<open>dispatchDataMessage\<close> is the handler of
  one incoming message; \<open>establish\<close> is a goroutine of its own and is given step by step, because the
  other handlers run between its steps.

  Goroutines a handler starts are recorded in \<open>sv_go\<close>. Dialling the target is the parameter \<open>Dial\<close>
  (an error, or the connection it opened), name resolution \<open>LookupIP\<close>.
\<close>

section \<open>State\<close>

text \<open>
  \<open>sv_est_closed\<close>: the \<open>DefaultProxyEst\<close> objects, by reference, whose \<open>status\<close> is \<open>closed\<close>.
\<close>

record 'c server =
  sv_queues :: "'c webSocketWriter QueueHub"
  sv_links :: LinkHub
  sv_est_closed :: "ref \<Rightarrow> bool"
  sv_go :: "go_stmt list"

definition new_server :: "'c server" where
  "new_server =
     \<lparr>sv_queues = NewQueueHub, sv_links = NewLinkHub, sv_est_closed = (\<lambda>_. False), sv_go = []\<rparr>"

definition spawn :: "(ref \<Rightarrow> go_stmt) \<Rightarrow> ref option \<Rightarrow> 'c server \<Rightarrow> 'c server" where
  "spawn g r sv = (case r of None \<Rightarrow> sv | Some x \<Rightarrow> sv\<lparr>sv_go := sv_go sv @ [g x]\<rparr>)"

definition StaticServer :: "'c server \<Rightarrow> nat \<times> nat" where
  "StaticServer sv = (QueueHub_Len (sv_queues sv), LinkHub_Len (sv_links sv))"

record 'c Hub =
  hub_id :: ksuid
  hub_ws :: 'c
  hub_connPool :: "(ksuid, ref) gomap"

section \<open>DefaultProxyEst.Close\<close>

definition DefaultProxyEst_Close :: "ref \<Rightarrow> ksuid \<Rightarrow> 'c server \<Rightarrow> 'c server outcome" where
  "DefaultProxyEst_Close e cid sv =
     (if sv_est_closed sv e then Returns sv
      else bind_outcome (or_panic (LinkHub_RemoveAll cid (sv_links sv))) (\<lambda>lh.
           bind_outcome (or_panic (QueueHub_Remove cid (sv_queues sv))) (\<lambda>qh.
             Returns (sv\<lparr>sv_est_closed := (sv_est_closed sv)(e := True),
                         sv_links := lh, sv_queues := qh\<rparr>))))"

section \<open>Hub\<close>

definition Hub_addNewProxy :: "ksuid \<Rightarrow> ref \<Rightarrow> 'c Hub \<Rightarrow> 'c Hub" where
  "Hub_addNewProxy cid e h = h\<lparr>hub_connPool := gm_put cid e (hub_connPool h)\<rparr>"

definition Hub_GetProxyById :: "ksuid \<Rightarrow> 'c Hub \<Rightarrow> ref option" where
  "Hub_GetProxyById cid h = gm_get (hub_connPool h) cid"

definition Hub_GetConnectorSize :: "'c Hub \<Rightarrow> nat" where
  "Hub_GetConnectorSize h = gm_len (hub_connPool h)"

definition Hub_CloseProxyConn :: "ksuid \<Rightarrow> 'c Hub \<Rightarrow> 'c server \<Rightarrow> 'c server outcome" where
  "Hub_CloseProxyConn cid h sv =
     (case Hub_GetProxyById cid h of
        None \<Rightarrow> Returns sv
      | Some e \<Rightarrow> DefaultProxyEst_Close e cid sv)"

definition Hub_RemoveProxy :: "ksuid \<Rightarrow> 'c Hub \<Rightarrow> 'c Hub" where
  "Hub_RemoveProxy cid h =
     (if gm_get (hub_connPool h) cid \<noteq> None then h\<lparr>hub_connPool := gm_del cid (hub_connPool h)\<rparr>
      else h)"

text \<open>\<open>order\<close>: the order in which this run ranges over the pool.\<close>

fun Hub_Close_loop :: "ksuid list \<Rightarrow> 'c Hub \<Rightarrow> 'c server \<Rightarrow> ('c Hub \<times> 'c server) outcome" where
  "Hub_Close_loop [] h sv = Returns (h, sv)"
| "Hub_Close_loop (cid # order) h sv =
     (case gm_get (hub_connPool h) cid of
        None \<Rightarrow> Hub_Close_loop order h sv
      | Some e \<Rightarrow>
          bind_outcome (DefaultProxyEst_Close e cid sv)
            (Hub_Close_loop order (h\<lparr>hub_connPool := gm_del cid (hub_connPool h)\<rparr>)))"

definition Hub_Close :: "ksuid list \<Rightarrow> 'c Hub \<Rightarrow> 'c server \<Rightarrow> ('c Hub \<times> 'c server) outcome" where
  "Hub_Close order h sv = Hub_Close_loop order h sv"

section \<open>HubCollection\<close>

type_synonym 'c HubCollection = "(ksuid, 'c Hub) gomap"

definition NewHubCollection :: "'c HubCollection" where
  "NewHubCollection = []"

text \<open>\<open>hid\<close> is the identifier \<open>ksuid.New()\<close> drew.\<close>

definition HubCollection_NewHub :: "ksuid \<Rightarrow> 'c \<Rightarrow> 'c HubCollection \<Rightarrow> 'c Hub \<times> 'c HubCollection" where
  "HubCollection_NewHub hid conn hc =
     (let hub = \<lparr>hub_id = hid, hub_ws = conn, hub_connPool = []\<rparr> in (hub, gm_put hid hub hc))"

definition HubCollection_GetConnCount :: "'c HubCollection \<Rightarrow> nat \<times> nat" where
  "HubCollection_GetConnCount hc =
     (gm_len hc, foldl (\<lambda>n p. n + Hub_GetConnectorSize (snd p)) 0 hc)"

definition HubCollection_RemoveProxy :: "ksuid \<Rightarrow> 'c HubCollection \<Rightarrow> 'c HubCollection" where
  "HubCollection_RemoveProxy hid hc = (if gm_get hc hid \<noteq> None then gm_del hid hc else hc)"

section \<open>The message handler\<close>

definition dispatchData ::
  "bool \<Rightarrow> ksuid \<Rightarrow> json option \<Rightarrow> 'c server \<Rightarrow> (go_error option \<times> 'c server) outcome" where
  "dispatchData timer cid socketData sv =
     (case dec_ProxyData socketData of
        None \<Rightarrow> Returns (Some (Errorf ''json''), sv)
      | Some requestMsg \<Rightarrow>
          if LinkHub_Get cid (sv_links sv) = None then Returns (None, sv)
          else if pd_Tag requestMsg = TagEOF
          then bind_outcome (or_block (deliver timer cid eof_buffer (sv_links sv)))
                 (\<lambda>lh. Returns (None, sv\<lparr>sv_links := lh\<rparr>))
          else (case DecodeString (pd_DataBase64 requestMsg) of
                  None \<Rightarrow> Returns (Some (Errorf ''illegal base64 data''), sv)
                | Some d \<Rightarrow>
                    bind_outcome (or_block (deliver timer cid (data_buffer d) (sv_links sv)))
                      (\<lambda>lh. Returns (None, sv\<lparr>sv_links := lh\<rparr>))))"

definition dispatchHi ::
  "(string \<Rightarrow> ksuid option) \<Rightarrow> instant \<Rightarrow> 'c Hub \<Rightarrow> ksuid \<Rightarrow> json option \<Rightarrow> 'c server \<Rightarrow>
     (go_error option \<times> 'c server) outcome" where
  "dispatchHi kparse now hub cid socketData sv =
     (case dec_masterID kparse socketData of
        None \<Rightarrow> Returns (Some (Errorf ''json''), sv)
      | Some masterID \<Rightarrow>
          (let writer = NewWebSocketWriter (hub_ws hub) cid None;
               (qh, qgo) = QueueHub_Add now masterID cid writer (sv_queues sv);
               sv1 = spawn GoQueueSend qgo (sv\<lparr>sv_queues := qh\<rparr>);
               (lh, lgo) = LinkHub_Add now cid masterID (sv_links sv1)
           in Returns (None, spawn GoLinkSend lgo (sv1\<lparr>sv_links := lh\<rparr>))))"

definition dispatchEst ::
  "(string \<Rightarrow> ksuid option) \<Rightarrow> instant \<Rightarrow> ksuid \<Rightarrow> json option \<Rightarrow> 'c server \<Rightarrow>
     (go_error option \<times> 'c server) outcome" where
  "dispatchEst kparse now cid socketData sv =
     (case dec_ProxyEstMessage kparse socketData of
        None \<Rightarrow> Returns (Some (Errorf ''json''), sv)
      | Some m \<Rightarrow>
          (case (if pe_WithData m then map_option Some (DecodeString (pe_DataBase64 m)) else Some None) of
             None \<Rightarrow> Returns (Some (Errorf ''illegal base64 data''), sv)
           | Some estData \<Rightarrow>
               Returns (None,
                 sv\<lparr>sv_queues := QueueHub_SetSort now cid (pe_Sorted m) (sv_queues sv),
                    sv_links := LinkHub_SetSort now cid (pe_Sorted m) (sv_links sv),
                    sv_go := sv_go sv @ [GoEstablish cid (pe_Addr m) estData]\<rparr>)))"

text \<open>
  The whole handler. \<open>doc\<close> is the document received, \<open>None\<close> when the text is no JSON. \<open>timer\<close>: the
  five-minute timer of a write to a full link fires.
\<close>

definition dispatchDataMessage ::
  "(string \<Rightarrow> ksuid option) \<Rightarrow> instant \<Rightarrow> bool \<Rightarrow> 'c Hub \<Rightarrow> json option \<Rightarrow> 'c server \<Rightarrow>
     (go_error option \<times> 'c server) outcome" where
  "dispatchDataMessage kparse now timer hub doc sv =
     (case Option.bind doc dec_message of
        None \<Rightarrow> Returns (Some (Errorf ''json''), sv)
      | Some m \<Rightarrow>
          (case kparse (rm_Id m) of
             None \<Rightarrow> Returns (Some (Errorf ''ksuid''), sv)
           | Some cid \<Rightarrow>
               if rm_Type m = WsTpBeats then Returns (None, sv)
               else if rm_Type m = WsTpClose
               then bind_outcome (Hub_CloseProxyConn cid hub sv) (\<lambda>sv'. Returns (None, sv'))
               else if rm_Type m = WsTpHi then dispatchHi kparse now hub cid (rm_Data m) sv
               else if rm_Type m = WsTpEst then dispatchEst kparse now cid (rm_Data m) sv
               else if rm_Type m = WsTpData then dispatchData timer cid (rm_Data m) sv
               else Returns (None, sv)))"

datatype message_type = MessageText | MessageBinary

definition dispatchMessage ::
  "(string \<Rightarrow> ksuid option) \<Rightarrow> instant \<Rightarrow> bool \<Rightarrow> 'c Hub \<Rightarrow> message_type \<Rightarrow> json option \<Rightarrow>
     'c server \<Rightarrow> (go_error option \<times> 'c server) outcome" where
  "dispatchMessage kparse now timer hub msgType doc sv =
     (if msgType = MessageText then dispatchDataMessage kparse now timer hub doc sv
      else Returns (None, sv))"

section \<open>establish and establishProxy\<close>

text \<open>
  The goroutine \<open>establishProxy\<close>, by its program counter. Connections are references into the store
  \<open>conns\<close>. The deferred calls run in reverse order: the pool entry first, then the connection and
  \<open>e.Close\<close>.
\<close>

datatype est_pc =
    EstCheck
  | EstDial
  | EstLink ref                      \<comment> \<open>\<open>serverLinkHub.TrySend(id, conn)\<close>\<close>
  | EstWaiter ref                    \<comment> \<open>start the goroutine that waits for the link\<close>
  | EstAdd ref                       \<comment> \<open>\<open>hub.addNewProxy\<close>\<close>
  | EstQueue ref                     \<comment> \<open>\<open>serverQueueHub.TrySend(id)\<close>\<close>
  | EstGet ref                       \<comment> \<open>\<open>serverQueueHub.Get(id)\<close>\<close>
  | EstWait "ref option" ref         \<comment> \<open>\<open>writer.Wait()\<close>\<close>
  | EstUnregister ref                \<comment> \<open>deferred \<open>hub.RemoveProxy(id)\<close>\<close>
  | EstConnClose ref                 \<comment> \<open>deferred \<open>conn.Close()\<close>\<close>
  | EstClose                         \<comment> \<open>deferred \<open>e.Close(id)\<close>\<close>
  | EstTell "go_error option"        \<comment> \<open>\<open>hub.tellClosed(id)\<close>\<close>
  | EstEnd "go_error option"
  | EstCrash

record ('c, 'net) est_state =
  es_hub :: "'c Hub"
  es_sv :: "'c server"
  es_conns :: "ref \<Rightarrow> tcpconn"
  es_net :: 'net

text \<open>\<open>waited\<close>: the receive in \<open>writer.Wait()\<close> goes through (see \<open>queue_Wait_returns\<close>).\<close>

fun establish_step ::
  "('c, 'net) wsjson_write \<Rightarrow> (ksuid \<Rightarrow> string) \<Rightarrow> (string \<Rightarrow> bytes list) \<Rightarrow>
     (string \<Rightarrow> go_error + ref) \<Rightarrow> bool \<Rightarrow> ref \<Rightarrow> ksuid \<Rightarrow> string \<Rightarrow>
     est_pc \<times> ('c, 'net) est_state \<Rightarrow> (est_pc \<times> ('c, 'net) est_state) option" where
  "establish_step wsw kstr LookupIP Dial waited e cid addr (EstCheck, s) =
     Some (if checkAddrPrivite LookupIP addr
           then EstTell (Some (Errorf ''visit privite network, dial deny'')) else EstDial, s)"
| "establish_step wsw kstr LookupIP Dial waited e cid addr (EstDial, s) =
     Some (case Dial addr of Inl err \<Rightarrow> EstTell (Some err) | Inr c \<Rightarrow> EstLink c, s)"
| "establish_step wsw kstr LookupIP Dial waited e cid addr (EstLink c, s) =
     (let (lh, go) = LinkHub_TrySend cid (Some c) (sv_links (es_sv s))
      in Some (EstWaiter c, s\<lparr>es_sv := spawn GoLinkSend go ((es_sv s)\<lparr>sv_links := lh\<rparr>)\<rparr>))"
| "establish_step wsw kstr LookupIP Dial waited e cid addr (EstWaiter c, s) =
     Some (EstAdd c, s\<lparr>es_sv := spawn (GoLinkWaiter cid) (Some c) (es_sv s)\<rparr>)"
| "establish_step wsw kstr LookupIP Dial waited e cid addr (EstAdd c, s) =
     Some (EstQueue c, s\<lparr>es_hub := Hub_addNewProxy cid e (es_hub s)\<rparr>)"
| "establish_step wsw kstr LookupIP Dial waited e cid addr (EstQueue c, s) =
     Some (EstGet c,
       s\<lparr>es_sv := spawn GoQueueSend (QueueHub_TrySend cid (sv_queues (es_sv s))) (es_sv s)\<rparr>)"
| "establish_step wsw kstr LookupIP Dial waited e cid addr (EstGet c, s) =
     (let writer = QueueHub_Get cid (sv_queues (es_sv s))
      in Some (EstWait writer c, s\<lparr>es_sv := spawn (\<lambda>q. GoCopy q c) writer (es_sv s)\<rparr>))"
| "establish_step wsw kstr LookupIP Dial waited e cid addr (EstWait None c, s) = Some (EstCrash, s)"
| "establish_step wsw kstr LookupIP Dial waited e cid addr (EstWait (Some q) c, s) =
     (if waited then Some (EstUnregister c, s) else None)"
| "establish_step wsw kstr LookupIP Dial waited e cid addr (EstUnregister c, s) =
     Some (EstConnClose c, s\<lparr>es_hub := Hub_RemoveProxy cid (es_hub s)\<rparr>)"
| "establish_step wsw kstr LookupIP Dial waited e cid addr (EstConnClose c, s) =
     Some (EstClose, s\<lparr>es_conns := (es_conns s)(c := conn_Close (es_conns s c))\<rparr>)"
| "establish_step wsw kstr LookupIP Dial waited e cid addr (EstClose, s) =
     (case DefaultProxyEst_Close e cid (es_sv s) of
        Returns sv \<Rightarrow> Some (EstTell None, s\<lparr>es_sv := sv\<rparr>)
      | Blocks \<Rightarrow> None
      | Panics \<Rightarrow> Some (EstCrash, s))"
| "establish_step wsw kstr LookupIP Dial waited e cid addr (EstTell err, s) =
     Some (EstEnd err,
       s\<lparr>es_net := snd (tellClosed wsw kstr (hub_ws (es_hub s)) cid (es_net s))\<rparr>)"
| "establish_step wsw kstr LookupIP Dial waited e cid addr (EstEnd err, s) = None"
| "establish_step wsw kstr LookupIP Dial waited e cid addr (EstCrash, s) = None"

section \<open>The pools are registries\<close>

definition hub_wf :: "'c Hub \<Rightarrow> bool" where
  "hub_wf h \<longleftrightarrow> gm_wf (hub_connPool h)"

interpretation hub_pool: registry Hub_addNewProxy Hub_GetProxyById Hub_RemoveProxy Hub_GetConnectorSize hub_wf
proof
  fix h :: "'c Hub"
  assume "hub_wf h"
  then show "Hub_GetConnectorSize h = card {k. Hub_GetProxyById k h \<noteq> None}"
    unfolding hub_wf_def Hub_GetConnectorSize_def Hub_GetProxyById_def
    by (rule gm_registry.size_card)
  show "finite {k. Hub_GetProxyById k h \<noteq> None}"
    unfolding Hub_GetProxyById_def using gm_registry.get_finite \<open>hub_wf h\<close>
    by (simp add: hub_wf_def)
qed (auto simp: Hub_addNewProxy_def Hub_GetProxyById_def Hub_RemoveProxy_def hub_wf_def)

section \<open>The server invariant\<close>

definition server_wf :: "'c server \<Rightarrow> bool" where
  "server_wf sv \<longleftrightarrow> qh_wf (sv_queues sv) \<and> lh_wf (sv_links sv)"

lemma server_wfI: "qh_wf (sv_queues sv) \<Longrightarrow> lh_wf (sv_links sv) \<Longrightarrow> server_wf sv"
  by (simp add: server_wf_def)

lemma server_wf_new [wf_intros, simp]: "server_wf new_server"
  by (simp add: server_wf_def new_server_def)

lemma spawn_sel [simp]:
  "sv_queues (spawn g r sv) = sv_queues sv" "sv_links (spawn g r sv) = sv_links sv"
  "sv_est_closed (spawn g r sv) = sv_est_closed sv"
  by (simp_all add: spawn_def split: option.splits)

lemma LinkHub_RemoveAll_total:
  assumes "lh_wf h"
  shows "\<exists>h'. LinkHub_RemoveAll m h = Some h' \<and> lh_wf h'"
proof (cases "gm_get (lh_links h) m")
  case None
  with assms show ?thesis by (simp add: LinkHub_RemoveAll_def)
next
  case (Some r)
  with LinkHub_RemoveAll_wf [OF assms] show ?thesis by blast
qed

lemma DefaultProxyEst_Close_wf:
  assumes "server_wf sv"
  shows "\<exists>sv'. DefaultProxyEst_Close e cid sv = Returns sv' \<and> server_wf sv'"
proof -
  obtain lh where lh: "LinkHub_RemoveAll cid (sv_links sv) = Some lh" "lh_wf lh"
    using LinkHub_RemoveAll_total assms by (auto simp: server_wf_def)
  moreover obtain qh where "QueueHub_Remove cid (sv_queues sv) = Some qh" "qh_wf qh"
    using QueueHub_Remove_wf assms unfolding server_wf_def by blast
  ultimately show ?thesis
    using assms by (simp add: DefaultProxyEst_Close_def server_wf_def)
qed

section \<open>Effect of each message\<close>

lemma dispatch_data:
  assumes "ksuid_codec kstr kparse" and "- (2 ^ 63) \<le> tag" and "tag < 2 ^ 63"
  shows "dispatchDataMessage kparse now timer hub
           (Some (enc_message kstr (data_message kstr cid tag d))) sv =
         (if LinkHub_Get cid (sv_links sv) = None then Returns (None, sv)
          else bind_outcome
            (or_block (deliver timer cid (if tag = TagEOF then eof_buffer else data_buffer d) (sv_links sv)))
            (\<lambda>lh. Returns (None, sv\<lparr>sv_links := lh\<rparr>)))"
  using assms
  by (simp add: dispatchDataMessage_def dec_data_message ksuid_codec_def dispatchData_def
      dec_enc_ProxyData DecodeString_EncodeToString WsTp_defs)

lemma dispatch_hi:
  assumes "ksuid_codec kstr kparse"
  shows "dispatchDataMessage kparse now timer hub
           (Some (enc_message kstr (hi_message kstr cid m))) sv =
         dispatchHi kparse now hub cid (Some (JStr (kstr m))) sv"
  using assms
  by (simp add: dispatchDataMessage_def dec_enc_message hi_message_def ksuid_codec_def WsTp_defs)

lemma dispatch_est:
  assumes "ksuid_codec kstr kparse"
  shows "dispatchDataMessage kparse now timer hub
           (Some (enc_message kstr (est_message kstr cid fsd addr srt))) sv =
         Returns (None,
           sv\<lparr>sv_queues := QueueHub_SetSort now cid srt (sv_queues sv),
              sv_links := LinkHub_SetSort now cid srt (sv_links sv),
              sv_go := sv_go sv @ [GoEstablish cid addr fsd]\<rparr>)"
proof -
  have "enc_ProxyEstMessage kstr m \<noteq> JNull" for m by (simp add: enc_ProxyEstMessage_def)
  then show ?thesis
    using assms
    by (cases fsd) (simp_all add: dispatchDataMessage_def dec_enc_message est_message_def
        ksuid_codec_def WsTp_defs dispatchEst_def dec_enc_ProxyEstMessage
        DecodeString_EncodeToString)
qed

lemma dispatch_finish:
  assumes "ksuid_codec kstr kparse"
  shows "dispatchDataMessage kparse now timer hub
           (Some (enc_message kstr (finish_message kstr cid))) sv =
         bind_outcome (Hub_CloseProxyConn cid hub sv) (\<lambda>sv'. Returns (None, sv'))"
  using assms
  by (simp add: dispatchDataMessage_def dec_enc_message finish_message_def ksuid_codec_def WsTp_defs)

lemma dispatchHi_wf:
  assumes "server_wf sv"
  shows "\<exists>r sv'. dispatchHi kparse now hub cid j sv = Returns (r, sv') \<and> server_wf sv'"
proof (cases "dec_masterID kparse j")
  case None
  with assms show ?thesis by (simp add: dispatchHi_def)
next
  case (Some m)
  obtain qh go where q: "QueueHub_Add now m cid (NewWebSocketWriter (hub_ws hub) cid None) (sv_queues sv) = (qh, go)"
    by fastforce
  obtain lh go' where l: "LinkHub_Add now cid m (sv_links sv) = (lh, go')"
    by fastforce
  have "qh_wf qh" "lh_wf lh"
    using assms q l qh_wf_Add [of "sv_queues sv"] lh_wf_Add [of "sv_links sv"]
    by (auto simp: server_wf_def) (metis fst_conv)+
  with Some q l show ?thesis by (simp add: dispatchHi_def server_wf_def)
qed

lemma dispatchEst_wf:
  "server_wf sv \<Longrightarrow> \<exists>r sv'. dispatchEst kparse now cid j sv = Returns (r, sv') \<and> server_wf sv'"
  by (auto simp: dispatchEst_def server_wf_def qh_wf_SetSort lh_wf_SetSort split: option.splits)

lemma dispatchData_wf:
  "server_wf sv \<Longrightarrow> dispatchData timer cid j sv \<noteq> Panics \<and>
     (\<forall>r sv'. dispatchData timer cid j sv = Returns (r, sv') \<longrightarrow> server_wf sv')"
  by (auto simp: dispatchData_def server_wf_def or_block_def
      split: option.splits if_splits intro: deliver_wf)

lemma Hub_CloseProxyConn_wf:
  "server_wf sv \<Longrightarrow> \<exists>sv'. Hub_CloseProxyConn cid hub sv = Returns sv' \<and> server_wf sv'"
  using DefaultProxyEst_Close_wf [of sv] by (auto simp: Hub_CloseProxyConn_def split: option.splits)

end
