(* ===== verification/Socks5.thy ===== *)
theory Socks5
  imports Pipe_Func Go_Net
begin

unbundle bit_operations_syntax

text \<open>
  The SOCKS5 front end: \<open>wss/proxy_client_interface.go\<close>, \<open>wss/proxy_client_socks5.go\<close> and
  \<open>Client.Reply\<close> of \<open>wss/wssocks_client.go\<close>. A handler either fails with an error (\<open>Inl\<close>) or
  returns its result (\<open>Inr\<close>); \<open>None\<close> means a read is still waiting for the peer.
\<close>

section \<open>Proxy types\<close>

definition ProxyTypeSocks5 :: int where "ProxyTypeSocks5 = 0"
definition ProxyTypeHttp :: int where "ProxyTypeHttp = 1"
definition ProxyTypeHttps :: int where "ProxyTypeHttps = 2"

definition ProxyTypeStr :: "int \<Rightarrow> string" where
  "ProxyTypeStr tp =
     (if tp = ProxyTypeHttp then ''http''
      else if tp = ProxyTypeHttps then ''https''
      else if tp = ProxyTypeSocks5 then ''socks5''
      else ''unknown'')"

section \<open>Socks5Client\<close>

definition socks5_ProxyType :: int where
  "socks5_ProxyType = ProxyTypeSocks5"

definition socks5_Trigger :: "bytes \<Rightarrow> bool" where
  "socks5_Trigger d \<longleftrightarrow> 2 \<le> length d \<and> d ! 0 = 0x05"

definition socks5_EstablishData :: "bytes \<Rightarrow> go_error + bytes option" where
  "socks5_EstablishData origin = Inr None"

definition bytes_string :: "bytes \<Rightarrow> string" where
  "bytes_string bs = map (\<lambda>b. char_of (unat b)) bs"

text \<open>
  The request parser on what the second read returned: the local array of 1024 bytes with the
  \<open>n\<close> bytes read at its front. The three \<open>io.ReadAtLeast\<close> calls read 4, 16 and at most 255 bytes from
  slices of at least 1019 bytes, so their error branch cannot be taken.
\<close>

definition socks5_parse_request :: "bytes \<Rightarrow> go_error + string" where
  "socks5_parse_request d =
     (let n = length d; buffer = d @ replicate (1024 - n) 0
      in if n < 6 then Inl (Errorf ''not a socks protocol'')
         else (let host = (if buffer ! 3 = 0x01 then IP_String (take 4 (drop 4 buffer))
                           else if buffer ! 3 = 0x04 then IP_String (take 16 (drop 4 buffer))
                           else if buffer ! 3 = 0x03
                           then bytes_string (take (unat (buffer ! 4)) (drop 5 buffer))
                           else []);
                   port = take 2 (drop (n - 2) buffer)
               in Inr (JoinHostPort host
                        (Itoa (push_bit 8 (unat (port ! 0)) OR unat (port ! 1))))))"

definition socks5_ParseHeader :: "tcpconn \<Rightarrow> ((go_error + string) \<times> tcpconn) option" where
  "socks5_ParseHeader conn =
     (case conn_Write [0x05, 0x00] conn of
        ((n, Some err), conn1) \<Rightarrow> Some (Inl err, conn1)
      | ((n, None), conn1) \<Rightarrow>
          (case conn_Read 1024 conn1 of
             None \<Rightarrow> None
           | Some ((d, Some err), conn2) \<Rightarrow> Some (Inl err, conn2)
           | Some ((d, None), conn2) \<Rightarrow> Some (socks5_parse_request d, conn2)))"

section \<open>Client.Reply\<close>

text \<open>The only instance tried is the SOCKS5 client. Results: first data, proxy type, address.\<close>

definition Reply :: "tcpconn \<Rightarrow> ((go_error + bytes option \<times> int \<times> string) \<times> tcpconn) option" where
  "Reply conn =
     (case conn_Read 1024 conn of
        None \<Rightarrow> None
      | Some ((d, Some err), conn1) \<Rightarrow> Some (Inl err, conn1)
      | Some ((d, None), conn1) \<Rightarrow>
          if \<not> socks5_Trigger d then Some (Inl (Errorf ''only socks5 proxy''), conn1)
          else (case socks5_ParseHeader conn1 of
                  None \<Rightarrow> None
                | Some (Inl err, conn2) \<Rightarrow> Some (Inl err, conn2)
                | Some (Inr addr, conn2) \<Rightarrow>
                    (case socks5_EstablishData d of
                       Inl err \<Rightarrow> Some (Inl err, conn2)
                     | Inr firstSendData \<Rightarrow>
                         Some (Inr (firstSendData, socks5_ProxyType, addr), conn2))))"

section \<open>Requests as RFC 1928 writes them\<close>

text \<open>\<open>VER CMD RSV ATYP DST.ADDR DST.PORT\<close> for the three address types.\<close>

definition port_bytes :: "nat \<Rightarrow> bytes" where
  "port_bytes port = [of_nat (port div 256), of_nat port]"

definition request_ipv4 :: "byte \<Rightarrow> bytes \<Rightarrow> nat \<Rightarrow> bytes" where
  "request_ipv4 cmd ip port = [0x05, cmd, 0x00, 0x01] @ ip @ port_bytes port"

definition request_domain :: "byte \<Rightarrow> bytes \<Rightarrow> nat \<Rightarrow> bytes" where
  "request_domain cmd name port =
     [0x05, cmd, 0x00, 0x03, of_nat (length name)] @ name @ port_bytes port"

definition request_ipv6 :: "byte \<Rightarrow> bytes \<Rightarrow> nat \<Rightarrow> bytes" where
  "request_ipv6 cmd ip port = [0x05, cmd, 0x00, 0x04] @ ip @ port_bytes port"

lemma port_bits: "b < 256 \<Longrightarrow> push_bit 8 a OR b = (a * 256 + b :: nat)"
proof -
  assume "b < 256"
  then have "take_bit 8 b = b" by (intro take_bit_nat_eq_self) simp
  then have "bit b i \<Longrightarrow> i < 8" for i by (metis bit_take_bit_iff)
  then have "push_bit 8 a + b = push_bit 8 a OR b"
    by (intro disjunctive_add) (fastforce simp: bit_simps)
  moreover have "push_bit 8 a = a * 256" by (simp add: push_bit_eq_mult)
  ultimately show ?thesis by simp
qed

lemma port_value:
  assumes "port < 65536"
  shows "push_bit 8 (unat (port_bytes port ! 0)) OR unat (port_bytes port ! 1) = port"
proof -
  have "port div 256 < 256" using assms by (simp add: less_mult_imp_div_less)
  then have "unat (of_nat (port div 256) :: byte) = port div 256" "unat (of_nat port :: byte) = port mod 256"
    by (simp_all add: unat_of_nat)
  then show ?thesis
    using port_bits [of "port mod 256" "port div 256"] by (simp add: port_bytes_def)
qed

text \<open>The last two of the bytes read are the port, whatever precedes them.\<close>

lemma parse_request_port:
  assumes "4 \<le> length pre" and "port < 65536"
  shows "socks5_parse_request (pre @ port_bytes port) =
     (let buffer = pre @ port_bytes port @ replicate (1022 - length pre) 0
      in Inr (JoinHostPort
           (if buffer ! 3 = 0x01 then IP_String (take 4 (drop 4 buffer))
            else if buffer ! 3 = 0x04 then IP_String (take 16 (drop 4 buffer))
            else if buffer ! 3 = 0x03
            then bytes_string (take (unat (buffer ! 4)) (drop 5 buffer)) else [])
           (Itoa port)))"
proof -
  have "take 2 (drop (length pre) (pre @ port_bytes port @ z)) = port_bytes port" for z
    by (simp add: port_bytes_def)
  moreover have "length (port_bytes port) = 2" by (simp add: port_bytes_def)
  ultimately show ?thesis
    using assms(1) port_value [OF assms(2)]
    by (simp add: socks5_parse_request_def Let_def)
qed

lemma parse_request_domain:
  assumes "length name < 256" and "port < 65536"
  shows "socks5_parse_request (request_domain cmd name port) =
     Inr (JoinHostPort (bytes_string name) (Itoa port))"
proof -
  have "unat (of_nat (length name) :: byte) = length name"
    using assms(1) by (simp add: unat_of_nat)
  then show ?thesis
    using parse_request_port [of "[0x05, cmd, 0x00, 0x03, of_nat (length name)] @ name" port] assms(2)
    by (simp add: request_domain_def Let_def)
qed

lemma parse_request_ipv4:
  assumes "length ip = 4" and "port < 65536"
  shows "socks5_parse_request (request_ipv4 cmd ip port) = Inr (JoinHostPort (IP_String ip) (Itoa port))"
  using parse_request_port [of "[0x05, cmd, 0x00, 0x01] @ ip" port] assms
  by (simp add: request_ipv4_def Let_def)

lemma parse_request_ipv6:
  assumes "length ip = 16" and "port < 65536"
  shows "socks5_parse_request (request_ipv6 cmd ip port) = Inr (JoinHostPort (IP_String ip) (Itoa port))"
  using parse_request_port [of "[0x05, cmd, 0x00, 0x04] @ ip" port] assms
  by (simp add: request_ipv6_def Let_def)

text \<open>The whole exchange on a fresh connection: greeting, method reply, request.\<close>

lemma Reply_exchange:
  assumes "socks5_Trigger greeting" and "length greeting \<le> 1024" and "length req \<le> 1024"
    and "socks5_parse_request req = Inr addr"
  shows "Reply (new_conn (RxData greeting # RxData req # rest)) =
     Some (Inr (None, ProxyTypeSocks5, addr), (new_conn rest)\<lparr>tx := [0x05, 0x00]\<rparr>)"
  using assms
  by (simp add: Reply_def conn_Read_def new_conn_def socks5_ParseHeader_def conn_Write_def
      socks5_EstablishData_def socks5_ProxyType_def)

text \<open>The three kinds of destination a request can name, and the host each of them means.\<close>

datatype socks_dest = Domain bytes | Addr4 bytes | Addr6 bytes

fun dest_ok :: "socks_dest \<Rightarrow> bool" where
  "dest_ok (Domain name) = (length name < 256)"
| "dest_ok (Addr4 ip) = (length ip = 4)"
| "dest_ok (Addr6 ip) = (length ip = 16)"

fun dest_host :: "socks_dest \<Rightarrow> string" where
  "dest_host (Domain name) = bytes_string name"
| "dest_host (Addr4 ip) = IP_String ip"
| "dest_host (Addr6 ip) = IP_String ip"

fun encode_request :: "byte \<Rightarrow> socks_dest \<Rightarrow> nat \<Rightarrow> bytes" where
  "encode_request cmd (Domain name) port = request_domain cmd name port"
| "encode_request cmd (Addr4 ip) port = request_ipv4 cmd ip port"
| "encode_request cmd (Addr6 ip) port = request_ipv6 cmd ip port"

lemma parse_encode_request:
  "dest_ok dest \<Longrightarrow> port < 65536 \<Longrightarrow>
     socks5_parse_request (encode_request cmd dest port) = Inr (JoinHostPort (dest_host dest) (Itoa port))"
  by (cases dest) (simp_all add: parse_request_domain parse_request_ipv4 parse_request_ipv6)

lemma length_encode_request: "dest_ok dest \<Longrightarrow> length (encode_request cmd dest port) \<le> 1024"
  by (cases dest) (simp_all add: request_domain_def request_ipv4_def request_ipv6_def port_bytes_def)

text \<open>
  C24. SOCKS5 request round trip: after a greeting of version 5, a request encoded for a domain name
  of at most 255 bytes, an IPv4 or an IPv6 address and any port is answered with the method reply
  and parsed to exactly that host and port, whatever the command byte says.
\<close>

theorem socks5_request_roundtrip:
  assumes "socks5_Trigger greeting" and "length greeting \<le> 1024" and "dest_ok dest" and "port < 65536"
  shows "Reply (new_conn (RxData greeting # RxData (encode_request cmd dest port) # rest)) =
    Some (Inr (None, ProxyTypeSocks5, JoinHostPort (dest_host dest) (Itoa port)),
          (new_conn rest)\<lparr>tx := [0x05, 0x00]\<rparr>)"
  by (rule Reply_exchange [OF assms(1,2) length_encode_request [OF assms(3)] parse_encode_request [OF assms(3,4)]])

theorem socks5_request_roundtrip_witness:
  "Reply (new_conn [RxData [5, 1, 0], RxData (encode_request 1 (Domain [97, 98]) 80)]) =
    Some (Inr (None, ProxyTypeSocks5, JoinHostPort (bytes_string [97, 98]) (Itoa 80)),
          (new_conn [])\<lparr>tx := [5, 0]\<rparr>)"
  using socks5_request_roundtrip [of "[5, 1, 0]" "Domain [97, 98]" 80 1 "[]"] by (simp add: socks5_Trigger_def)

end
