(* ===== verification/Client.thy ===== *)
theory Client
  imports Queue Link Ws_Writer Privite Socks5
begin

text \<open>
  The client side: \<open>wss/websocket_client.go\<close> (the WebSocket connections and the proxies registered on
  them) and \<open>wss/wssocks_client.go\<close> (answering a local application and moving its data).

  One transfer is one call of \<open>transData\<close>. The callbacks it registers are closures over its variable
  \<open>status\<close>; a transfer is therefore named by a reference, the registered proxy is that reference, and
  \<open>cw_removed\<close> is the variable of each transfer. \<open>transData\<close> is given step by step: the receive loops of
  the WebSockets run between its steps.
\<close>

section \<open>WebSocketClient\<close>

text \<open>\<open>wc_cancel\<close>: \<open>None\<close> while \<open>cancel\<close> is nil, then whether it was called.\<close>

record 'c WebSocketClient =
  wc_conn :: 'c
  wc_proxies :: "(ksuid, ref) gomap"
  wc_cancel :: "bool option"

definition ConnSize :: "'c WebSocketClient \<Rightarrow> nat" where
  "ConnSize wsc = gm_len (wc_proxies wsc)"

text \<open>\<open>Dial\<close>: the WebSocket dial, an error or the connection.\<close>

definition NewWebSocketClient :: "(string \<Rightarrow> go_error + 'c) \<Rightarrow> string \<Rightarrow> go_error + 'c WebSocketClient" where
  "NewWebSocketClient Dial addr =
     (case Dial addr of
        Inl err \<Rightarrow> Inl err
      | Inr ws \<Rightarrow> Inr \<lparr>wc_conn = ws, wc_proxies = [], wc_cancel = None\<rparr>)"

text \<open>\<open>pid\<close> is the identifier \<open>ksuid.New()\<close> drew.\<close>

definition NewProxy :: "ksuid \<Rightarrow> ref \<Rightarrow> 'c WebSocketClient \<Rightarrow> 'c WebSocketClient" where
  "NewProxy pid t wsc = wsc\<lparr>wc_proxies := gm_put pid t (wc_proxies wsc)\<rparr>"

definition GetProxyById :: "ksuid \<Rightarrow> 'c WebSocketClient \<Rightarrow> ref option" where
  "GetProxyById pid wsc = gm_get (wc_proxies wsc) pid"

definition RemoveProxy :: "ksuid \<Rightarrow> 'c WebSocketClient \<Rightarrow> 'c WebSocketClient" where
  "RemoveProxy pid wsc =
     (if gm_get (wc_proxies wsc) pid \<noteq> None
      then wsc\<lparr>wc_proxies := gm_del pid (wc_proxies wsc)\<rparr> else wsc)"

text \<open>\<open>WSClose\<close> answers with the parameter's error; the context is cancelled first.\<close>

definition WebSocketClient_Close ::
  "('c \<Rightarrow> go_error option) \<Rightarrow> 'c WebSocketClient \<Rightarrow> go_error option \<times> 'c WebSocketClient" where
  "WebSocketClient_Close WSClose wsc =
     (WSClose (wc_conn wsc),
      if wc_cancel wsc \<noteq> None then wsc\<lparr>wc_cancel := Some True\<rparr> else wsc)"

definition wsc_wf :: "'c WebSocketClient \<Rightarrow> bool" where
  "wsc_wf wsc \<longleftrightarrow> gm_wf (wc_proxies wsc)"

interpretation wsc_proxies: registry NewProxy GetProxyById RemoveProxy ConnSize wsc_wf
proof
  fix h :: "'c WebSocketClient"
  assume "wsc_wf h"
  then show "ConnSize h = card {k. GetProxyById k h \<noteq> None}"
    unfolding wsc_wf_def ConnSize_def GetProxyById_def by (rule gm_registry.size_card)
  show "finite {k. GetProxyById k h \<noteq> None}"
    unfolding GetProxyById_def using gm_registry.get_finite \<open>wsc_wf h\<close> by (simp add: wsc_wf_def)
qed (auto simp: NewProxy_def GetProxyById_def RemoveProxy_def wsc_wf_def)

section \<open>The client's shared state\<close>

record ('c, 'net) client_world =
  cw_queues :: "'c webSocketWriter QueueHub"
  cw_links :: LinkHub
  cw_wscs :: "'c WebSocketClient list"
  cw_removed :: "ref \<Rightarrow> bool"
  cw_ws :: "'net ws_world"
  cw_go :: "go_stmt list"

record ServerData =
  sd_Tag :: int
  sd_Data :: bytes

text \<open>The callback \<open>onData\<close>.\<close>

definition onData :: "bool \<Rightarrow> ksuid \<Rightarrow> ServerData \<Rightarrow> LinkHub \<Rightarrow> LinkHub option" where
  "onData timer cid d h =
     (case LinkHub_Get cid h of
        None \<Rightarrow> Some h
      | Some r \<Rightarrow>
          if sd_Tag d = TagData
          then map_option (\<lambda>(res, q). lh_update r (\<lambda>_. q) h) (link_Write timer (sd_Data d) (lh_heap h r))
          else if sd_Tag d = TagEOF
          then map_option (\<lambda>q. lh_update r (\<lambda>_. q) h) (link_WriteEOF timer (lh_heap h r))
          else Some h)"

text \<open>The local function \<open>remove\<close> of transfer \<open>t\<close>, which the callback \<open>onClosed\<close> calls.\<close>

definition transfer_remove ::
  "ref \<Rightarrow> ksuid \<Rightarrow> ('c, 'net) client_world \<Rightarrow> ('c, 'net) client_world outcome" where
  "transfer_remove t cid s =
     (if cw_removed s t then Returns s
      else bind_outcome (or_panic (QueueHub_Remove cid (cw_queues s))) (\<lambda>qh.
           bind_outcome (or_panic (LinkHub_RemoveAll cid (cw_links s))) (\<lambda>lh.
             Returns (s\<lparr>cw_removed := (cw_removed s)(t := True), cw_queues := qh, cw_links := lh\<rparr>))))"

text \<open>What \<open>ListenIncomeMsg\<close> does with one message it read on \<open>wsc\<close>.\<close>

definition listen_dispatch ::
  "(string \<Rightarrow> ksuid option) \<Rightarrow> bool \<Rightarrow> 'c WebSocketClient \<Rightarrow> json option \<Rightarrow>
     ('c, 'net) client_world \<Rightarrow> ('c, 'net) client_world outcome" where
  "listen_dispatch kparse timer wsc doc s =
     (case Option.bind doc dec_message of
        None \<Rightarrow> Returns s
      | Some m \<Rightarrow>
          (case kparse (rm_Id m) of
             None \<Rightarrow> Returns s
           | Some ksid \<Rightarrow>
               (case GetProxyById ksid wsc of
                  None \<Rightarrow> Returns s
                | Some proxy \<Rightarrow>
                    if rm_Type m = WsTpClose then transfer_remove proxy ksid s
                    else if rm_Type m = WsTpData
                    then (case dec_ProxyData (rm_Data m) of
                            None \<Rightarrow> Returns s
                          | Some proxyData \<Rightarrow>
                              (case DecodeString (pd_DataBase64 proxyData) of
                                 None \<Rightarrow> Returns s
                               | Some d \<Rightarrow>
                                   bind_outcome
                                     (or_block (onData timer ksid \<lparr>sd_Tag = pd_Tag proxyData, sd_Data = d\<rparr> (cw_links s)))
                                     (\<lambda>lh. Returns (s\<lparr>cw_links := lh\<rparr>))))
                    else Returns s)))"

lemma listen_data:
  assumes "ksuid_codec kstr kparse" and "- (2 ^ 63) \<le> tag" and "tag < 2 ^ 63"
    and "GetProxyById cid wsc = Some p"
  shows "listen_dispatch kparse timer wsc (Some (enc_message kstr (data_message kstr cid tag d))) s =
    bind_outcome (or_block (onData timer cid \<lparr>sd_Tag = tag, sd_Data = d\<rparr> (cw_links s)))
      (\<lambda>lh. Returns (s\<lparr>cw_links := lh\<rparr>))"
  using assms
  by (simp add: listen_dispatch_def dec_data_message ksuid_codec_def dec_enc_ProxyData
      DecodeString_EncodeToString WsTp_defs)

text \<open>\<open>ListenIncomeMsg\<close> begins with a context of its own, whose \<open>cancel\<close> \<open>Close\<close> calls.\<close>

definition ListenIncomeMsg_start :: "'c WebSocketClient \<Rightarrow> 'c WebSocketClient" where
  "ListenIncomeMsg_start wsc = wsc\<lparr>wc_cancel := Some False\<rparr>"

text \<open>
  One round of the loop: the check of the context, the read (an error, or a message), the dispatch.
  \<open>Inl\<close>: the loop has returned.
\<close>

definition ListenIncomeMsg_round ::
  "(string \<Rightarrow> ksuid option) \<Rightarrow> bool \<Rightarrow> 'c WebSocketClient \<Rightarrow> go_error + json option \<Rightarrow>
     ('c, 'net) client_world \<Rightarrow> (go_error + ('c, 'net) client_world) outcome" where
  "ListenIncomeMsg_round kparse timer wsc received s =
     (if wc_cancel wsc = Some True then Returns (Inl StoppedError)
      else case received of
        Inl err \<Rightarrow> Returns (Inl err)
      | Inr doc \<Rightarrow> bind_outcome (listen_dispatch kparse timer wsc doc s) (\<lambda>s'. Returns (Inr s')))"

section \<open>transData\<close>

text \<open>
  \<open>srt\<close> is the variable \<open>sorted\<close>; its head is \<open>masterID\<close>. The loop over the WebSockets does four things
  per connection, each of them on state other goroutines share. After the body come the deferred
  calls, last registered first: \<open>remove(masterID)\<close>, then for each connection from the last to the
  first \<open>CloseWsWriter\<close> and \<open>RemoveProxy\<close>.
\<close>

datatype trans_pc =
    TdProxy "ksuid list"                   \<comment> \<open>\<open>w.NewProxy\<close> for the next WebSocket\<close>
  | TdHi "ksuid list"                      \<comment> \<open>\<open>p.SayID(w, masterID)\<close>\<close>
  | TdQueueAdd "ksuid list"                \<comment> \<open>\<open>clientQueueHub.Add\<close>\<close>
  | TdLinkAdd "ksuid list"                 \<comment> \<open>\<open>clientLinkHub.Add\<close>\<close>
  | TdEstablish "ksuid list"
  | TdGetQueue "ksuid list"
  | TdSort ref "ksuid list"                \<comment> \<open>\<open>qq.SetSort\<close>, then \<open>go qq.Send()\<close> and \<open>go CopyBuffer\<close>\<close>
  | TdGetLink "ksuid list"
  | TdSetConn ref "ksuid list"
  | TdSetSort ref "ksuid list"             \<comment> \<open>\<open>oo.SetSort\<close>, then \<open>go oo.Send\<close>\<close>
  | TdWait ref "ksuid list"                \<comment> \<open>\<open>oo.Wait()\<close>\<close>
  | TdRemove "ksuid list" "go_error option"
  | TdCloseWriter "ksuid list" "go_error option"
  | TdRemoveProxy "ksuid list" "go_error option"
  | TdEnd "go_error option"
  | TdCrash

text \<open>
  Parameters: \<open>fresh i\<close> and \<open>ctx i\<close> are the identifier and the context made for WebSocket \<open>i\<close>, \<open>t\<close> the
  transfer, \<open>conn\<close> the local connection, \<open>waited\<close> whether the receive in \<open>oo.Wait()\<close> goes through.
\<close>

fun transData_step ::
  "('c, 'net) wsjson_write \<Rightarrow> (ksuid \<Rightarrow> string) \<Rightarrow> (nat \<Rightarrow> ksuid) \<Rightarrow> (nat \<Rightarrow> ref) \<Rightarrow> instant \<Rightarrow>
     bool \<Rightarrow> ref \<Rightarrow> ref \<Rightarrow> bytes option \<Rightarrow> string \<Rightarrow>
     trans_pc \<times> ('c, 'net) client_world \<Rightarrow> (trans_pc \<times> ('c, 'net) client_world) option" where
  "transData_step wsw kstr fresh ctx now waited t conn fsd addr (TdProxy srt, s) =
     (let i = length srt
      in if fsd \<noteq> None \<and> the fsd \<noteq> [] then Some (TdCrash, s)
         else if i < length (cw_wscs s)
         then Some (TdHi (srt @ [fresh i]),
                s\<lparr>cw_wscs := (cw_wscs s)[i := NewProxy (fresh i) t (cw_wscs s ! i)]\<rparr>)
         else Some (if srt = [] then TdCrash else TdEstablish srt, s))"
| "transData_step wsw kstr fresh ctx now waited t conn fsd addr (TdHi srt, s) =
     Some (TdQueueAdd srt,
       s\<lparr>cw_ws := (cw_ws s)\<lparr>wv_net :=
         snd (SayID wsw kstr (last srt) (wc_conn (cw_wscs s ! (length srt - 1))) (hd srt) (wv_net (cw_ws s)))\<rparr>\<rparr>)"
| "transData_step wsw kstr fresh ctx now waited t conn fsd addr (TdQueueAdd srt, s) =
     (let writer = NewWebSocketWriterWithMutex (wc_conn (cw_wscs s ! (length srt - 1))) (last srt)
                     (Some (ctx (length srt - 1)));
          (qh, go) = QueueHub_Add now (hd srt) (last srt) writer (cw_queues s)
      in Some (TdLinkAdd srt,
           s\<lparr>cw_queues := qh,
             cw_go := cw_go s @ (case go of None \<Rightarrow> [] | Some q \<Rightarrow> [GoQueueSend q])\<rparr>))"
| "transData_step wsw kstr fresh ctx now waited t conn fsd addr (TdLinkAdd srt, s) =
     (let (lh, go) = LinkHub_Add now (last srt) (hd srt) (cw_links s)
      in Some (TdProxy srt,
           s\<lparr>cw_links := lh,
             cw_go := cw_go s @ (case go of None \<Rightarrow> [] | Some q \<Rightarrow> [GoLinkSend q])\<rparr>))"
| "transData_step wsw kstr fresh ctx now waited t conn fsd addr (TdEstablish srt, s) =
     (let (err, net) = Establish wsw kstr (hd srt) (wc_conn (cw_wscs s ! 0)) fsd addr srt (wv_net (cw_ws s))
      in Some (if err = None then TdGetQueue srt else TdRemove srt err,
               s\<lparr>cw_ws := (cw_ws s)\<lparr>wv_net := net\<rparr>\<rparr>))"
| "transData_step wsw kstr fresh ctx now waited t conn fsd addr (TdGetQueue srt, s) =
     Some (case QueueHub_Get (hd srt) (cw_queues s) of
             None \<Rightarrow> TdRemove srt (Some (Errorf ''queue not found''))
           | Some qq \<Rightarrow> TdSort qq srt, s)"
| "transData_step wsw kstr fresh ctx now waited t conn fsd addr (TdSort qq srt, s) =
     Some (TdGetLink srt,
       s\<lparr>cw_queues := qh_update qq (queue_SetSort srt) (cw_queues s),
         cw_go := cw_go s @ [GoQueueSend qq, GoCopy qq conn]\<rparr>)"
| "transData_step wsw kstr fresh ctx now waited t conn fsd addr (TdGetLink srt, s) =
     Some (case LinkHub_Get (hd srt) (cw_links s) of
             None \<Rightarrow> TdRemove srt (Some (Errorf ''link not found''))
           | Some oo \<Rightarrow> TdSetConn oo srt, s)"
| "transData_step wsw kstr fresh ctx now waited t conn fsd addr (TdSetConn oo srt, s) =
     Some (TdSetSort oo srt, s\<lparr>cw_links := lh_update oo (link_SetConn (Some conn)) (cw_links s)\<rparr>)"
| "transData_step wsw kstr fresh ctx now waited t conn fsd addr (TdSetSort oo srt, s) =
     Some (TdWait oo srt,
       s\<lparr>cw_links := lh_update oo (link_SetSort srt) (cw_links s), cw_go := cw_go s @ [GoLinkSend oo]\<rparr>)"
| "transData_step wsw kstr fresh ctx now waited t conn fsd addr (TdWait oo srt, s) =
     (if waited then Some (TdRemove srt None, s) else None)"
| "transData_step wsw kstr fresh ctx now waited t conn fsd addr (TdRemove srt err, s) =
     (case transfer_remove t (hd srt) s of
        Returns s' \<Rightarrow> Some (TdCloseWriter srt err, s')
      | Blocks \<Rightarrow> None
      | Panics \<Rightarrow> Some (TdCrash, s))"
| "transData_step wsw kstr fresh ctx now waited t conn fsd addr (TdCloseWriter srt err, s) =
     Some (if srt = [] then (TdEnd err, s)
           else (TdRemoveProxy srt err, s\<lparr>cw_ws := CloseWsWriter (ctx (length srt - 1)) (cw_ws s)\<rparr>))"
| "transData_step wsw kstr fresh ctx now waited t conn fsd addr (TdRemoveProxy srt err, s) =
     (let i = length srt - 1
      in Some (TdCloseWriter (butlast srt) err,
               s\<lparr>cw_wscs := (cw_wscs s)[i := RemoveProxy (last srt) (cw_wscs s ! i)]\<rparr>))"
| "transData_step wsw kstr fresh ctx now waited t conn fsd addr (TdEnd err, s) = None"
| "transData_step wsw kstr fresh ctx now waited t conn fsd addr (TdCrash, s) = None"

text \<open>
  The end of the goroutine that copies from the local connection into the queue: \<open>err\<close> is what
  \<open>CopyBuffer\<close> returned; after an error the server is told to close the transfer.
\<close>

definition copy_request_end ::
  "('c, 'net) wsjson_write \<Rightarrow> (ksuid \<Rightarrow> string) \<Rightarrow> 'c WebSocketClient \<Rightarrow> ksuid \<Rightarrow> go_error option \<Rightarrow> 'net \<Rightarrow> 'net" where
  "copy_request_end wsw kstr masterWsc masterID err net =
     (if err \<noteq> None then snd (TellClose wsw kstr (wc_conn masterWsc) masterID net) else net)"

section \<open>localVisit\<close>

text \<open>
  A private target is dialled from the client and both directions are copied. The two copying
  goroutines work on different halves of the two connections, so they are run one after the other;
  \<open>Blocks\<close> while one of them has not returned. First data is refused with a panic.
\<close>

definition localVisit ::
  "(string \<Rightarrow> go_error + tcpconn) \<Rightarrow> tcpconn \<Rightarrow> bytes option \<Rightarrow> string \<Rightarrow>
     (go_error option \<times> tcpconn \<times> tcpconn option) outcome" where
  "localVisit Dial conn fsd addr =
     (case Dial addr of
        Inl err \<Rightarrow> Returns (Some err, conn, None)
      | Inr remote \<Rightarrow>
          if fsd \<noteq> None \<and> the fsd \<noteq> [] then Panics
          else (case CopyBuffer NewTcp () 0 conn (snd (conn_Write [] remote)) of
                  None \<Rightarrow> Blocks
                | Some (r1, conn1, remote1) \<Rightarrow>
                    (case CopyBuffer NewTcp () 0 remote1 conn1 of
                       None \<Rightarrow> Blocks
                     | Some (r2, remote2, conn2) \<Rightarrow>
                         Returns (None, conn2, Some (conn_Close remote2)))))"

section \<open>Client\<close>

text \<open>\<open>cl_active\<close> is the counter of the wait group; \<open>cl_listening\<close> the state of the listener.\<close>

record Client =
  cl_listening :: bool
  cl_stop_closed :: bool
  cl_closed :: bool
  cl_active :: nat

definition NewClient :: Client where
  "NewClient = \<lparr>cl_listening = False, cl_stop_closed = False, cl_closed = False, cl_active = 0\<rparr>"

text \<open>
  Closing the channel twice would panic. The second component: the call goes on to wait for the
  connections counted by the wait group.
\<close>

definition Client_Close :: "bool \<Rightarrow> Client \<Rightarrow> (Client \<times> bool) outcome" where
  "Client_Close wait cl =
     (if cl_closed cl then Returns (cl, False)
      else if cl_stop_closed cl then Panics
      else Returns (cl\<lparr>cl_stop_closed := True, cl_closed := True, cl_listening := False\<rparr>,
                    wait \<and> cl_active cl \<noteq> 0))"

text \<open>The reply to the application before any data flows.\<close>

definition proxy_reply :: "int \<Rightarrow> bytes" where
  "proxy_reply proxyType =
     (if proxyType = ProxyTypeSocks5 then [0x05, 0x00, 0x00, 0x01, 0x00, 0x00, 0x00, 0x00, 0x00, 0x00]
      else if proxyType = ProxyTypeHttps
      then map (\<lambda>c. of_char c)
        (''HTTP/1.0 200 Connection Established'' @ [CHR 0x0D, CHR 0x0A] @ ''Proxy-agent: wssocks''
         @ [CHR 0x0D, CHR 0x0A, CHR 0x0D, CHR 0x0A])
      else [])"

end
