(* ===== verification/Handshake.thy ===== *)
theory Handshake
  imports Link Queue
begin

text \<open>
  How a receiving side gets ready. The announcements of the connections (\<open>LinkHub.Add\<close>, one per
  connection, each arriving over its own WebSocket), the order of the connections (\<open>SetSort\<close>, with the
  establish message) and the target connection (\<open>TrySend\<close>, once it was dialled) come in any order,
  except that the target is dialled after the establish message. The hub starts \<open>Send\<close> exactly once,
  at the last of these events.
\<close>

section \<open>Events\<close>

datatype link_event =
    EvAdd ksuid
  | EvSort "ksuid list"
  | EvConn ref

fun link_event_step :: "instant \<Rightarrow> ksuid \<Rightarrow> link_event \<Rightarrow> LinkHub \<Rightarrow> LinkHub \<times> ref option" where
  "link_event_step now m (EvAdd i) h = LinkHub_Add now i m h"
| "link_event_step now m (EvSort srt) h = (LinkHub_SetSort now m srt h, None)"
| "link_event_step now m (EvConn c) h = LinkHub_TrySend m (Some c) h"

text \<open>The hub after the events, and what each of them started.\<close>

fun link_events :: "instant \<Rightarrow> ksuid \<Rightarrow> link_event list \<Rightarrow> LinkHub \<Rightarrow> LinkHub \<times> ref option list" where
  "link_events now m [] h = (h, [])"
| "link_events now m (e # es) h =
     (let (h1, go) = link_event_step now m e h; (h2, gos) = link_events now m es h1 in (h2, go # gos))"

text \<open>
  \<open>arrivals ids c todo srt conn es\<close>: the events \<open>es\<close> complete the handshake when the announcements of
  \<open>todo\<close> are outstanding, and \<open>srt\<close>, \<open>conn\<close> say whether the order and the target are there already.
\<close>

fun arrivals :: "ksuid list \<Rightarrow> ref \<Rightarrow> ksuid list \<Rightarrow> bool \<Rightarrow> bool \<Rightarrow> link_event list \<Rightarrow> bool" where
  "arrivals ids c todo srt conn [] \<longleftrightarrow> todo = [] \<and> srt \<and> conn"
| "arrivals ids c todo srt conn (EvAdd i # es) \<longleftrightarrow> i \<in> set todo \<and> arrivals ids c (remove1 i todo) srt conn es"
| "arrivals ids c todo srt conn (EvSort l # es) \<longleftrightarrow> l = ids \<and> \<not> srt \<and> arrivals ids c todo True conn es"
| "arrivals ids c todo srt conn (EvConn c' # es) \<longleftrightarrow>
     c' = c \<and> srt \<and> \<not> conn \<and> arrivals ids c todo srt True es"

section \<open>The state in between\<close>

definition master_link :: "ksuid \<Rightarrow> nat \<Rightarrow> ksuid list \<Rightarrow> ref option \<Rightarrow> link \<Rightarrow> bool" where
  "master_link m n srt conn q \<longleftrightarrow>
     (\<exists>t. q = (NewLink t m)\<lparr>l_counter := n, l_sorted := srt, l_conn := conn\<rparr>)"

lemma master_linkD:
  "master_link m n srt conn q \<Longrightarrow>
     l_counter q = n \<and> l_sorted q = srt \<and> l_conn q = conn \<and> l_status q = StaWait \<and>
     l_buffer q = makeBuffer \<and> \<not> l_done_closed q"
  by (auto simp: master_link_def NewLink_def)

lemma trySend_None:
  "gm_get (lh_links h) m = Some r \<Longrightarrow> LinkHub_trySend m None h =
     (h, if l_conn (lh_heap h r) \<noteq> None \<and> l_counter (lh_heap h r) = length (l_sorted (lh_heap h r))
         then Some r else None)"
  by (simp add: LinkHub_trySend_def Let_def)

definition member_link :: "ksuid \<Rightarrow> link \<Rightarrow> bool" where
  "member_link m q \<longleftrightarrow> (\<exists>t. q = NewLink t m)"

text \<open>
  Announcements of \<open>todo\<close> are outstanding; the master's link at \<open>r\<close> has counted the others, and those
  members have a link.
\<close>

definition gathered ::
  "ksuid \<Rightarrow> ksuid list \<Rightarrow> ksuid list \<Rightarrow> ksuid list \<Rightarrow> ref option \<Rightarrow> ref \<Rightarrow> LinkHub \<Rightarrow> bool" where
  "gathered m ids todo srt conn r h \<longleftrightarrow>
     lh_wf h \<and> distinct todo \<and> set todo \<subseteq> set ids \<and> length todo \<le> length ids \<and>
     gm_get (lh_links h) m = Some r \<and>
     master_link m (length ids - length todo) srt conn (lh_heap h r) \<and>
     (\<forall>i\<in>set ids - {m} - set todo. \<exists>r'. gm_get (lh_links h) i = Some r' \<and> member_link m (lh_heap h r')) \<and>
     (\<forall>i\<in>set todo - {m}. gm_get (lh_links h) i = None)"

text \<open>None of the identifiers is known to the hub.\<close>

definition unseen :: "ksuid list \<Rightarrow> LinkHub \<Rightarrow> bool" where
  "unseen ids h \<longleftrightarrow> lh_wf h \<and> (\<forall>i\<in>set ids. gm_get (lh_links h) i = None)"

lemma gathered_start:
  assumes "unseen ids h" and "distinct ids" and "m \<in> set ids"
  shows "gathered m ids ids [] None (lh_next h) (lh_ensure now m m h)"
proof -
  have "gm_get (lh_links h) m = None" using assms by (simp add: unseen_def)
  then have "lh_ensure now m m h = lh_create now m m h" by (simp add: lh_ensure_def)
  with assms show ?thesis
    by (auto simp: gathered_def unseen_def master_link_def lh_wf_create NewLink_def)
qed

lemma lh_ensure_present: "gm_get (lh_links h) i = Some r \<Longrightarrow> lh_ensure now i m h = h"
  by (simp add: lh_ensure_def)

lemma ensure_event:
  assumes "\<forall>c. e \<noteq> EvConn c"
  shows "link_event_step now m e (lh_ensure now m m h) = link_event_step now m e h"
proof -
  have "lh_ensure now m m (lh_ensure now m m h) = lh_ensure now m m h"
    using lh_ensure_Some [of now m m h] lh_ensure_present by auto
  with assms show ?thesis
    by (cases e) (simp_all add: LinkHub_Add_def LinkHub_SetSort_def Let_def)
qed

lemma gathered_add:
  assumes g: "gathered m ids todo srt conn r h" and i: "i \<in> set todo"
  shows "\<exists>h'. LinkHub_Add now i m h =
      (h', if conn \<noteq> None \<and> Suc (length ids - length todo) = length srt then Some r else None) \<and>
    gathered m ids (remove1 i todo) srt conn r h'"
proof -
  define h2 where "h2 = lh_ensure now i m h"
  define h3 where "h3 = lh_update r (\<lambda>q. q\<lparr>l_counter := Suc (l_counter q)\<rparr>) h2"
  have m: "gm_get (lh_links h) m = Some r" and wf: "lh_wf h" and r: "r < lh_next h"
    using g lh_wfD [of h m r] by (auto simp: gathered_def)
  have old: "lh_heap h2 r' = lh_heap h r'" if "gm_get (lh_links h) j = Some r'" for j r'
    using lh_wfD [OF wf that] by (simp add: h2_def lh_ensure_def)
  have m2: "gm_get (lh_links h2) m = Some r" by (simp add: h2_def lh_ensure_other [OF m])
  have wf3: "lh_wf h3"
    unfolding h3_def h2_def by (intro lh_wf_update lh_wf_ensure wf) (simp add: link_live_def)
  have new: "\<exists>r'. gm_get (lh_links h2) i = Some r' \<and> (i \<noteq> m \<longrightarrow> member_link m (lh_heap h2 r'))"
    using g i m2 by (cases "i = m") (auto simp: gathered_def h2_def lh_ensure_def member_link_def)
  have other: "gm_get (lh_links h2) j = gm_get (lh_links h) j" if "j \<noteq> i" for j
    using that by (simp add: h2_def lh_ensure_def)
  have "length (remove1 i todo) = length todo - 1" using i by (simp add: length_remove1)
  then have len: "length ids - length (remove1 i todo) = Suc (length ids - length todo)"
    using g length_pos_if_in_set [OF i] unfolding gathered_def by linarith
  have master: "master_link m (Suc (length ids - length todo)) srt conn (lh_heap h3 r)"
    using g old [OF m] by (auto simp: gathered_def h3_def master_link_def NewLink_def)
  have inj: "r' \<noteq> r" if "gm_get (lh_links h2) j = Some r'" "j \<noteq> m" for j r'
    using lh_wf_inj [OF lh_wf_ensure [OF wf], of now i m j r' m] that m2 by (auto simp: h2_def)
  have "\<exists>r'. gm_get (lh_links h3) j = Some r' \<and> member_link m (lh_heap h3 r')"
    if "j \<in> set ids - {m} - set (remove1 i todo)" for j
  proof (cases "j = i")
    case True
    with new inj that show ?thesis by (auto simp: h3_def)
  next
    case False
    with that have "j \<in> set ids - {m} - set todo" using g by (auto simp: gathered_def)
    with g obtain r' where "gm_get (lh_links h) j = Some r'" "member_link m (lh_heap h r')"
      unfolding gathered_def by blast
    with inj [of j r'] old other False that show ?thesis by (auto simp: h3_def)
  qed
  then have "gathered m ids (remove1 i todo) srt conn r h3"
    using g wf3 master m2 other len
    by (auto simp: gathered_def h3_def length_remove1 dest: notin_set_remove1)
  moreover have "LinkHub_Add now i m h = LinkHub_trySend m None h3"
    by (simp add: LinkHub_Add_def Let_def lh_ensure_present [OF m] m h2_def h3_def)
  moreover have "gm_get (lh_links h3) m = Some r" using m2 by (simp add: h3_def)
  ultimately show ?thesis
    using trySend_None [of h3 m r] master_linkD [OF master] by auto
qed

lemma gathered_update:
  assumes g: "gathered m ids todo srt conn r h"
    and f: "master_link m (length ids - length todo) srt' conn' (f (lh_heap h r))"
  shows "gathered m ids todo srt' conn' r (lh_update r f h)"
proof -
  have wf: "lh_wf h" and m: "gm_get (lh_links h) m = Some r" using g by (simp_all add: gathered_def)
  have "r' \<noteq> r" if "gm_get (lh_links h) j = Some r'" "j \<noteq> m" for j r'
    using lh_wf_inj [OF wf m, of j] that by auto
  moreover have "lh_wf (lh_update r f h)"
    using wf f by (intro lh_wf_update) (auto simp: master_link_def link_live_def NewLink_def)
  ultimately show ?thesis
    using g f unfolding gathered_def by fastforce
qed

lemma gathered_sort:
  assumes "gathered m ids todo srt conn r h"
  shows "gathered m ids todo l conn r (LinkHub_SetSort now m l h)"
proof -
  have "gm_get (lh_links h) m = Some r" using assms by (simp add: gathered_def)
  then have "LinkHub_SetSort now m l h = lh_update r (link_SetSort l) h"
    by (simp add: LinkHub_SetSort_def lh_ensure_present Let_def)
  moreover have "master_link m (length ids - length todo) l conn (link_SetSort l (lh_heap h r))"
    using assms by (auto simp: gathered_def master_link_def link_SetSort_def NewLink_def)
  ultimately show ?thesis using gathered_update [OF assms] by simp
qed

lemma gathered_conn:
  assumes "gathered m ids todo srt conn r h"
  shows "\<exists>h'. LinkHub_TrySend m (Some c) h =
      (h', if length ids - length todo = length srt then Some r else None) \<and>
    gathered m ids todo srt (Some c) r h'"
proof -
  have m: "gm_get (lh_links h) m = Some r"
      and q: "master_link m (length ids - length todo) srt conn (lh_heap h r)"
    using assms by (simp_all add: gathered_def)
  have "gathered m ids todo srt (Some c) r (lh_update r (link_SetConn (Some c)) h)"
    using assms q by (auto intro!: gathered_update simp: master_link_def link_SetConn_def)
  with m q show ?thesis
    by (intro exI [of _ "lh_update r (link_SetConn (Some c)) h"])
      (auto simp: LinkHub_TrySend_def LinkHub_trySend_def Let_def master_link_def link_SetConn_def)
qed

section \<open>Send is started once\<close>

lemma arrivals_done: "arrivals ids c [] True True es \<Longrightarrow> es = []"
  by (cases "(ids, c, [] :: ksuid list, True, True, es)" rule: arrivals.cases) auto

lemma remove1_last:
  assumes "i \<in> set todo" and "length todo \<le> k"
  shows "remove1 i todo = [] \<longleftrightarrow> Suc (k - length todo) = k"
proof -
  have "remove1 i todo = [] \<longleftrightarrow> length todo - 1 = 0"
    using assms(1) by (metis length_0_conv length_remove1)
  then show ?thesis using assms(2) length_pos_if_in_set [OF assms(1)] by linarith
qed

lemma link_events_gathered:
  assumes "gathered m ids todo (if s then ids else []) (if cn then Some c else None) r h"
    and "arrivals ids c todo s cn es" and "es \<noteq> []" and "cn \<longrightarrow> s" and "ids \<noteq> []"
  shows "\<exists>h'. link_events now m es h = (h', replicate (length es - 1) None @ [Some r]) \<and>
    gathered m ids [] ids (Some c) r h'"
  using assms
proof (induction es arbitrary: todo s cn h)
  case Nil
  then show ?case by simp
next
  case (Cons e es)
  let ?srt = "if s then ids else []" and ?conn = "if cn then Some c else None"
  have len: "length todo \<le> length ids" using Cons.prems(1) by (simp add: gathered_def)
  obtain todo' s' cn' h1 go where st: "link_event_step now m e h = (h1, go)"
      and g: "gathered m ids todo' (if s' then ids else []) (if cn' then Some c else None) r h1"
      and ar: "arrivals ids c todo' s' cn' es" and ord: "cn' \<longrightarrow> s'"
      and go: "go = (if s' \<and> cn' \<and> todo' = [] then Some r else None)"
  proof (cases e)
    case (EvAdd i)
    with Cons.prems have i: "i \<in> set todo" and ar: "arrivals ids c (remove1 i todo) s cn es" by auto
    from gathered_add [OF Cons.prems(1) i] obtain h1 where
        "LinkHub_Add now i m h = (h1, if ?conn \<noteq> None \<and> Suc (length ids - length todo) = length ?srt then Some r else None)"
        "gathered m ids (remove1 i todo) ?srt ?conn r h1"
      by blast
    moreover note remove1_last [OF i len]
    ultimately show ?thesis
      using that [of h1 _ "remove1 i todo" s cn] ar EvAdd Cons.prems(4) by auto
  next
    case (EvSort l)
    with Cons.prems have "l = ids" "\<not> s" "\<not> cn" "arrivals ids c todo True cn es" by auto
    with gathered_sort [OF Cons.prems(1), of ids now] EvSort show ?thesis
      using that [of "LinkHub_SetSort now m ids h" None todo True False] by simp
  next
    case (EvConn c')
    with Cons.prems have e: "c' = c" "s" "\<not> cn" "arrivals ids c todo s True es" by auto
    moreover have "todo = [] \<longleftrightarrow> length ids - length todo = length ids"
      using len \<open>ids \<noteq> []\<close> by (cases todo) auto
    ultimately show ?thesis
      using that [of _ _ todo True True] gathered_conn [OF Cons.prems(1), of c] EvConn by auto
  qed
  show ?case
  proof (cases "es = []")
    case True
    with ar have "todo' = []" "s'" "cn'" by auto
    with st go g True show ?thesis by simp
  next
    case False
    then have "go = None" using go ar arrivals_done [of ids c es] by auto
    moreover from Cons.IH [OF g ar False ord \<open>ids \<noteq> []\<close>] obtain h' where
        "link_events now m es h1 = (h', replicate (length es - 1) None @ [Some r])"
        "gathered m ids [] ids (Some c) r h'"
      by blast
    ultimately show ?thesis using st False by (cases es) (auto simp: Let_def)
  qed
qed

lemma link_events_start:
  assumes "unseen ids h" and "distinct ids" and "m \<in> set ids" and "arrivals ids c ids False False es"
  shows "\<exists>h'. link_events now m es h = (h', replicate (length es - 1) None @ [Some (lh_next h)]) \<and>
    gathered m ids [] ids (Some c) (lh_next h) h'"
proof -
  obtain e es' where es: "es = e # es'" using assms(4) by (cases es) auto
  then have e: "\<forall>c. e \<noteq> EvConn c" using assms(4) by (cases e) auto
  have "link_events now m es h = link_events now m es (lh_ensure now m m h)"
    unfolding es by (simp add: ensure_event [OF e])
  moreover have "\<exists>h'. link_events now m es (lh_ensure now m m h) =
      (h', replicate (length es - 1) None @ [Some (lh_next h)]) \<and> gathered m ids [] ids (Some c) (lh_next h) h'"
    using gathered_start [OF assms(1-3), of now] assms(3,4) es
    by (intro link_events_gathered [of m ids ids False False]) auto
  ultimately show ?thesis by simp
qed

section \<open>Properties\<close>

text \<open>
  C5. The receiving side starts \<open>link.Send\<close> exactly once, at the last event of the handshake and on
  the master's link, in whatever order the announcements of the connections, the establish message
  and the dialled target arrive. At that moment the master's link holds the order and the target.
\<close>

theorem link_send_started_once:
  assumes "unseen ids h" and "distinct ids" and "m \<in> set ids"
    and "arrivals ids c ids False False es"
  shows "\<exists>h' r. link_events now m es h = (h', replicate (length es - 1) None @ [Some r]) \<and>
    LinkHub_Get m h' = Some r \<and> l_sorted (lh_heap h' r) = ids \<and> l_conn (lh_heap h' r) = Some c \<and>
    l_counter (lh_heap h' r) = length ids \<and> (\<forall>i\<in>set ids. LinkHub_Get i h' \<noteq> None)"
proof -
  obtain h' where e: "link_events now m es h = (h', replicate (length es - 1) None @ [Some (lh_next h)])"
      and g: "gathered m ids [] ids (Some c) (lh_next h) h'"
    using link_events_start [OF assms] by blast
  have "LinkHub_Get i h' \<noteq> None" if "i \<in> set ids" for i
    using g that by (cases "i = m") (auto simp: gathered_def LinkHub_Get_def)
  with e g show ?thesis
    by (intro exI [of _ h'] exI [of _ "lh_next h"])
      (auto simp: gathered_def LinkHub_Get_def dest: master_linkD)
qed

theorem link_send_started_once_witness:
  "\<exists>h' r. link_events 0 1 [EvAdd 2, EvAdd 1, EvSort [1, 2], EvConn 5] NewLinkHub =
      (h', [None, None, None, Some r]) \<and> LinkHub_Get 1 h' = Some r \<and> l_conn (lh_heap h' r) = Some 5"
proof -
  let ?es = "[EvAdd 2, EvAdd 1, EvSort [1, 2], EvConn 5]"
  have "unseen [1, 2] NewLinkHub" "arrivals [1, 2] 5 [1, 2] False False ?es"
    by (simp_all add: unseen_def)
  from link_send_started_once [OF this(1) _ _ this(2), of 1 0] show ?thesis
    by (auto simp del: link_events.simps)
qed

end
