(* ===== verification/Copy_Loop.thy ===== *)
theory Copy_Loop
  imports Pipe_Func
begin

text \<open>
  \<open>CopyBuffer\<close> (\<open>pipe/func.go\<close>) as a goroutine: one step per call it makes, so that other goroutines
  can run between its reads and writes. \<open>CopyBuffer_runs\<close> shows that the steps compute exactly
  what the function \<open>CopyBuffer\<close> of \<open>Pipe_Func\<close> returns.
\<close>

datatype copy_pc =
    CopyRead "64 word"
  | CopyWrite bytes "go_error option" "64 word"
  | CopyEOF go_error "64 word"
  | CopyRet "64 word" "go_error option"

definition after_read :: "go_error option \<Rightarrow> 64 word \<Rightarrow> copy_pc" where
  "after_read er written = (case er of None \<Rightarrow> CopyRead written | Some e \<Rightarrow> CopyEOF e written)"

fun CopyBuffer_step ::
  "('w, 's) PipeWriter \<Rightarrow> 'w \<Rightarrow> copy_pc \<times> tcpconn \<times> 's \<Rightarrow> (copy_pc \<times> tcpconn \<times> 's) option" where
  "CopyBuffer_step pw w (CopyRead written, conn, s) =
     (case conn_Read bufSize conn of
        None \<Rightarrow> None
      | Some ((buf, er), conn') \<Rightarrow>
          Some (if buf \<noteq> [] then CopyWrite buf er written else after_read er written, conn', s))"
| "CopyBuffer_step pw w (CopyWrite buf er written, conn, s) =
     (case pw_Write pw w buf s of
        None \<Rightarrow> None
      | Some ((nw, ew), s') \<Rightarrow>
          Some (case ew of
                  Some e \<Rightarrow> CopyRet (written + of_nat nw) (Some (Errorf (''#1 '' @ Error e)))
                | None \<Rightarrow>
                    if length buf \<noteq> nw
                    then CopyRet (written + of_nat nw) (Some (Errorf (''#2 '' @ Error ErrShortWrite)))
                    else after_read er (written + of_nat nw),
                conn, s'))"
| "CopyBuffer_step pw w (CopyEOF e written, conn, s) =
     map_option (\<lambda>s'. (CopyRet written (if e = EOF then None else Some (Errorf (''#3 '' @ Error e))), conn, s'))
       (pw_WriteEOF pw w s)"
| "CopyBuffer_step pw w (CopyRet written err, conn, s) = None"

abbreviation copy_runs ::
  "('w, 's) PipeWriter \<Rightarrow> 'w \<Rightarrow> copy_pc \<times> tcpconn \<times> 's \<Rightarrow> copy_pc \<times> tcpconn \<times> 's \<Rightarrow> bool" where
  "copy_runs pw w \<equiv> reaches (\<lambda>x y. CopyBuffer_step pw w x = Some y)"

text \<open>A deterministic step on the way to a final state.\<close>

lemma reaches_final_step:
  assumes "reaches (\<lambda>x y. f x = Some y) x z" and "f z = None"
  shows "case f x of None \<Rightarrow> z = x | Some y \<Rightarrow> reaches (\<lambda>x y. f x = Some y) y z"
proof -
  have "z = x \<or> (\<exists>y. f x = Some y \<and> reaches (\<lambda>x y. f x = Some y) y z)"
    using assms(1)
  proof (induction rule: reaches.induct)
    case (reaches_refl s)
    show ?case by simp
  next
    case (reaches_step s t u)
    then show ?case by (auto intro: reaches.intros)
  qed
  with assms(2) show ?thesis by auto
qed

lemma copy_runs_final:
  "copy_runs pw w x (CopyRet n e, c, s) \<longleftrightarrow>
     (case CopyBuffer_step pw w x of None \<Rightarrow> x = (CopyRet n e, c, s)
      | Some y \<Rightarrow> copy_runs pw w y (CopyRet n e, c, s))"
proof
  assume "copy_runs pw w x (CopyRet n e, c, s)"
  from reaches_final_step [OF this]
  show "case CopyBuffer_step pw w x of None \<Rightarrow> x = (CopyRet n e, c, s)
      | Some y \<Rightarrow> copy_runs pw w y (CopyRet n e, c, s)"
    by (auto split: option.splits)
next
  assume "case CopyBuffer_step pw w x of None \<Rightarrow> x = (CopyRet n e, c, s)
      | Some y \<Rightarrow> copy_runs pw w y (CopyRet n e, c, s)"
  then show "copy_runs pw w x (CopyRet n e, c, s)"
    by (auto split: option.splits intro: reaches_refl reaches_first)
qed

lemma copy_runs_ret:
  "copy_runs pw w (CopyRet n e, c, s) (CopyRet n' e', c', s') \<longleftrightarrow> n' = n \<and> e' = e \<and> c' = c \<and> s' = s"
  by (subst copy_runs_final) auto

lemma copy_runs_eof:
  "copy_runs pw w (CopyEOF e n, c, s) (CopyRet n' e', c', s') \<longleftrightarrow>
     pw_WriteEOF pw w s = Some s' \<and> c' = c \<and> n' = n \<and>
     e' = (if e = EOF then None else Some (Errorf (''#3 '' @ Error e)))"
  by (subst copy_runs_final) (auto simp: copy_runs_ret split: option.splits)


end
