(* ===== verification/Tunnel.thy ===== *)
theory Tunnel
  imports Queue Link Ws_Writer Copy_Loop
begin

text \<open>
  One direction of a transfer, end to end: \<open>CopyBuffer\<close> reads the source connection into a queue,
  \<open>queue.Send\<close> deals the chunks to the WebSocket connections in turn, the receive loop of each
  connection files them in the link of its identifier, and \<open>link.Send\<close> reads the links in turn and
  writes to the target connection. All four run concurrently; \<open>tunnel_step\<close> is one step of any of
  them. \<open>recv\<close> is the receive loop's handler, a parameter: the same relation is the upload (the
  server's \<open>dispatchDataMessage\<close>) and the download (the client's \<open>ListenIncomeMsg\<close>).

  The five-minute timers do not fire in this relation. The invariant \<open>tunnel_inv\<close> says where every
  byte of the source is; its consequences are that the target sees a prefix of the source at all
  times, that no state is stuck before everything was delivered, and that every run is finite.
\<close>

section \<open>The relation\<close>

record 'c tunnel =
  t_copy :: copy_pc
  t_src :: tcpconn
  t_qpc :: "'c webSocketWriter send_pc"
  t_q :: "'c webSocketWriter queue"
  t_ws :: "'c lanes ws_world"
  t_lpc :: "ref send_pc"
  t_lh :: LinkHub
  t_conns :: "ref \<Rightarrow> tcpconn"

type_synonym 'c receiver = "'c \<Rightarrow> json \<Rightarrow> LinkHub \<Rightarrow> LinkHub option"

inductive tunnel_step ::
  "(ksuid \<Rightarrow> string) \<Rightarrow> 'c receiver \<Rightarrow> ref \<Rightarrow> 'c tunnel \<Rightarrow> 'c tunnel \<Rightarrow> bool"
  for kstr recv me where
  ts_copy: "CopyBuffer_step (queue_PW False) () (t_copy t, t_src t, t_q t) = Some (pc, src, q) \<Longrightarrow>
     tunnel_step kstr recv me t (t\<lparr>t_copy := pc, t_src := src, t_q := q\<rparr>)"
| ts_send: "queue_Send_step (wsWriter_PW lanes_Write kstr) False waiter (t_qpc t, t_q t, t_ws t) = Some (pc, q, ws) \<Longrightarrow>
     tunnel_step kstr recv me t (t\<lparr>t_qpc := pc, t_q := q, t_ws := ws\<rparr>)"
| ts_recv: "wv_net (t_ws t) c = doc # docs \<Longrightarrow> recv c doc (t_lh t) = Some lh \<Longrightarrow>
     tunnel_step kstr recv me t
       (t\<lparr>t_ws := (t_ws t)\<lparr>wv_net := (wv_net (t_ws t))(c := docs)\<rparr>, t_lh := lh\<rparr>)"
| ts_write: "link_Send_step False waiter me (t_lpc t, t_lh t, t_conns t) = Some (pc, lh, conns) \<Longrightarrow>
     tunnel_step kstr recv me t (t\<lparr>t_lpc := pc, t_lh := lh, t_conns := conns\<rparr>)"

inductive_cases tunnel_stepE: "tunnel_step kstr recv me t t'"

section \<open>Program counters of the two Send goroutines\<close>

fun pc_status :: "'w send_pc \<Rightarrow> status" where
  "pc_status SendEntry = StaWait"
| "pc_status SendInit = StaWait"
| "pc_status (SendSignal r) = StaDone"
| "pc_status (SendCloseDone r) = StaDone"
| "pc_status (SendExit r) = StaDone"
| "pc_status _ = StaSend"

fun pc_exited :: "'w send_pc \<Rightarrow> bool" where
  "pc_exited (SendExit r) = True"
| "pc_exited _ = False"

fun pc_ended :: "'w send_pc \<Rightarrow> bool" where
  "pc_ended (SendReturn r) = True"
| "pc_ended (SendSignal r) = True"
| "pc_ended (SendCloseDone r) = True"
| "pc_ended (SendExit r) = True"
| "pc_ended _ = False"

text \<open>The lane of the next chunk to take (\<open>lpos\<close>, reader) or to put (\<open>qpos\<close>, writer), out of \<open>k\<close>.\<close>

fun lpos :: "nat \<Rightarrow> 'w send_pc \<Rightarrow> nat" where
  "lpos k (SendIter r) = (k - length r) mod k"
| "lpos k (SendRead w r) = k - Suc (length r)"
| "lpos k (SendPut w b r) = (k - length r) mod k"
| "lpos k _ = 0"

fun qpos :: "nat \<Rightarrow> 'w send_pc \<Rightarrow> nat" where
  "qpos k (SendIter r) = (k - length r) mod k"
| "qpos k (SendRead w r) = k - Suc (length r)"
| "qpos k (SendPut w b r) = k - Suc (length r)"
| "qpos k _ = 0"

fun in_hand :: "'w send_pc \<Rightarrow> buffer list" where
  "in_hand (SendPut w b r) = [b]"
| "in_hand _ = []"

fun pc_wf :: "ksuid list \<Rightarrow> (ksuid \<Rightarrow> 'w option) \<Rightarrow> 'w send_pc \<Rightarrow> bool" where
  "pc_wf ids look (SendIter r) = (\<exists>n\<le>length ids. r = drop n ids)"
| "pc_wf ids look (SendRead w r) = (\<exists>n<length ids. r = drop (Suc n) ids \<and> w = look (ids ! n))"
| "pc_wf ids look (SendPut w b r) = (\<exists>n<length ids. r = drop (Suc n) ids \<and> w = look (ids ! n))"
| "pc_wf ids look (SendReturn r) = (r = None)"
| "pc_wf ids look (SendSignal r) = (r = None)"
| "pc_wf ids look (SendCloseDone r) = (r = None)"
| "pc_wf ids look (SendExit r) = (r = None)"
| "pc_wf ids look SendCrash = False"
| "pc_wf ids look _ = True"

fun copy_hand :: "copy_pc \<Rightarrow> buffer list" where
  "copy_hand (CopyWrite d er n) = [data_buffer d]"
| "copy_hand (CopyEOF e n) = [eof_buffer]"
| "copy_hand _ = []"

fun copy_fin :: "copy_pc \<Rightarrow> bool" where
  "copy_fin (CopyEOF e n) = True"
| "copy_fin (CopyRet n e) = True"
| "copy_fin _ = False"

fun copy_done :: "copy_pc \<Rightarrow> bool" where
  "copy_done (CopyRet n e) = True"
| "copy_done _ = False"

fun copy_wf :: "copy_pc \<Rightarrow> bool" where
  "copy_wf (CopyWrite d er n) = (er = None)"
| "copy_wf _ = True"

section \<open>The invariant\<close>

text \<open>The frame a chunk travels in on the connection of identifier \<open>i\<close>.\<close>

definition frame_of :: "(ksuid \<Rightarrow> string) \<Rightarrow> ksuid \<Rightarrow> buffer \<Rightarrow> json" where
  "frame_of kstr i b =
     enc_message kstr (data_message kstr i (if b_eof b then TagEOF else TagData) (b_data b))"

text \<open>An end marker carries no data; it comes last.\<close>

definition good_buf :: "buffer \<Rightarrow> bool" where
  "good_buf b \<longleftrightarrow> (b_eof b \<longrightarrow> b_data b = [])"

definition eof_last :: "buffer list \<Rightarrow> bool" where
  "eof_last bs \<longleftrightarrow> bs = [] \<or> (\<exists>ds. bs = ds @ [eof_buffer] \<and> (\<forall>b\<in>set ds. \<not> b_eof b))"

text \<open>
  What a transfer is about: the identifiers in order, the connection of each, the link of each on
  the receiving side, the target, the bytes the source will yield, and the error that ends them.
\<close>

record 'c route =
  rt_ids :: "ksuid list"
  rt_conn :: "ksuid \<Rightarrow> 'c"
  rt_link :: "nat \<Rightarrow> ref"
  rt_target :: ref
  rt_input :: bytes
  rt_end :: "go_error option"

definition route_ok :: "('c \<Rightarrow> ksuid \<Rightarrow> bool) \<Rightarrow> 'c route \<Rightarrow> bool" where
  "route_ok accepts rt \<longleftrightarrow>
     rt_ids rt \<noteq> [] \<and> distinct (rt_ids rt) \<and> inj_on (rt_conn rt) (set (rt_ids rt)) \<and>
     inj_on (rt_link rt) {..<length (rt_ids rt)} \<and>
     (\<forall>i\<in>set (rt_ids rt). accepts (rt_conn rt i) i)"

definition queue_ok ::
  "'c route \<Rightarrow> 'c lanes ws_world \<Rightarrow> 'c webSocketWriter send_pc \<Rightarrow> 'c webSocketWriter queue \<Rightarrow> bool" where
  "queue_ok rt ws pc q \<longleftrightarrow>
     q_sorted q = rt_ids rt \<and> q_status q = pc_status pc \<and> q_done_closed q = pc_exited pc \<and>
     \<not> ch_closed (q_buffer q) \<and> ch_cap (q_buffer q) = 10 \<and>
     (\<forall>i\<in>set (rt_ids rt). \<exists>w. gm_get (q_writers q) i = Some w \<and>
        wr_WSC w = rt_conn rt i \<and> wr_Id w = i \<and> Ctx_Err w ws = None) \<and>
     pc_wf (rt_ids rt) (gm_get (q_writers q)) pc"

definition link_ok :: "status \<Rightarrow> link \<Rightarrow> bool" where
  "link_ok st q \<longleftrightarrow> \<not> ch_closed (l_buffer q) \<and> ch_cap (l_buffer q) = 10 \<and> l_status q = st"

definition links_ok :: "'c route \<Rightarrow> ref send_pc \<Rightarrow> LinkHub \<Rightarrow> bool" where
  "links_ok rt pc h \<longleftrightarrow>
     (\<forall>n<length (rt_ids rt). gm_get (lh_links h) (rt_ids rt ! n) = Some (rt_link rt n) \<and>
        link_ok (if n = 0 then pc_status pc else StaWait) (lh_heap h (rt_link rt n))) \<and>
     l_sorted (lh_heap h (rt_link rt 0)) = rt_ids rt \<and>
     l_conn (lh_heap h (rt_link rt 0)) = Some (rt_target rt) \<and>
     l_done_closed (lh_heap h (rt_link rt 0)) = pc_exited pc \<and>
     pc_wf (rt_ids rt) (\<lambda>i. LinkHub_Get i h) pc"

definition target_ok :: "'c route \<Rightarrow> ref send_pc \<Rightarrow> (ref \<Rightarrow> tcpconn) \<Rightarrow> bool" where
  "target_ok rt pc conns \<longleftrightarrow>
     \<not> conn_closed (conns (rt_target rt)) \<and> tx_script (conns (rt_target rt)) = [] \<and>
     wr_closed (conns (rt_target rt)) = pc_ended pc"

text \<open>
  \<open>mid\<close> lists, in order, the chunks between the two Send goroutines: each lane has its share of
  them, first in the link, then on the connection.
\<close>

definition lane_ok ::
  "(ksuid \<Rightarrow> string) \<Rightarrow> ksuid \<Rightarrow> json list \<Rightarrow> buffer list \<Rightarrow> buffer list \<Rightarrow> bool" where
  "lane_ok kstr i net buf share \<longleftrightarrow> (\<exists>nb. net = map (frame_of kstr i) nb \<and> buf @ nb = share)"

definition lanes_ok ::
  "(ksuid \<Rightarrow> string) \<Rightarrow> 'c route \<Rightarrow> nat \<Rightarrow> buffer list \<Rightarrow> 'c lanes \<Rightarrow> LinkHub \<Rightarrow> bool" where
  "lanes_ok kstr rt p mid net h \<longleftrightarrow>
     (\<forall>n<length (rt_ids rt).
        lane_ok kstr (rt_ids rt ! n) (net (rt_conn rt (rt_ids rt ! n)))
          (ch_buf (l_buffer (lh_heap h (rt_link rt n)))) (lane (length (rt_ids rt)) n p mid)) \<and>
     (\<forall>c. c \<notin> rt_conn rt ` set (rt_ids rt) \<longrightarrow> net c = [])"

text \<open>The chunks under way, from the target back to the source.\<close>

definition pending :: "buffer list \<Rightarrow> 'c tunnel \<Rightarrow> buffer list" where
  "pending mid t =
     in_hand (t_lpc t) @ mid @ in_hand (t_qpc t) @ ch_buf (q_buffer (t_q t)) @ copy_hand (t_copy t)"

text \<open>
  What was written, the chunks \<open>bs\<close> under way and what the source still has make up the input; the end
  marker appears once the source is exhausted, and last.
\<close>

definition flow_ok :: "'c route \<Rightarrow> bytes \<Rightarrow> buffer list \<Rightarrow> copy_pc \<Rightarrow> tcpconn \<Rightarrow> bool" where
  "flow_ok rt out bs pc src \<longleftrightarrow>
     out @ concat (map b_data bs) @ (if copy_fin pc then [] else incoming src) = rt_input rt \<and>
     (\<forall>b\<in>set bs. good_buf b) \<and> (copy_fin pc \<longrightarrow> eof_last bs) \<and>
     (\<not> copy_fin pc \<longrightarrow> (\<forall>b\<in>set bs. \<not> b_eof b) \<and> incoming_end src = rt_end rt) \<and>
     copy_wf pc"

definition stream_ok :: "'c route \<Rightarrow> buffer list \<Rightarrow> 'c tunnel \<Rightarrow> bool" where
  "stream_ok rt mid t \<longleftrightarrow>
     flow_ok rt (tx (t_conns t (rt_target rt))) (pending mid t) (t_copy t) (t_src t) \<and>
     pc_ended (t_qpc t) =
       (copy_done (t_copy t) \<and> in_hand (t_qpc t) = [] \<and> ch_buf (q_buffer (t_q t)) = []) \<and>
     pc_ended (t_lpc t) = (copy_done (t_copy t) \<and> pending mid t = []) \<and>
     (\<not> pc_ended (t_qpc t) \<longrightarrow>
        qpos (length (rt_ids rt)) (t_qpc t) =
          (lpos (length (rt_ids rt)) (t_lpc t) + length mid) mod length (rt_ids rt))"

definition tunnel_inv ::
  "('c \<Rightarrow> ksuid \<Rightarrow> bool) \<Rightarrow> (ksuid \<Rightarrow> string) \<Rightarrow> 'c route \<Rightarrow> 'c tunnel \<Rightarrow> bool" where
  "tunnel_inv accepts kstr rt t \<longleftrightarrow>
     route_ok accepts rt \<and> queue_ok rt (t_ws t) (t_qpc t) (t_q t) \<and>
     links_ok rt (t_lpc t) (t_lh t) \<and> target_ok rt (t_lpc t) (t_conns t) \<and>
     (\<exists>mid. lanes_ok kstr rt (lpos (length (rt_ids rt)) (t_lpc t)) mid (wv_net (t_ws t)) (t_lh t) \<and>
        stream_ok rt mid t)"

end
