(* ===== verification/Tunnel_Inv.thy ===== *)
theory Tunnel_Inv
  imports Tunnel
begin

text \<open>
  Every step of \<open>tunnel_step\<close> keeps \<open>tunnel_inv\<close>: one lemma per goroutine. The receive loop's handler
  enters through the locale \<open>frame_receiver\<close>, the contract both receivers honour: a data frame is
  filed as the chunk it was made from.
\<close>

section \<open>Facts on lanes and program counters\<close>

lemma lane_mod: "lane k i (p mod k) xs = lane k i p xs"
proof (induction xs arbitrary: p)
  case Nil
  show ?case by simp
next
  case (Cons x xs)
  have "lane k i (Suc (p mod k)) xs = lane k i (Suc (p mod k) mod k) xs"
    by (rule Cons.IH [symmetric])
  also have "\<dots> = lane k i (Suc p) xs"
    by (simp only: mod_Suc_eq Cons.IH)
  finally show ?case by (simp only: lane.simps mod_mod_trivial)
qed

lemma pc_status_done: "pc_status pc = StaDone \<Longrightarrow> pc_ended pc"
  by (cases pc) auto

lemma in_hand_ended: "pc_ended pc \<Longrightarrow> in_hand pc = []"
  by (cases pc) auto

lemma pc_exited_ended: "pc_exited pc \<Longrightarrow> pc_ended pc"
  by (cases pc) auto

lemma eof_lastD: "eof_last (b # bs) \<Longrightarrow> b_eof b = (bs = [])"
  by (cases bs) (auto simp: eof_last_def append_eq_Cons_conv Cons_eq_append_conv)

lemma eof_last_tl: "eof_last (b # bs) \<Longrightarrow> eof_last bs"
  by (auto simp: eof_last_def Cons_eq_append_conv)

lemma eof_last_mid: "eof_last (xs @ b # ys) \<Longrightarrow> b_eof b = (ys = [])"
  by (induction xs) (auto dest: eof_lastD eof_last_tl)

lemma eof_last_snoc: "(\<forall>b\<in>set bs. \<not> b_eof b) \<Longrightarrow> eof_last (bs @ [eof_buffer])"
  by (auto simp: eof_last_def)

lemma good_eof: "good_buf b \<Longrightarrow> b_eof b \<Longrightarrow> b = eof_buffer"
  by (cases b) (simp add: good_buf_def eof_buffer_def)

lemma good_data: "\<not> b_eof b \<Longrightarrow> b = data_buffer (b_data b)"
  by (cases b) (simp add: data_buffer_def)

lemma good_buf_simps [simp]: "good_buf (data_buffer d)" "good_buf eof_buffer"
  by (simp_all add: good_buf_def)

section \<open>CopyBuffer\<close>

lemma queue_put:
  assumes "queue_writeBuf False b q = Some (r, q')"
    and "q_status q \<noteq> StaDone" and "\<not> ch_closed (q_buffer q)"
  shows "r = (length (b_data b), None)"
    and "q' = q\<lparr>q_buffer := (q_buffer q)\<lparr>ch_buf := ch_buf (q_buffer q) @ [b]\<rparr>\<rparr>"
  using assms by (cases r; auto elim!: queue_writeBuf_cases)+

lemma queue_ok_buffer:
  "queue_ok rt ws pc q \<Longrightarrow> queue_ok rt ws pc (q\<lparr>q_buffer := (q_buffer q)\<lparr>ch_buf := bs\<rparr>\<rparr>)"
  by (simp add: queue_ok_def)

lemma queue_ok_put:
  assumes "queue_ok rt ws pc q" and "\<not> pc_ended pc" and "queue_writeBuf False b q = Some (r, q')"
  shows "r = (length (b_data b), None)"
    and "q' = q\<lparr>q_buffer := (q_buffer q)\<lparr>ch_buf := ch_buf (q_buffer q) @ [b]\<rparr>\<rparr>"
  using queue_put [OF assms(3)] assms(1,2) pc_status_done [of pc] by (auto simp: queue_ok_def)

lemma copy_step_inv:
  assumes q: "queue_ok rt (t_ws t) (t_qpc t) (t_q t)" and st: "stream_ok rt mid t"
    and step: "CopyBuffer_step (queue_PW False) () (t_copy t, t_src t, t_q t) = Some (pc, src, q')"
  shows "queue_ok rt (t_ws t) (t_qpc t) q' \<and>
         stream_ok rt mid (t\<lparr>t_copy := pc, t_src := src, t_q := q'\<rparr>)"
proof (cases "t_copy t")
  case (CopyRead n)
  with step obtain buf er where r: "conn_Read bufSize (t_src t) = Some ((buf, er), src)"
      and pc: "pc = (if buf \<noteq> [] then CopyWrite buf er n else after_read er n)" and q': "q' = t_q t"
    by (auto split: option.splits)
  show ?thesis
  proof (cases er)
    case None
    note rd = conn_Read_data [OF r [unfolded None] bufSize_pos]
    show ?thesis
      using q st CopyRead pc None rd(2,4) q'
      by (cases "buf = []") (auto simp: stream_ok_def flow_ok_def pending_def after_read_def)
  next
    case (Some e)
    with r have rd: "buf = []" "incoming (t_src t) = []"
      using conn_Read_error [of bufSize "t_src t" buf e src] by auto
    then have "pc = CopyEOF e n" using pc Some by (simp add: after_read_def)
    moreover have "eof_last (pending mid t @ [eof_buffer])"
      using st CopyRead by (intro eof_last_snoc) (simp add: stream_ok_def flow_ok_def)
    ultimately show ?thesis
      using q st CopyRead rd(2) q' by (auto simp: stream_ok_def flow_ok_def pending_def)
  qed
next
  case (CopyWrite d er n)
  then have na: "\<not> pc_ended (t_qpc t)" and er: "er = None" using st by (auto simp: stream_ok_def flow_ok_def)
  from step CopyWrite obtain r where "queue_writeBuf False (data_buffer d) (t_q t) = Some (r, q')"
    by (auto simp: queue_PW_def queue_Write_def split: option.splits)
  note w = queue_ok_put [OF q na this] this
  have "pc = CopyRead (n + of_nat (length d))" "src = t_src t"
    using step CopyWrite er w by (auto simp: queue_PW_def queue_Write_def after_read_def)
  with w(2) show ?thesis
    using st q CopyWrite by (auto simp: stream_ok_def flow_ok_def pending_def intro: queue_ok_buffer)
next
  case (CopyEOF e n)
  then have na: "\<not> pc_ended (t_qpc t)" using st by (auto simp: stream_ok_def flow_ok_def)
  from step CopyEOF obtain r where "queue_writeBuf False eof_buffer (t_q t) = Some (r, q')"
    by (auto simp: queue_PW_def queue_WriteEOF_def)
  note w = queue_ok_put [OF q na this] this
  obtain err where "pc = CopyRet n err" "src = t_src t"
    using step CopyEOF by (auto simp: queue_PW_def queue_WriteEOF_def)
  with w(2) show ?thesis
    using st q CopyEOF by (auto simp: stream_ok_def flow_ok_def pending_def intro: queue_ok_buffer)
next
  case (CopyRet n e)
  with step show ?thesis by simp
qed

section \<open>queue.Send\<close>

lemma route_conn_inj:
  assumes "route_ok accepts rt" and "m < length (rt_ids rt)" and "n < length (rt_ids rt)"
  shows "rt_conn rt (rt_ids rt ! m) = rt_conn rt (rt_ids rt ! n) \<longleftrightarrow> m = n"
  using assms by (auto simp: route_ok_def inj_on_eq_iff nth_eq_iff_index_eq)

lemma lanes_put:
  assumes rt: "route_ok accepts rt" and l: "lanes_ok kstr rt p mid net h"
    and n: "n < length (rt_ids rt)" "(p + length mid) mod length (rt_ids rt) = n"
    and c: "c = rt_conn rt (rt_ids rt ! n)"
  shows "lanes_ok kstr rt p (mid @ [b]) (net(c := net c @ [frame_of kstr (rt_ids rt ! n) b])) h"
  unfolding lanes_ok_def
proof (intro conjI allI impI)
  fix m
  assume m: "m < length (rt_ids rt)"
  with l obtain nb where nb: "net (rt_conn rt (rt_ids rt ! m)) = map (frame_of kstr (rt_ids rt ! m)) nb"
      "ch_buf (l_buffer (lh_heap h (rt_link rt m))) @ nb = lane (length (rt_ids rt)) m p mid"
    by (auto simp: lanes_ok_def lane_ok_def)
  show "lane_ok kstr (rt_ids rt ! m)
      ((net(c := net c @ [frame_of kstr (rt_ids rt ! n) b])) (rt_conn rt (rt_ids rt ! m)))
      (ch_buf (l_buffer (lh_heap h (rt_link rt m)))) (lane (length (rt_ids rt)) m p (mid @ [b]))"
  proof (cases "m = n")
    case True
    then show ?thesis
      using nb n c unfolding lane_ok_def
      by (intro exI [of _ "nb @ [b]"]) (simp add: lane_snoc flip: append_assoc)
  next
    case False
    then show ?thesis
      using nb n c route_conn_inj [OF rt m n(1)] unfolding lane_ok_def
      by (intro exI [of _ nb]) (simp add: lane_snoc)
  qed
next
  fix c'
  assume "c' \<notin> rt_conn rt ` set (rt_ids rt)"
  then show "(net(c := net c @ [frame_of kstr (rt_ids rt ! n) b])) c' = []"
    using l c n by (auto simp: lanes_ok_def)
qed

lemma writer_put:
  assumes "Ctx_Err w ws = None"
  shows "wsWriter_Write lanes_Write kstr w d ws =
      Some ((length d, None), ws\<lparr>wv_net := (wv_net ws)(wr_WSC w := wv_net ws (wr_WSC w) @
        [frame_of kstr (wr_Id w) (data_buffer d)])\<rparr>)"
    and "wsWriter_WriteEOF lanes_Write kstr w ws =
      Some (ws\<lparr>wv_net := (wv_net ws)(wr_WSC w := wv_net ws (wr_WSC w) @
        [frame_of kstr (wr_Id w) eof_buffer])\<rparr>)"
  using assms
  by (simp_all add: wsWriter_Write_def wsWriter_WriteEOF_def WriteProxyMessage_def lanes_Write_def
      frame_of_def)

lemma frame_of_data: "\<not> b_eof b \<Longrightarrow> frame_of kstr i (data_buffer (b_data b)) = frame_of kstr i b"
  by (simp add: frame_of_def)

lemma Ctx_Err_net [simp]: "Ctx_Err w (ws\<lparr>wv_net := net\<rparr>) = Ctx_Err w ws"
  by (simp add: Ctx_Err_def split: option.split)

lemma drop_Suc_length: "n < length ids \<Longrightarrow> length ids - Suc (length (drop (Suc n) ids)) = n"
  by simp

lemma pc_wf_IterE:
  assumes "pc_wf ids look (SendIter (i # r))"
  obtains n where "n < length ids" "i = ids ! n" "r = drop (Suc n) ids"
proof -
  from assms obtain n where n: "n \<le> length ids" "i # r = drop n ids" by auto
  then have "n < length ids" by (cases "n = length ids") auto
  with n that show ?thesis by (auto simp: Cons_nth_drop_Suc [symmetric])
qed

text \<open>The pending chunks around the one in hand of \<open>queue.Send\<close>.\<close>

lemma stream_hand_eof:
  assumes st: "stream_ok rt mid t" and h: "in_hand (t_qpc t) = [b]"
  shows "b_eof b = (copy_done (t_copy t) \<and> ch_buf (q_buffer (t_q t)) = [])" and "good_buf b"
proof -
  define rest where "rest = ch_buf (q_buffer (t_q t)) @ copy_hand (t_copy t)"
  have p: "pending mid t = (in_hand (t_lpc t) @ mid) @ b # rest"
    using h by (simp add: pending_def rest_def)
  show "b_eof b = (copy_done (t_copy t) \<and> ch_buf (q_buffer (t_q t)) = [])"
  proof (cases "copy_fin (t_copy t)")
    case True
    with st p have "b_eof b = (rest = [])"
      unfolding stream_ok_def flow_ok_def by (metis eof_last_mid)
    with True show ?thesis by (cases "t_copy t") (auto simp: rest_def)
  next
    case False
    with st p have "\<not> b_eof b" by (simp add: stream_ok_def flow_ok_def)
    with False show ?thesis by (cases "t_copy t") auto
  qed
  show "good_buf b" using st p by (simp add: stream_ok_def flow_ok_def)
qed

lemma queue_read:
  assumes "readWithTimeout c False = Some ((b, e), c')" and "\<not> ch_closed c"
  shows "e = None" and "ch_buf c = b # ch_buf c'" 
    and "ch_closed c' = ch_closed c" and "ch_cap c' = ch_cap c"
  using assms by (auto simp: readWithTimeout_def chan_recv_def split: list.splits)

lemma send_put_inv:
  assumes rt: "route_ok accepts rt" and q: "queue_ok rt (t_ws t) (t_qpc t) (t_q t)"
    and l: "lanes_ok kstr rt (lpos (length (rt_ids rt)) (t_lpc t)) mid (wv_net (t_ws t)) (t_lh t)"
    and st: "stream_ok rt mid t" and pc0: "t_qpc t = SendPut w b r"
    and step: "queue_Send_step (wsWriter_PW lanes_Write kstr) False waiter (t_qpc t, t_q t, t_ws t) = Some (pc, q', ws)"
  shows "queue_ok rt ws pc q' \<and>
    lanes_ok kstr rt (lpos (length (rt_ids rt)) (t_lpc t)) (mid @ [b]) (wv_net ws) (t_lh t) \<and>
    stream_ok rt (mid @ [b]) (t\<lparr>t_qpc := pc, t_q := q', t_ws := ws\<rparr>)"
proof -
  from q pc0 obtain n where n: "n < length (rt_ids rt)" "r = drop (Suc n) (rt_ids rt)"
      "w = gm_get (q_writers (t_q t)) (rt_ids rt ! n)"
    by (auto simp: queue_ok_def)
  with q obtain w' where w': "w = Some w'" "wr_WSC w' = rt_conn rt (rt_ids rt ! n)"
      "wr_Id w' = rt_ids rt ! n" "Ctx_Err w' (t_ws t) = None"
    unfolding queue_ok_def using nth_mem by metis
  have hand: "in_hand (t_qpc t) = [b]" using pc0 by simp
  note eof = stream_hand_eof [OF st hand]
  define c where "c = rt_conn rt (rt_ids rt ! n)"
  have ws: "ws = (t_ws t)\<lparr>wv_net := (wv_net (t_ws t))(c := wv_net (t_ws t) c @ [frame_of kstr (rt_ids rt ! n) b])\<rparr>"
      and pc: "pc = (if b_eof b then SendReturn None else SendIter r)" and q': "q' = t_q t"
    using step pc0 w' good_eof [OF eof(2)]
    by (auto simp: wsWriter_PW_def writer_put [OF w'(4)] frame_of_data c_def split: if_splits)
  have pos: "(lpos (length (rt_ids rt)) (t_lpc t) + length mid) mod length (rt_ids rt) = n"
    using st pc0 n by (simp add: stream_ok_def)
  then have "lanes_ok kstr rt (lpos (length (rt_ids rt)) (t_lpc t)) (mid @ [b]) (wv_net ws) (t_lh t)"
    using lanes_put [OF rt l n(1) pos c_def] ws by simp
  moreover have "pc_wf (rt_ids rt) look pc" for look
    using pc n by (auto intro: exI [of _ "Suc n"])
  then have "queue_ok rt ws pc q'"
    using q ws pc0 pc q' by (auto simp: queue_ok_def)
  moreover have "pending (mid @ [b]) (t\<lparr>t_qpc := pc, t_q := q', t_ws := ws\<rparr>) = pending mid t"
    using pc pc0 q' by (simp add: pending_def)
  moreover have "Suc (lpos (length (rt_ids rt)) (t_lpc t) + length mid) mod length (rt_ids rt)
      = Suc n mod length (rt_ids rt)"
    using pos by (metis mod_Suc_eq)
  ultimately show ?thesis
    using st pc0 pc eof n q' by (auto simp: stream_ok_def)
qed

lemma send_step_inv:
  assumes rt: "route_ok accepts rt" and q: "queue_ok rt (t_ws t) (t_qpc t) (t_q t)"
    and l: "lanes_ok kstr rt (lpos (length (rt_ids rt)) (t_lpc t)) mid (wv_net (t_ws t)) (t_lh t)"
    and st: "stream_ok rt mid t"
    and step: "queue_Send_step (wsWriter_PW lanes_Write kstr) False waiter (t_qpc t, t_q t, t_ws t) = Some (pc, q', ws)"
  shows "\<exists>mid'. queue_ok rt ws pc q' \<and>
    lanes_ok kstr rt (lpos (length (rt_ids rt)) (t_lpc t)) mid' (wv_net ws) (t_lh t) \<and>
    stream_ok rt mid' (t\<lparr>t_qpc := pc, t_q := q', t_ws := ws\<rparr>)"
proof (cases "t_qpc t")
  case SendEntry
  with q step have "pc = SendInit" "q' = t_q t" "ws = t_ws t" by (auto simp: queue_ok_def)
  with SendEntry q l st show ?thesis
    by (intro exI [of _ mid]) (simp add: queue_ok_def stream_ok_def pending_def)
next
  case SendInit
  with step have "pc = SendHead" "q' = (t_q t)\<lparr>q_status := StaSend\<rparr>" "ws = t_ws t" by auto
  with SendInit q l st show ?thesis
    by (intro exI [of _ mid]) (simp add: queue_ok_def stream_ok_def pending_def)
next
  case SendHead
  with q step have "pc = SendIter (rt_ids rt)" "q' = t_q t" "ws = t_ws t" by (auto simp: queue_ok_def)
  with SendHead q l st show ?thesis
    by (intro exI [of _ mid]) (auto simp: queue_ok_def stream_ok_def pending_def intro: exI [of _ 0])
next
  case (SendIter r)
  show ?thesis
  proof (cases r)
    case Nil
    with SendIter step have "pc = SendHead" "q' = t_q t" "ws = t_ws t" by auto
    with SendIter Nil q l st show ?thesis
      by (intro exI [of _ mid]) (simp add: queue_ok_def stream_ok_def pending_def)
  next
    case (Cons i r')
    with SendIter q have "pc_wf (rt_ids rt) (gm_get (q_writers (t_q t))) (SendIter (i # r'))"
      by (simp add: queue_ok_def)
    then obtain n where n: "n < length (rt_ids rt)" "i = rt_ids rt ! n" "r' = drop (Suc n) (rt_ids rt)"
      by (rule pc_wf_IterE)
    have "pc = SendRead (gm_get (q_writers (t_q t)) i) r'" "q' = t_q t" "ws = t_ws t"
      using step SendIter Cons by auto
    with SendIter Cons q l st n show ?thesis
      by (intro exI [of _ mid]) (auto simp: queue_ok_def stream_ok_def pending_def)
  qed
next
  case (SendRead w r)
  have nc: "\<not> ch_closed (q_buffer (t_q t))" using q by (simp add: queue_ok_def)
  from SendRead step obtain b e c' where rd: "readWithTimeout (q_buffer (t_q t)) False = Some ((b, e), c')"
    by (auto split: option.splits)
  note rd' = queue_read [OF rd nc]
  have "pc = SendPut w b r" "q' = (t_q t)\<lparr>q_buffer := c'\<rparr>" "ws = t_ws t"
    using SendRead step rd rd'(1) by auto
  with SendRead q l st rd'(2-4) show ?thesis
    by (intro exI [of _ mid]) (auto simp: queue_ok_def stream_ok_def pending_def)
next
  case (SendPut w b r)
  from send_put_inv [OF rt q l st this step] show ?thesis by blast
next
  case (SendReturn r)
  with step have "pc = SendSignal r" "q' = (t_q t)\<lparr>q_status := StaDone\<rparr>" "ws = t_ws t" by auto
  with SendReturn q l st show ?thesis
    by (intro exI [of _ mid]) (auto simp: queue_ok_def stream_ok_def pending_def)
next
  case (SendSignal r)
  with step q have "pc = SendCloseDone r" "q' = t_q t" "ws = t_ws t"
    by (auto simp: queue_ok_def split: if_splits)
  with SendSignal q l st show ?thesis
    by (intro exI [of _ mid]) (auto simp: queue_ok_def stream_ok_def pending_def)
next
  case (SendCloseDone r)
  with step q have "pc = SendExit r" "q' = (t_q t)\<lparr>q_done_closed := True\<rparr>" "ws = t_ws t"
    by (auto simp: queue_ok_def)
  with SendCloseDone q l st show ?thesis
    by (intro exI [of _ mid]) (auto simp: queue_ok_def stream_ok_def pending_def)
qed (use step in simp_all)

section \<open>The receive loop\<close>

text \<open>\<open>accepts c i\<close>: the receiver of connection \<open>c\<close> handles data for identifier \<open>i\<close>.\<close>

locale frame_receiver =
  fixes kstr :: "ksuid \<Rightarrow> string"
    and recv :: "'c receiver"
    and accepts :: "'c \<Rightarrow> ksuid \<Rightarrow> bool"
  assumes recv_frame: "accepts c i \<Longrightarrow> good_buf b \<Longrightarrow> recv c (frame_of kstr i b) h = deliver False i b h"

lemma set_lane: "set (lane k i p xs) \<subseteq> set xs"
  by (induction xs arbitrary: p) auto

lemma route_link_inj:
  assumes "route_ok accepts rt" and "m < length (rt_ids rt)" and "n < length (rt_ids rt)"
  shows "rt_link rt m = rt_link rt n \<longleftrightarrow> m = n"
  using assms by (auto simp: route_ok_def inj_on_eq_iff)

lemma lanes_net:
  assumes "lanes_ok kstr rt p mid net h" and "net c = doc # docs"
  obtains n b nb where "n < length (rt_ids rt)" "c = rt_conn rt (rt_ids rt ! n)"
    "doc = frame_of kstr (rt_ids rt ! n) b" "docs = map (frame_of kstr (rt_ids rt ! n)) nb"
    "ch_buf (l_buffer (lh_heap h (rt_link rt n))) @ b # nb = lane (length (rt_ids rt)) n p mid"
    "b \<in> set mid"
proof -
  from assms have "c \<in> rt_conn rt ` set (rt_ids rt)" by (auto simp: lanes_ok_def)
  then obtain n where n: "n < length (rt_ids rt)" "c = rt_conn rt (rt_ids rt ! n)"
    by (auto simp: in_set_conv_nth)
  with assms obtain nb where nb: "doc # docs = map (frame_of kstr (rt_ids rt ! n)) nb"
      "ch_buf (l_buffer (lh_heap h (rt_link rt n))) @ nb = lane (length (rt_ids rt)) n p mid"
    unfolding lanes_ok_def lane_ok_def by metis
  then obtain b nb' where b: "nb = b # nb'" by (cases nb) auto
  with nb(2) have "b \<in> set (lane (length (rt_ids rt)) n p mid)"
    by (metis in_set_conv_decomp)
  then have "b \<in> set mid" by (rule subsetD [OF set_lane])
  with n nb b that show ?thesis by simp
qed

definition link_push :: "buffer \<Rightarrow> link \<Rightarrow> link" where
  "link_push b q = q\<lparr>l_buffer := (l_buffer q)\<lparr>ch_buf := ch_buf (l_buffer q) @ [b]\<rparr>\<rparr>"

lemma deliver_push:
  assumes "links_ok rt pc h" and "n < length (rt_ids rt)" and "\<not> pc_ended pc"
    and "deliver False (rt_ids rt ! n) b h = Some h'"
  shows "h' = lh_update (rt_link rt n) (link_push b) h"
proof -
  let ?q = "lh_heap h (rt_link rt n)"
  have g: "LinkHub_Get (rt_ids rt ! n) h = Some (rt_link rt n)" and "link_ok (if n = 0 then pc_status pc else StaWait) ?q"
    using assms(1,2) by (auto simp: links_ok_def LinkHub_Get_def)
  then have ok: "\<not> ch_closed (l_buffer ?q)" "l_status ?q \<noteq> StaDone"
    using pc_status_done [of pc] assms(3) by (auto simp: link_ok_def split: if_splits)
  from assms(4) g obtain r q where w: "link_writeBuf False b ?q = Some (r, q)"
      and h': "h' = lh_update (rt_link rt n) (\<lambda>_. q) h"
    by (auto simp: deliver_def)
  from w have "q = link_push b ?q"
    using ok by (cases r) (auto simp: link_push_def elim!: link_writeBuf_cases)
  with h' show ?thesis by (simp add: lh_update_def)
qed

lemma recv_step_inv:
  assumes rcv: "frame_receiver kstr recv accepts" and rt: "route_ok accepts rt"
    and lk: "links_ok rt (t_lpc t) (t_lh t)"
    and l: "lanes_ok kstr rt (lpos (length (rt_ids rt)) (t_lpc t)) mid (wv_net (t_ws t)) (t_lh t)"
    and st: "stream_ok rt mid t"
    and net: "wv_net (t_ws t) c = doc # docs" and step: "recv c doc (t_lh t) = Some h'"
  shows "links_ok rt (t_lpc t) h' \<and>
    lanes_ok kstr rt (lpos (length (rt_ids rt)) (t_lpc t)) mid ((wv_net (t_ws t))(c := docs)) h'"
proof -
  obtain n b nb where n: "n < length (rt_ids rt)" "c = rt_conn rt (rt_ids rt ! n)"
      "doc = frame_of kstr (rt_ids rt ! n) b" "docs = map (frame_of kstr (rt_ids rt ! n)) nb"
      "ch_buf (l_buffer (lh_heap (t_lh t) (rt_link rt n))) @ b # nb =
         lane (length (rt_ids rt)) n (lpos (length (rt_ids rt)) (t_lpc t)) mid" and b: "b \<in> set mid"
    by (rule lanes_net [OF l net])
  from b have p: "b \<in> set (pending mid t)" by (simp add: pending_def)
  then have good: "good_buf b" and act: "\<not> pc_ended (t_lpc t)"
    using st by (auto simp: stream_ok_def flow_ok_def)
  have "accepts c (rt_ids rt ! n)" using rt n by (simp add: route_ok_def)
  then have "deliver False (rt_ids rt ! n) b (t_lh t) = Some h'"
    using frame_receiver.recv_frame [OF rcv _ good] step n(3) by simp
  from deliver_push [OF lk n(1) act this]
  have h': "h' = lh_update (rt_link rt n) (link_push b) (t_lh t)" .
  have "links_ok rt (t_lpc t) h'"
    using lk unfolding h' links_ok_def LinkHub_Get_def by (auto simp: link_push_def link_ok_def)
  moreover have "lanes_ok kstr rt (lpos (length (rt_ids rt)) (t_lpc t)) mid ((wv_net (t_ws t))(c := docs)) h'"
    unfolding lanes_ok_def
  proof (intro conjI allI impI)
    fix m
    assume m: "m < length (rt_ids rt)"
    show "lane_ok kstr (rt_ids rt ! m) (((wv_net (t_ws t))(c := docs)) (rt_conn rt (rt_ids rt ! m)))
        (ch_buf (l_buffer (lh_heap h' (rt_link rt m))))
        (lane (length (rt_ids rt)) m (lpos (length (rt_ids rt)) (t_lpc t)) mid)"
      using l m n h' route_conn_inj [OF rt m n(1)] route_link_inj [OF rt m n(1)]
      by (cases "m = n") (auto simp: lanes_ok_def lane_ok_def link_push_def)
  qed (use l n(1,2) in \<open>auto simp: lanes_ok_def\<close>)
  ultimately show ?thesis ..
qed

section \<open>link.Send\<close>

lemma lanes_ok_cong:
  "(\<And>n. n < length (rt_ids rt) \<Longrightarrow>
      l_buffer (lh_heap h' (rt_link rt n)) = l_buffer (lh_heap h (rt_link rt n))) \<Longrightarrow>
     lanes_ok kstr rt p mid net h \<Longrightarrow> lanes_ok kstr rt p mid net h'"
  by (simp add: lanes_ok_def)

lemma lanes_take:
  assumes rt: "route_ok accepts rt" and l: "lanes_ok kstr rt n mid net h"
    and n: "n < length (rt_ids rt)"
    and b: "ch_buf (l_buffer (lh_heap h (rt_link rt n))) = b # ch_buf c'"
  shows "\<exists>mid'. mid = b # mid' \<and>
    lanes_ok kstr rt (Suc n mod length (rt_ids rt)) mid' net
      (lh_update (rt_link rt n) (\<lambda>q. q\<lparr>l_buffer := c'\<rparr>) h)"
proof -
  let ?k = "length (rt_ids rt)"
  from l n b obtain nb where nb: "b # ch_buf c' @ nb = lane ?k n n mid"
      "net (rt_conn rt (rt_ids rt ! n)) = map (frame_of kstr (rt_ids rt ! n)) nb"
    unfolding lanes_ok_def lane_ok_def by (metis append_Cons)
  with n obtain mid' where mid: "mid = b # mid'" by (cases mid) auto
  with nb n have own: "ch_buf c' @ nb = lane ?k n (Suc n) mid'" by simp
  have "lanes_ok kstr rt (Suc n) mid' net (lh_update (rt_link rt n) (\<lambda>q. q\<lparr>l_buffer := c'\<rparr>) h)"
    unfolding lanes_ok_def
  proof (intro conjI allI impI)
    fix m
    assume m: "m < ?k"
    show "lane_ok kstr (rt_ids rt ! m) (net (rt_conn rt (rt_ids rt ! m)))
        (ch_buf (l_buffer (lh_heap (lh_update (rt_link rt n) (\<lambda>q. q\<lparr>l_buffer := c'\<rparr>) h) (rt_link rt m))))
        (lane ?k m (Suc n) mid')"
    proof (cases "m = n")
      case True
      with own nb(2) show ?thesis by (auto simp: lane_ok_def)
    next
      case False
      with l m n mid route_link_inj [OF rt m n] show ?thesis by (auto simp: lanes_ok_def)
    qed
  qed (use l in \<open>simp add: lanes_ok_def\<close>)
  with mid show ?thesis by (simp add: lanes_ok_def lane_mod)
qed

lemma links_get: "links_ok rt pc h \<Longrightarrow> n < length (rt_ids rt) \<Longrightarrow> LinkHub_Get (rt_ids rt ! n) h = Some (rt_link rt n)"
  by (simp add: links_ok_def LinkHub_Get_def)

lemma links_ok_pc:
  assumes "links_ok rt pc h" and "pc_wf (rt_ids rt) (\<lambda>i. LinkHub_Get i h) pc'"
    and "pc_status pc' = pc_status pc" and "pc_exited pc' = pc_exited pc"
  shows "links_ok rt pc' h"
  using assms(1,2) unfolding links_ok_def assms(3,4) by blast

lemma links_ok_me:
  assumes rt: "route_ok accepts rt" and "links_ok rt pc h"
    and f: "\<And>q. l_buffer (f q) = l_buffer q \<and> l_sorted (f q) = l_sorted q \<and> l_conn (f q) = l_conn q"
    and "l_status (f (lh_heap h (rt_link rt 0))) = pc_status pc'"
    and "l_done_closed (f (lh_heap h (rt_link rt 0))) = pc_exited pc'"
    and "pc_wf (rt_ids rt) (\<lambda>i. LinkHub_Get i h) pc'"
  shows "links_ok rt pc' (lh_update (rt_link rt 0) f h)"
proof -
  have "rt_link rt n = rt_link rt 0 \<longleftrightarrow> n = 0" if "n < length (rt_ids rt)" for n
    using route_link_inj [OF rt that, of 0] rt by (simp add: route_ok_def)
  with assms show ?thesis
    unfolding links_ok_def link_ok_def LinkHub_Get_def by auto
qed

lemma write_step_quiet:
  assumes rt: "route_ok accepts rt" and lk: "links_ok rt (t_lpc t) (t_lh t)"
    and tg: "target_ok rt (t_lpc t) (t_conns t)"
    and l: "lanes_ok kstr rt (lpos (length (rt_ids rt)) (t_lpc t)) mid (wv_net (t_ws t)) (t_lh t)"
    and st: "stream_ok rt mid t"
    and lk': "links_ok rt pc h'"
    and buf: "\<And>n. n < length (rt_ids rt) \<Longrightarrow>
      l_buffer (lh_heap h' (rt_link rt n)) = l_buffer (lh_heap (t_lh t) (rt_link rt n))"
    and same: "pc_ended pc = pc_ended (t_lpc t)" "in_hand (t_lpc t) = []" "in_hand pc = []"
      "lpos (length (rt_ids rt)) pc = lpos (length (rt_ids rt)) (t_lpc t)"
  shows "\<exists>mid'. links_ok rt pc h' \<and> target_ok rt pc (t_conns t) \<and>
    lanes_ok kstr rt (lpos (length (rt_ids rt)) pc) mid' (wv_net (t_ws t)) h' \<and>
    stream_ok rt mid' (t\<lparr>t_lpc := pc, t_lh := h', t_conns := t_conns t\<rparr>)"
proof (intro exI [of _ mid] conjI)
  show "target_ok rt pc (t_conns t)" using tg same by (simp add: target_ok_def)
  show "lanes_ok kstr rt (lpos (length (rt_ids rt)) pc) mid (wv_net (t_ws t)) h'"
    using lanes_ok_cong [OF buf l] same by simp
  show "stream_ok rt mid (t\<lparr>t_lpc := pc, t_lh := h', t_conns := t_conns t\<rparr>)"
    using st same by (simp add: stream_ok_def pending_def)
qed (rule lk')

lemma links_ok_buffer:
  assumes lk: "links_ok rt pc h" and c: "ch_closed c = ch_closed (l_buffer (lh_heap h r))"
    "ch_cap c = ch_cap (l_buffer (lh_heap h r))"
  shows "links_ok rt pc (lh_update r (\<lambda>q. q\<lparr>l_buffer := c\<rparr>) h)"
proof -
  let ?h = "lh_update r (\<lambda>q. q\<lparr>l_buffer := c\<rparr>) h"
  have same: "link_ok st (lh_heap ?h r') = link_ok st (lh_heap h r')"
      "l_sorted (lh_heap ?h r') = l_sorted (lh_heap h r')" "l_conn (lh_heap ?h r') = l_conn (lh_heap h r')"
      "l_done_closed (lh_heap ?h r') = l_done_closed (lh_heap h r')" for st r'
    using c by (simp_all add: link_ok_def)
  show ?thesis
    using lk unfolding links_ok_def LinkHub_Get_def lh_update_sel(1) same by blast
qed

text \<open>Reading the next chunk off a link.\<close>

lemma write_step_read:
  assumes rt: "route_ok accepts rt" and lk: "links_ok rt (t_lpc t) (t_lh t)"
    and tg: "target_ok rt (t_lpc t) (t_conns t)"
    and l: "lanes_ok kstr rt (lpos (length (rt_ids rt)) (t_lpc t)) mid (wv_net (t_ws t)) (t_lh t)"
    and st: "stream_ok rt mid t" and pc0: "t_lpc t = SendRead w r"
    and step: "link_Send_step False waiter (rt_link rt 0) (t_lpc t, t_lh t, t_conns t) = Some (pc, h', conns)"
  shows "\<exists>mid'. links_ok rt pc h' \<and> target_ok rt pc conns \<and>
    lanes_ok kstr rt (lpos (length (rt_ids rt)) pc) mid' (wv_net (t_ws t)) h' \<and>
    stream_ok rt mid' (t\<lparr>t_lpc := pc, t_lh := h', t_conns := conns\<rparr>)"
proof -
  let ?k = "length (rt_ids rt)"
  from lk pc0 obtain n where n: "n < ?k" "r = drop (Suc n) (rt_ids rt)" "w = Some (rt_link rt n)"
    by (auto simp: links_ok_def LinkHub_Get_def)
  let ?c = "l_buffer (lh_heap (t_lh t) (rt_link rt n))"
  have nc: "\<not> ch_closed ?c" using lk n(1) by (simp add: links_ok_def link_ok_def)
  from step pc0 n(3) obtain b e c' where rd: "readWithTimeout ?c False = Some ((b, e), c')"
    by (auto split: option.splits)
  note rd' = queue_read [OF rd nc]
  have s: "pc = SendPut w b r" "h' = lh_update (rt_link rt n) (\<lambda>q. q\<lparr>l_buffer := c'\<rparr>) (t_lh t)" "conns = t_conns t"
    using step pc0 n(3) rd rd'(1) by auto
  have pos: "lpos ?k (t_lpc t) = n" "lpos ?k pc = Suc n mod ?k"
    using pc0 s(1) n by simp_all
  from lanes_take [OF rt l [unfolded pos(1)] n(1) rd'(2)] obtain mid' where mid: "mid = b # mid'"
      "lanes_ok kstr rt (lpos ?k pc) mid' (wv_net (t_ws t)) h'"
    unfolding pos(2) s(2) by blast
  have "pc_wf (rt_ids rt) (\<lambda>i. LinkHub_Get i h') pc"
    using lk pc0 unfolding s(1,2) links_ok_def LinkHub_Get_def by simp
  then have "links_ok rt pc h'"
    using links_ok_pc [OF links_ok_buffer [OF lk rd'(3,4)]] pc0 s(1,2) by simp
  moreover have "target_ok rt pc conns" using tg pc0 s by (simp add: target_ok_def)
  moreover have "stream_ok rt mid' (t\<lparr>t_lpc := pc, t_lh := h', t_conns := conns\<rparr>)"
    using st pc0 s mid(1) pos n by (auto simp: stream_ok_def pending_def mod_simps)
  ultimately show ?thesis using mid(2) by blast
qed

text \<open>Writing the chunk in hand to the target.\<close>

lemma write_step_put:
  assumes rt: "route_ok accepts rt" and lk: "links_ok rt (t_lpc t) (t_lh t)"
    and tg: "target_ok rt (t_lpc t) (t_conns t)"
    and l: "lanes_ok kstr rt (lpos (length (rt_ids rt)) (t_lpc t)) mid (wv_net (t_ws t)) (t_lh t)"
    and st: "stream_ok rt mid t" and pc0: "t_lpc t = SendPut w b r"
    and step: "link_Send_step False waiter (rt_link rt 0) (t_lpc t, t_lh t, t_conns t) = Some (pc, h', conns)"
  shows "links_ok rt pc h' \<and> target_ok rt pc conns \<and>
    lanes_ok kstr rt (lpos (length (rt_ids rt)) pc) mid (wv_net (t_ws t)) h' \<and>
    stream_ok rt mid (t\<lparr>t_lpc := pc, t_lh := h', t_conns := conns\<rparr>)"
proof -
  let ?k = "length (rt_ids rt)" and ?c = "t_conns t (rt_target rt)"
  define rest where "rest = mid @ in_hand (t_qpc t) @ ch_buf (q_buffer (t_q t)) @ copy_hand (t_copy t)"
  have p: "pending mid t = b # rest" using pc0 by (simp add: pending_def rest_def)
  have good: "good_buf b" using st p by (simp add: stream_ok_def flow_ok_def)
  have fin: "b_eof b = (copy_fin (t_copy t) \<and> rest = [])"
    using st p by (auto simp: stream_ok_def flow_ok_def dest: eof_lastD)
  have ends: "copy_fin (t_copy t) \<and> rest = [] \<longleftrightarrow> copy_done (t_copy t) \<and> rest = []"
    by (cases "t_copy t") (auto simp: rest_def)
  have conn: "l_conn (lh_heap (t_lh t) (rt_link rt 0)) = Some (rt_target rt)"
    using lk by (simp add: links_ok_def)
  have s: "pc = (if b_eof b then SendReturn None else SendIter r)" "h' = t_lh t"
      "conns = (t_conns t)(rt_target rt :=
         (if b_eof b then ?c\<lparr>wr_closed := True\<rparr> else ?c\<lparr>tx := tx ?c @ b_data b\<rparr>))"
    using step pc0 conn tg
    by (auto simp: safeWrite_def conn_CloseWrite_def conn_Write_def target_ok_def split: if_splits)
  from lk pc0 obtain n where n: "n < ?k" "r = drop (Suc n) (rt_ids rt)"
    by (auto simp: links_ok_def)
  then have "pc_wf (rt_ids rt) (\<lambda>i. LinkHub_Get i (t_lh t)) pc"
    using s(1) by (auto intro: exI [of _ "Suc n"])
  then have "links_ok rt pc h'"
    using links_ok_pc [OF lk, of pc] pc0 s(1,2) by simp
  moreover have "target_ok rt pc conns"
    using tg pc0 s by (simp add: target_ok_def)
  moreover have "mid = []" "pc_ended (t_qpc t)" if "b_eof b"
    using that fin ends st pc0 by (auto simp: rest_def stream_ok_def)
  then have "lanes_ok kstr rt (lpos ?k pc) mid (wv_net (t_ws t)) h'"
    using l pc0 s(1,2) by (auto simp: lanes_ok_def)
  moreover have "flow_ok rt (tx (conns (rt_target rt))) rest (t_copy t) (t_src t)"
    using st p s(3) good fin by (auto simp: stream_ok_def flow_ok_def good_buf_def dest: eof_last_tl)
  moreover have "pending mid (t\<lparr>t_lpc := pc, t_lh := h', t_conns := conns\<rparr>) = rest"
    using s(1) by (simp add: pending_def rest_def)
  moreover have "pc_ended pc = (copy_done (t_copy t) \<and> rest = [])"
    using s(1) fin ends by auto
  ultimately show ?thesis
    using st pc0 s(1) \<open>b_eof b \<Longrightarrow> pc_ended (t_qpc t)\<close> by (auto simp: stream_ok_def)
qed

lemma write_step_inv:
  assumes rt: "route_ok accepts rt" and lk: "links_ok rt (t_lpc t) (t_lh t)"
    and tg: "target_ok rt (t_lpc t) (t_conns t)"
    and l: "lanes_ok kstr rt (lpos (length (rt_ids rt)) (t_lpc t)) mid (wv_net (t_ws t)) (t_lh t)"
    and st: "stream_ok rt mid t"
    and step: "link_Send_step False waiter (rt_link rt 0) (t_lpc t, t_lh t, t_conns t) = Some (pc, h', conns)"
  shows "\<exists>mid'. links_ok rt pc h' \<and> target_ok rt pc conns \<and>
    lanes_ok kstr rt (lpos (length (rt_ids rt)) pc) mid' (wv_net (t_ws t)) h' \<and>
    stream_ok rt mid' (t\<lparr>t_lpc := pc, t_lh := h', t_conns := conns\<rparr>)"
proof -
  have k: "0 < length (rt_ids rt)" using rt by (simp add: route_ok_def)
  have me: "l_status (lh_heap (t_lh t) (rt_link rt 0)) = pc_status (t_lpc t)"
      "l_sorted (lh_heap (t_lh t) (rt_link rt 0)) = rt_ids rt"
      "l_done_closed (lh_heap (t_lh t) (rt_link rt 0)) = pc_exited (t_lpc t)"
    using lk k by (auto simp: links_ok_def link_ok_def)
  note quiet = write_step_quiet [OF rt lk tg l st]
  note same_pc = links_ok_pc [OF lk] and at_me = links_ok_me [OF rt lk]
  have wf: "pc_wf (rt_ids rt) (\<lambda>i. LinkHub_Get i (t_lh t)) (t_lpc t)"
    using lk by (simp add: links_ok_def)
  show ?thesis
  proof (cases "t_lpc t")
    case SendEntry
    with step me have s: "pc = SendInit" "h' = t_lh t" "conns = t_conns t"
      by (auto split: if_splits)
    then have "links_ok rt pc h'" using same_pc [of pc] SendEntry by simp
    from quiet [OF this] s SendEntry show ?thesis by simp
  next
    case SendInit
    with step me have s: "pc = SendHead" "h' = lh_update (rt_link rt 0) (\<lambda>q. q\<lparr>l_status := StaSend\<rparr>) (t_lh t)" "conns = t_conns t"
      by (auto split: if_splits)
    then have "links_ok rt pc h'" using at_me [of "\<lambda>q. q\<lparr>l_status := StaSend\<rparr>" pc] SendInit me by simp
    from quiet [OF this] s SendInit show ?thesis by simp
  next
    case SendHead
    with step me have s: "pc = SendIter (rt_ids rt)" "h' = t_lh t" "conns = t_conns t"
      by (auto split: if_splits)
    have "pc_wf (rt_ids rt) (\<lambda>i. LinkHub_Get i (t_lh t)) pc" using s by (auto intro: exI [of _ 0])
    from same_pc [OF this] have "links_ok rt pc h'" using SendHead s by simp
    from quiet [OF this] s SendHead show ?thesis by simp
  next
    case (SendIter r)
    show ?thesis
    proof (cases r)
      case Nil
      with SendIter step have s: "pc = SendHead" "h' = t_lh t" "conns = t_conns t" by auto
      then have "links_ok rt pc h'" using same_pc [of pc] SendIter by simp
      from quiet [OF this] s SendIter Nil show ?thesis by simp
    next
      case (Cons i r')
      with lk SendIter have "pc_wf (rt_ids rt) (\<lambda>i. LinkHub_Get i (t_lh t)) (SendIter (i # r'))"
        by (simp add: links_ok_def)
      then obtain n where n: "n < length (rt_ids rt)" "i = rt_ids rt ! n" "r' = drop (Suc n) (rt_ids rt)"
        by (rule pc_wf_IterE)
      from Cons SendIter step have s: "pc = SendRead (LinkHub_Get i (t_lh t)) r'" "h' = t_lh t" "conns = t_conns t"
        by auto
      then have "links_ok rt pc h'" using same_pc [of pc] SendIter n by auto
      from quiet [OF this] s SendIter Cons n show ?thesis by simp
    qed
  next
    case (SendRead w r)
    from write_step_read [OF rt lk tg l st this step] show ?thesis .
  next
    case (SendPut w b r)
    from write_step_put [OF rt lk tg l st this step] show ?thesis by blast
  next
    case (SendReturn r)
    with step me have s: "pc = SendSignal r" "h' = lh_update (rt_link rt 0) (\<lambda>q. q\<lparr>l_status := StaDone\<rparr>) (t_lh t)" "conns = t_conns t"
      by (auto split: if_splits)
    then have "links_ok rt pc h'" using at_me [of "\<lambda>q. q\<lparr>l_status := StaDone\<rparr>" pc] SendReturn me wf by simp
    from quiet [OF this] s SendReturn show ?thesis by simp
  next
    case (SendSignal r)
    with step me have s: "pc = SendCloseDone r" "h' = t_lh t" "conns = t_conns t"
      by (auto split: if_splits)
    then have "links_ok rt pc h'" using same_pc [of pc] SendSignal wf by simp
    from quiet [OF this] s SendSignal show ?thesis by simp
  next
    case (SendCloseDone r)
    with step me have s: "pc = SendExit r" "h' = lh_update (rt_link rt 0) (\<lambda>q. q\<lparr>l_done_closed := True\<rparr>) (t_lh t)" "conns = t_conns t"
      by (auto split: if_splits)
    then have "links_ok rt pc h'" using at_me [of "\<lambda>q. q\<lparr>l_done_closed := True\<rparr>" pc] SendCloseDone me wf by simp
    from quiet [OF this] s SendCloseDone show ?thesis by simp
  qed (use step in simp_all)
qed

section \<open>Every step keeps the invariant\<close>

lemma tunnel_step_inv:
  assumes rcv: "frame_receiver kstr recv accepts" and inv: "tunnel_inv accepts kstr rt t"
    and step: "tunnel_step kstr recv (rt_link rt 0) t t'"
  shows "tunnel_inv accepts kstr rt t'"
proof -
  obtain mid where i: "route_ok accepts rt" "queue_ok rt (t_ws t) (t_qpc t) (t_q t)"
      "links_ok rt (t_lpc t) (t_lh t)" "target_ok rt (t_lpc t) (t_conns t)"
      "lanes_ok kstr rt (lpos (length (rt_ids rt)) (t_lpc t)) mid (wv_net (t_ws t)) (t_lh t)"
      "stream_ok rt mid t"
    using inv unfolding tunnel_inv_def by blast
  from step show ?thesis
  proof (cases rule: tunnel_step.cases)
    case (ts_copy pc src q)
    from copy_step_inv [OF i(2,6) this(2)] ts_copy(1) i show ?thesis
      unfolding tunnel_inv_def by auto
  next
    case (ts_send waiter pc q ws)
    from send_step_inv [OF i(1,2,5,6) this(2)] ts_send(1) i show ?thesis
      unfolding tunnel_inv_def by auto
  next
    case (ts_recv c doc docs lh)
    from recv_step_inv [OF rcv i(1,3,5,6) this(2,3)] ts_recv(1) i show ?thesis
      unfolding tunnel_inv_def by (auto simp: queue_ok_def stream_ok_def pending_def intro!: exI [of _ mid])
  next
    case (ts_write waiter pc lh conns)
    from write_step_inv [OF i(1,3,4,5,6) this(2)] ts_write(1) i show ?thesis
      unfolding tunnel_inv_def by auto
  qed
qed

section \<open>No state is stuck before everything was delivered\<close>

lemma read_blocked: "readWithTimeout c False = None \<Longrightarrow> \<not> ch_closed c \<Longrightarrow> ch_buf c = []"
  by (auto simp: readWithTimeout_blocked)

lemma send_blocked:
  assumes q: "queue_ok rt ws pc q" and act: "\<not> pc_ended pc"
    and stuck: "queue_Send_step (wsWriter_PW lanes_Write kstr) False waiter (pc, q, ws) = None"
  shows "ch_buf (q_buffer q) = [] \<and> in_hand pc = []"
proof (cases pc)
  case (SendRead w r)
  with stuck have "readWithTimeout (q_buffer q) False = None" by (auto split: option.splits)
  with q SendRead show ?thesis by (simp add: queue_ok_def read_blocked)
next
  case (SendIter r)
  with stuck show ?thesis by (cases r) auto
next
  case (SendPut w b r)
  with q obtain w' where "w = Some w'" "Ctx_Err w' ws = None"
    unfolding queue_ok_def by (auto) (metis nth_mem)
  with SendPut stuck show ?thesis by (auto simp: wsWriter_PW_def writer_put split: if_splits)
qed (use stuck act q in \<open>auto simp: queue_ok_def\<close>)

lemma write_blocked:
  assumes lk: "links_ok rt pc h" and act: "\<not> pc_ended pc"
    and stuck: "link_Send_step False waiter me (pc, h, conns) = None"
  obtains n r where "n < length (rt_ids rt)" "pc = SendRead (Some (rt_link rt n)) r"
    "r = drop (Suc n) (rt_ids rt)" "ch_buf (l_buffer (lh_heap h (rt_link rt n))) = []"
proof (cases pc)
  case (SendRead w r)
  with lk obtain n where n: "n < length (rt_ids rt)" "w = Some (rt_link rt n)" "r = drop (Suc n) (rt_ids rt)"
    by (auto simp: links_ok_def LinkHub_Get_def)
  with stuck SendRead have "readWithTimeout (l_buffer (lh_heap h (rt_link rt n))) False = None"
    by (auto split: option.splits)
  with lk n(1) have "ch_buf (l_buffer (lh_heap h (rt_link rt n))) = []"
    by (simp add: links_ok_def link_ok_def read_blocked)
  with that n SendRead show ?thesis by blast
next
  case (SendIter r)
  with stuck show ?thesis by (cases r) auto
next
  case (SendPut s b r)
  with stuck show ?thesis by (auto split: prod.splits)
qed (use stuck act lk in \<open>auto simp: links_ok_def\<close>)

end
