(* ===== verification/Tunnel_Live.thy ===== *)
theory Tunnel_Live
  imports Tunnel_Inv
begin

text \<open>
  Progress of a transfer: a state of \<open>tunnel_step\<close> in which no goroutine can move has delivered
  everything the source had, and a weight that every step decreases bounds the length of every run.
\<close>

section \<open>Stuck states\<close>

lemma deliver_room:
  assumes "links_ok rt pc h" and "n < length (rt_ids rt)" and "\<not> pc_ended pc"
    and "ch_buf (l_buffer (lh_heap h (rt_link rt n))) = []"
  shows "\<exists>h'. deliver False (rt_ids rt ! n) b h = Some h'"
proof -
  let ?q = "lh_heap h (rt_link rt n)"
  have "link_ok (if n = 0 then pc_status pc else StaWait) ?q"
    using assms(1,2) by (simp add: links_ok_def)
  then have "\<not> ch_closed (l_buffer ?q)" "l_status ?q \<noteq> StaDone" "ch_cap (l_buffer ?q) = 10"
    using pc_status_done [of pc] assms(3) by (auto simp: link_ok_def split: if_splits)
  then show ?thesis
    using links_get [OF assms(1,2)] link_writeBuf_sent [of ?q False b] assms(4)
    by (simp add: deliver_def)
qed

lemma queue_room:
  assumes "queue_ok rt ws pc q" and "\<not> pc_ended pc" and "ch_buf (q_buffer q) = []"
  shows "\<exists>r q'. queue_writeBuf False b q = Some (r, q')"
proof -
  have "q_status q \<noteq> StaDone" using assms(1,2) pc_status_done [of pc] by (auto simp: queue_ok_def)
  with assms show ?thesis by (auto simp: queue_writeBuf_def chan_send_def queue_ok_def)
qed

lemma stuck_mid:
  assumes rcv: "frame_receiver kstr recv accepts" and rt: "route_ok accepts rt"
    and lk: "links_ok rt (t_lpc t) (t_lh t)" and act: "\<not> pc_ended (t_lpc t)"
    and l: "lanes_ok kstr rt (lpos (length (rt_ids rt)) (t_lpc t)) mid (wv_net (t_ws t)) (t_lh t)"
    and st: "stream_ok rt mid t"
    and stuck: "\<And>t'. \<not> tunnel_step kstr recv (rt_link rt 0) t t'"
  shows "mid = [] \<and> in_hand (t_lpc t) = []"
proof -
  let ?k = "length (rt_ids rt)"
  have "link_Send_step False True (rt_link rt 0) (t_lpc t, t_lh t, t_conns t) = None"
    using stuck ts_write [of True "rt_link rt 0" t _ _ _ kstr recv]
    by (cases "link_Send_step False True (rt_link rt 0) (t_lpc t, t_lh t, t_conns t)") auto
  then obtain n r where n: "n < ?k" "t_lpc t = SendRead (Some (rt_link rt n)) r"
      "r = drop (Suc n) (rt_ids rt)" "ch_buf (l_buffer (lh_heap (t_lh t) (rt_link rt n))) = []"
    by (rule write_blocked [OF lk act])
  then have pos: "lpos ?k (t_lpc t) = n" by simp
  have "mid = []"
  proof (rule ccontr)
    assume "mid \<noteq> []"
    then have "lane ?k n n mid \<noteq> []" using lane_Nil_head [of ?k n mid] n(1) by simp
    then obtain doc docs where net: "wv_net (t_ws t) (rt_conn rt (rt_ids rt ! n)) = doc # docs"
      using l n(1,4) unfolding lanes_ok_def lane_ok_def pos
      by (metis append_Nil list.exhaust list.map_disc_iff)
    obtain m b nb where m: "m < ?k" "rt_conn rt (rt_ids rt ! n) = rt_conn rt (rt_ids rt ! m)"
        "doc = frame_of kstr (rt_ids rt ! m) b" "b \<in> set mid"
      by (rule lanes_net [OF l net])
    then have "m = n" using route_conn_inj [OF rt n(1), of m] by simp
    have "b \<in> set (pending mid t)" using m(4) by (simp add: pending_def)
    then have "good_buf b" using st by (simp add: stream_ok_def flow_ok_def)
    then have "recv (rt_conn rt (rt_ids rt ! n)) doc (t_lh t) = deliver False (rt_ids rt ! n) b (t_lh t)"
      using frame_receiver.recv_frame [OF rcv] rt n(1) m(3) \<open>m = n\<close> by (simp add: route_ok_def)
    then show False
      using deliver_room [OF lk n(1) act n(4), of b] ts_recv [OF net] stuck by metis
  qed
  with n(2) show ?thesis by simp
qed

lemma stuck_queue:
  assumes q: "queue_ok rt (t_ws t) (t_qpc t) (t_q t)" and st: "stream_ok rt mid t"
    and act: "\<not> pc_ended (t_lpc t)" and mid: "mid = []" "in_hand (t_lpc t) = []"
    and stuck: "\<And>t'. \<not> tunnel_step kstr recv me t t'"
  shows "\<exists>n. t_copy t = CopyRead n \<and> conn_Read bufSize (t_src t) = None \<and> pending mid t = []"
proof -
  have "\<not> pc_ended (t_qpc t)"
  proof
    assume "pc_ended (t_qpc t)"
    then have "copy_done (t_copy t)" "pending mid t = []"
      using st mid by (cases "t_copy t"; auto simp: stream_ok_def pending_def)+
    with st act show False by (simp add: stream_ok_def)
  qed
  note qact = this
  have "queue_Send_step (wsWriter_PW lanes_Write kstr) False True (t_qpc t, t_q t, t_ws t) = None"
    using stuck ts_send [of kstr True t _ _ _ recv me]
    by (cases "queue_Send_step (wsWriter_PW lanes_Write kstr) False True (t_qpc t, t_q t, t_ws t)") auto
  from send_blocked [OF q qact this] have empty: "ch_buf (q_buffer (t_q t)) = []" "in_hand (t_qpc t) = []"
    by simp_all
  have copy: "CopyBuffer_step (queue_PW False) () (t_copy t, t_src t, t_q t) = None"
    using stuck ts_copy [of t _ _ _ kstr recv me]
    by (cases "CopyBuffer_step (queue_PW False) () (t_copy t, t_src t, t_q t)") auto
  note room = queue_room [OF q qact empty(1)]
  show ?thesis
  proof (cases "t_copy t")
    case (CopyRead n)
    with copy empty mid show ?thesis by (auto simp: pending_def split: option.splits)
  next
    case (CopyWrite d er n)
    with copy room [of "data_buffer d"] show ?thesis
      by (auto simp: queue_PW_def queue_Write_def split: option.splits)
  next
    case (CopyEOF e n)
    with copy room [of eof_buffer] show ?thesis by (auto simp: queue_PW_def queue_WriteEOF_def)
  next
    case (CopyRet n e)
    with st act empty mid show ?thesis by (simp add: stream_ok_def pending_def)
  qed
qed

lemma tunnel_stuck:
  assumes rcv: "frame_receiver kstr recv accepts" and inv: "tunnel_inv accepts kstr rt t"
    and stuck: "\<And>t'. \<not> tunnel_step kstr recv (rt_link rt 0) t t'"
  shows "tx (t_conns t (rt_target rt)) = rt_input rt"
    and "wr_closed (t_conns t (rt_target rt)) \<or> rt_end rt = None"
proof -
  obtain mid where i: "route_ok accepts rt" "queue_ok rt (t_ws t) (t_qpc t) (t_q t)"
      "links_ok rt (t_lpc t) (t_lh t)" "target_ok rt (t_lpc t) (t_conns t)"
      "lanes_ok kstr rt (lpos (length (rt_ids rt)) (t_lpc t)) mid (wv_net (t_ws t)) (t_lh t)"
      "stream_ok rt mid t"
    using inv unfolding tunnel_inv_def by blast
  have "tx (t_conns t (rt_target rt)) = rt_input rt \<and>
    (wr_closed (t_conns t (rt_target rt)) \<or> rt_end rt = None)"
  proof (cases "pc_ended (t_lpc t)")
    case True
    with i(4,6) show ?thesis
      by (cases "t_copy t") (auto simp: stream_ok_def flow_ok_def target_ok_def)
  next
    case False
    from stuck_mid [OF rcv i(1,3) False i(5,6) stuck] stuck_queue [OF i(2,6) False _ _ stuck]
    obtain n where "t_copy t = CopyRead n" "conn_Read bufSize (t_src t) = None" "pending mid t = []"
      by blast
    with i(6) show ?thesis
      by (auto simp: stream_ok_def flow_ok_def conn_Read_None incoming_def incoming_end_def)
  qed
  then show "tx (t_conns t (rt_target rt)) = rt_input rt"
    and "wr_closed (t_conns t (rt_target rt)) \<or> rt_end rt = None" by simp_all
qed

section \<open>Every run is finite\<close>

fun copy_weight :: "copy_pc \<Rightarrow> nat" where
  "copy_weight (CopyRead n) = 13"
| "copy_weight (CopyWrite d er n) = 25"
| "copy_weight (CopyEOF e n) = 12"
| "copy_weight (CopyRet n e) = 0"

fun pc_weight :: "nat \<Rightarrow> 'w send_pc \<Rightarrow> nat" where
  "pc_weight put SendEntry = 4"
| "pc_weight put SendInit = 3"
| "pc_weight put SendHead = 2"
| "pc_weight put (SendIter []) = 3"
| "pc_weight put (SendIter (i # r)) = 1"
| "pc_weight put (SendRead w r) = 0"
| "pc_weight put (SendPut w b r) = put"
| "pc_weight put (SendReturn r) = 3"
| "pc_weight put (SendSignal r) = 2"
| "pc_weight put (SendCloseDone r) = 1"
| "pc_weight put (SendExit r) = 0"
| "pc_weight put SendCrash = 0"

text \<open>The weight of lane \<open>n\<close>: a chunk on the connection counts more than one in the link.\<close>

definition lane_weight :: "'c route \<Rightarrow> 'c lanes \<Rightarrow> LinkHub \<Rightarrow> nat \<Rightarrow> nat" where
  "lane_weight rt net h n =
     6 * length (net (rt_conn rt (rt_ids rt ! n))) + 5 * length (ch_buf (l_buffer (lh_heap h (rt_link rt n))))"

definition tunnel_weight :: "'c route \<Rightarrow> 'c tunnel \<Rightarrow> nat" where
  "tunnel_weight rt t =
     13 * rx_size (rx (t_src t)) + copy_weight (t_copy t) + 11 * length (ch_buf (q_buffer (t_q t))) +
     pc_weight 10 (t_qpc t) + (\<Sum>n<length (rt_ids rt). lane_weight rt (wv_net (t_ws t)) (t_lh t) n) +
     pc_weight 4 (t_lpc t)"

lemma sum_at:
  fixes f g :: "nat \<Rightarrow> nat"
  assumes "n < k" and "\<And>m. m < k \<Longrightarrow> m \<noteq> n \<Longrightarrow> f m = g m"
  shows "(\<Sum>m<k. f m) + g n = (\<Sum>m<k. g m) + f n"
proof -
  have "(\<Sum>m\<in>{..<k} - {n}. f m) = (\<Sum>m\<in>{..<k} - {n}. g m)"
    using assms(2) by (intro sum.cong) auto
  moreover have n: "n \<in> {..<k}" using assms(1) by simp
  ultimately show ?thesis
    using sum.remove [OF finite_lessThan n, of f] sum.remove [OF finite_lessThan n, of g] by simp
qed

lemma conn_Read_error_size: "conn_Read n c = Some ((d, Some e), c') \<Longrightarrow> rx_size (rx c') \<le> rx_size (rx c)"
  by (auto simp: conn_Read_def split: if_splits list.splits rx_event.splits)

lemma copy_step_weight:
  assumes q: "queue_ok rt (t_ws t) (t_qpc t) (t_q t)" and st: "stream_ok rt mid t"
    and step: "CopyBuffer_step (queue_PW False) () (t_copy t, t_src t, t_q t) = Some (pc, src, q')"
  shows "tunnel_weight rt (t\<lparr>t_copy := pc, t_src := src, t_q := q'\<rparr>) < tunnel_weight rt t"
proof (cases "t_copy t")
  case (CopyRead n)
  with step obtain buf er where r: "conn_Read bufSize (t_src t) = Some ((buf, er), src)"
      and pc: "pc = (if buf \<noteq> [] then CopyWrite buf er n else after_read er n)" and q': "q' = t_q t"
    by (auto split: option.splits)
  show ?thesis
  proof (cases er)
    case None
    from conn_Read_data(3) [OF r [unfolded None] bufSize_pos] pc None q' CopyRead show ?thesis
      by (auto simp: tunnel_weight_def after_read_def)
  next
    case (Some e)
    from conn_Read_error_size [OF r [unfolded Some]] conn_Read_error(1) [OF r [unfolded Some]] pc Some q' CopyRead
    show ?thesis by (auto simp: tunnel_weight_def after_read_def)
  qed
next
  case (CopyWrite d er n)
  then have na: "\<not> pc_ended (t_qpc t)" and er: "er = None" using st by (auto simp: stream_ok_def flow_ok_def)
  from step CopyWrite obtain r where "queue_writeBuf False (data_buffer d) (t_q t) = Some (r, q')"
    by (auto simp: queue_PW_def queue_Write_def split: option.splits)
  note w = queue_ok_put [OF q na this] this
  have "pc = CopyRead (n + of_nat (length d))" "src = t_src t"
    using step CopyWrite er w by (auto simp: queue_PW_def queue_Write_def after_read_def)
  with w(2) CopyWrite show ?thesis by (simp add: tunnel_weight_def)
next
  case (CopyEOF e n)
  then have na: "\<not> pc_ended (t_qpc t)" using st by (auto simp: stream_ok_def)
  from step CopyEOF obtain r where "queue_writeBuf False eof_buffer (t_q t) = Some (r, q')"
    by (auto simp: queue_PW_def queue_WriteEOF_def)
  note w = queue_ok_put [OF q na this] this
  obtain err where "pc = CopyRet n err" "src = t_src t"
    using step CopyEOF by (auto simp: queue_PW_def queue_WriteEOF_def)
  with w(2) CopyEOF show ?thesis by (simp add: tunnel_weight_def)
next
  case (CopyRet n e)
  with step show ?thesis by simp
qed

lemma pc_weight_Iter: "pc_weight p (SendIter r) \<le> 3" "pc_weight p (SendIter r) < 4"
  by (cases r; auto)+

lemma send_step_weight:
  assumes rt: "route_ok accepts rt" and q: "queue_ok rt (t_ws t) (t_qpc t) (t_q t)"
    and step: "queue_Send_step (wsWriter_PW lanes_Write kstr) False waiter (t_qpc t, t_q t, t_ws t) = Some (pc, q', ws)"
  shows "tunnel_weight rt (t\<lparr>t_qpc := pc, t_q := q', t_ws := ws\<rparr>) < tunnel_weight rt t"
proof (cases "t_qpc t")
  case SendHead
  then show ?thesis
    using step q rt by (cases "rt_ids rt") (auto simp: tunnel_weight_def queue_ok_def route_ok_def)
next
  case (SendIter r)
  with step show ?thesis by (cases r) (auto simp: tunnel_weight_def)
next
  case (SendRead w r)
  have nc: "\<not> ch_closed (q_buffer (t_q t))" using q by (simp add: queue_ok_def)
  from SendRead step obtain b e c' where rd: "readWithTimeout (q_buffer (t_q t)) False = Some ((b, e), c')"
    by (auto split: option.splits)
  from queue_read [OF rd nc] rd SendRead step show ?thesis by (auto simp: tunnel_weight_def)
next
  case (SendPut w b r)
  with q obtain n where n: "n < length (rt_ids rt)" "w = gm_get (q_writers (t_q t)) (rt_ids rt ! n)"
    by (auto simp: queue_ok_def)
  with q obtain w' where w': "w = Some w'" "wr_WSC w' = rt_conn rt (rt_ids rt ! n)" "Ctx_Err w' (t_ws t) = None"
    unfolding queue_ok_def using nth_mem by metis
  let ?c = "rt_conn rt (rt_ids rt ! n)"
  obtain v where ws: "ws = (t_ws t)\<lparr>wv_net := (wv_net (t_ws t))(?c := wv_net (t_ws t) ?c @ [v])\<rparr>" "q' = t_q t"
      "pc_weight 10 pc \<le> 3"
    using step SendPut w' pc_weight_Iter [of 10 r]
    by (auto simp: wsWriter_PW_def writer_put [OF w'(3)] split: if_splits)
  have "(\<Sum>m<length (rt_ids rt). lane_weight rt (wv_net ws) (t_lh t) m) + lane_weight rt (wv_net (t_ws t)) (t_lh t) n
      = (\<Sum>m<length (rt_ids rt). lane_weight rt (wv_net (t_ws t)) (t_lh t) m) + lane_weight rt (wv_net ws) (t_lh t) n"
    using route_conn_inj [OF rt _ n(1)] by (intro sum_at [OF n(1)]) (auto simp: lane_weight_def ws)
  moreover have "lane_weight rt (wv_net ws) (t_lh t) n = lane_weight rt (wv_net (t_ws t)) (t_lh t) n + 6"
    by (simp add: lane_weight_def ws)
  ultimately show ?thesis using SendPut ws by (simp add: tunnel_weight_def)
qed (use step q in \<open>auto simp: tunnel_weight_def queue_ok_def split: if_splits\<close>)

lemma recv_step_weight:
  assumes rcv: "frame_receiver kstr recv accepts" and rt: "route_ok accepts rt"
    and lk: "links_ok rt (t_lpc t) (t_lh t)"
    and l: "lanes_ok kstr rt (lpos (length (rt_ids rt)) (t_lpc t)) mid (wv_net (t_ws t)) (t_lh t)"
    and st: "stream_ok rt mid t"
    and net: "wv_net (t_ws t) c = doc # docs" and step: "recv c doc (t_lh t) = Some h'"
  shows "tunnel_weight rt (t\<lparr>t_ws := (t_ws t)\<lparr>wv_net := (wv_net (t_ws t))(c := docs)\<rparr>, t_lh := h'\<rparr>)
    < tunnel_weight rt t"
proof -
  obtain n b nb where n: "n < length (rt_ids rt)" "c = rt_conn rt (rt_ids rt ! n)"
      "doc = frame_of kstr (rt_ids rt ! n) b" and b: "b \<in> set mid"
    by (rule lanes_net [OF l net])
  from b have p: "b \<in> set (pending mid t)" by (simp add: pending_def)
  then have good: "good_buf b" and act: "\<not> pc_ended (t_lpc t)"
    using st by (auto simp: stream_ok_def flow_ok_def)
  have "accepts c (rt_ids rt ! n)" using rt n by (simp add: route_ok_def)
  then have "deliver False (rt_ids rt ! n) b (t_lh t) = Some h'"
    using frame_receiver.recv_frame [OF rcv _ good] step n(3) by simp
  from deliver_push [OF lk n(1) act this]
  have h': "h' = lh_update (rt_link rt n) (link_push b) (t_lh t)" .
  let ?net = "wv_net (t_ws t)"
  have "(\<Sum>m<length (rt_ids rt). lane_weight rt (?net(c := docs)) h' m) + lane_weight rt ?net (t_lh t) n
      = (\<Sum>m<length (rt_ids rt). lane_weight rt ?net (t_lh t) m) + lane_weight rt (?net(c := docs)) h' n"
    using route_conn_inj [OF rt _ n(1)] route_link_inj [OF rt _ n(1)]
    by (intro sum_at [OF n(1)]) (auto simp: lane_weight_def h' n(2))
  moreover have "lane_weight rt ?net (t_lh t) n = Suc (lane_weight rt (?net(c := docs)) h' n)"
    using net by (simp add: lane_weight_def h' n(2) link_push_def)
  ultimately show ?thesis by (simp add: tunnel_weight_def)
qed

lemma lane_weight_cong:
  "l_buffer (lh_heap h' (rt_link rt n)) = l_buffer (lh_heap h (rt_link rt n)) \<Longrightarrow>
     lane_weight rt net h' n = lane_weight rt net h n"
  by (simp add: lane_weight_def)

lemma write_quiet_weight:
  assumes "\<And>n. l_buffer (lh_heap h' (rt_link rt n)) = l_buffer (lh_heap (t_lh t) (rt_link rt n))"
    and "pc_weight 4 pc < pc_weight 4 (t_lpc t)"
  shows "tunnel_weight rt (t\<lparr>t_lpc := pc, t_lh := h', t_conns := conns\<rparr>) < tunnel_weight rt t"
  using assms by (simp add: tunnel_weight_def lane_weight_def)

lemma write_step_weight:
  assumes rt: "route_ok accepts rt" and lk: "links_ok rt (t_lpc t) (t_lh t)"
    and step: "link_Send_step False waiter (rt_link rt 0) (t_lpc t, t_lh t, t_conns t) = Some (pc, h', conns)"
  shows "tunnel_weight rt (t\<lparr>t_lpc := pc, t_lh := h', t_conns := conns\<rparr>) < tunnel_weight rt t"
proof (cases "t_lpc t")
  case (SendRead w r)
  with lk obtain n where n: "n < length (rt_ids rt)" "w = Some (rt_link rt n)"
    by (auto simp: links_ok_def LinkHub_Get_def)
  let ?c = "l_buffer (lh_heap (t_lh t) (rt_link rt n))"
  have nc: "\<not> ch_closed ?c" using lk n(1) by (simp add: links_ok_def link_ok_def)
  from step SendRead n(2) obtain b e c' where rd: "readWithTimeout ?c False = Some ((b, e), c')"
    by (auto split: option.splits)
  note rd' = queue_read [OF rd nc]
  have s: "pc = SendPut w b r" "h' = lh_update (rt_link rt n) (\<lambda>q. q\<lparr>l_buffer := c'\<rparr>) (t_lh t)"
    using step SendRead n(2) rd rd'(1) by auto
  let ?net = "wv_net (t_ws t)"
  have "(\<Sum>m<length (rt_ids rt). lane_weight rt ?net h' m) + lane_weight rt ?net (t_lh t) n
      = (\<Sum>m<length (rt_ids rt). lane_weight rt ?net (t_lh t) m) + lane_weight rt ?net h' n"
    using route_link_inj [OF rt _ n(1)] by (intro sum_at [OF n(1)]) (auto simp: lane_weight_def s)
  moreover have "lane_weight rt ?net (t_lh t) n = lane_weight rt ?net h' n + 5"
    using rd'(2) by (simp add: lane_weight_def s(2))
  ultimately show ?thesis using SendRead s by (simp add: tunnel_weight_def)
next
  case (SendIter r)
  with step show ?thesis by (cases r) (auto intro!: write_quiet_weight)
next
  case SendHead
  with step lk rt show ?thesis
    by (cases "rt_ids rt") (auto intro!: write_quiet_weight simp: links_ok_def link_ok_def route_ok_def)
next
  case (SendPut s b r)
  with step pc_weight_Iter [of 4 r] show ?thesis
    by (intro write_quiet_weight) (auto split: prod.splits option.splits if_splits)
qed (use step lk rt in \<open>auto intro!: write_quiet_weight simp: links_ok_def link_ok_def route_ok_def split: if_splits\<close>)

lemma tunnel_step_weight:
  assumes rcv: "frame_receiver kstr recv accepts" and inv: "tunnel_inv accepts kstr rt t"
    and step: "tunnel_step kstr recv (rt_link rt 0) t t'"
  shows "tunnel_weight rt t' < tunnel_weight rt t"
proof -
  obtain mid where i: "route_ok accepts rt" "queue_ok rt (t_ws t) (t_qpc t) (t_q t)"
      "links_ok rt (t_lpc t) (t_lh t)" "target_ok rt (t_lpc t) (t_conns t)"
      "lanes_ok kstr rt (lpos (length (rt_ids rt)) (t_lpc t)) mid (wv_net (t_ws t)) (t_lh t)"
      "stream_ok rt mid t"
    using inv unfolding tunnel_inv_def by blast
  from step show ?thesis
  proof (cases rule: tunnel_step.cases)
    case (ts_copy pc src q)
    with copy_step_weight [OF i(2,6)] show ?thesis by blast
  next
    case (ts_send waiter pc q ws)
    with send_step_weight [OF i(1,2)] show ?thesis by blast
  next
    case (ts_recv c doc docs lh)
    with recv_step_weight [OF rcv i(1,3,5,6)] show ?thesis by blast
  next
    case (ts_write waiter pc lh conns)
    with write_step_weight [OF i(1,3)] show ?thesis by blast
  qed
qed

section \<open>The machine\<close>

sublocale frame_receiver \<subseteq> tunnel: terminating_machine "tunnel_step kstr recv (rt_link rt 0)"
  "tunnel_inv accepts kstr rt" "tunnel_weight rt" for rt
  by unfold_locales
    (auto intro: tunnel_step_inv tunnel_step_weight frame_receiver_axioms)

context frame_receiver begin

text \<open>At all times the target has got a prefix of the input, and is closed only after all of it.\<close>

lemma tunnel_prefix:
  assumes "tunnel_inv accepts kstr rt s" and "reaches (tunnel_step kstr recv (rt_link rt 0)) s t"
  shows "(\<exists>rest. rt_input rt = tx (t_conns t (rt_target rt)) @ rest) \<and>
    (wr_closed (t_conns t (rt_target rt)) \<longrightarrow> tx (t_conns t (rt_target rt)) = rt_input rt)"
proof -
  have "tunnel_inv accepts kstr rt t" by (rule tunnel.reaches_inv [OF assms(2,1)])
  then obtain mid where "stream_ok rt mid t" "target_ok rt (t_lpc t) (t_conns t)"
    unfolding tunnel_inv_def by blast
  then have "rt_input rt = tx (t_conns t (rt_target rt)) @ concat (map b_data (pending mid t)) @
      (if copy_fin (t_copy t) then [] else incoming (t_src t))"
      and "wr_closed (t_conns t (rt_target rt)) \<longrightarrow> copy_done (t_copy t) \<and> pending mid t = []"
    by (auto simp: stream_ok_def flow_ok_def target_ok_def)
  then show ?thesis by (cases "t_copy t") auto
qed

text \<open>
  Every run is at most as long as the weight says, and where it stops everything was delivered;
  in particular it is always possible to get there.
\<close>

lemma tunnel_delivers:
  assumes "tunnel_inv accepts kstr rt s"
  shows "((tunnel_step kstr recv (rt_link rt 0)) ^^ n) s t \<Longrightarrow> n \<le> tunnel_weight rt s"
    and "reaches (tunnel_step kstr recv (rt_link rt 0)) s t \<Longrightarrow>
      (\<forall>u. \<not> tunnel_step kstr recv (rt_link rt 0) t u) \<Longrightarrow>
      tx (t_conns t (rt_target rt)) = rt_input rt \<and>
      (wr_closed (t_conns t (rt_target rt)) \<or> rt_end rt = None)"
    and "\<exists>t. reaches (tunnel_step kstr recv (rt_link rt 0)) s t \<and>
      (\<forall>u. \<not> tunnel_step kstr recv (rt_link rt 0) t u)"
proof -
  show "((tunnel_step kstr recv (rt_link rt 0)) ^^ n) s t \<Longrightarrow> n \<le> tunnel_weight rt s"
    using tunnel.run_length [OF assms] by force
  show "reaches (tunnel_step kstr recv (rt_link rt 0)) s t \<Longrightarrow>
      (\<forall>u. \<not> tunnel_step kstr recv (rt_link rt 0) t u) \<Longrightarrow>
      tx (t_conns t (rt_target rt)) = rt_input rt \<and>
      (wr_closed (t_conns t (rt_target rt)) \<or> rt_end rt = None)"
    using tunnel_stuck [OF frame_receiver_axioms tunnel.reaches_inv [OF _ assms], of t] by auto
  show "\<exists>t. reaches (tunnel_step kstr recv (rt_link rt 0)) s t \<and>
      (\<forall>u. \<not> tunnel_step kstr recv (rt_link rt 0) t u)"
    using tunnel.reaches_final [OF assms] by blast
qed

end

end
