(* ===== verification/Transfers.thy ===== *)
theory Transfers
  imports Server Client Handshake Tunnel_Live
begin

text \<open>
  The two directions of a transfer. Upload: the client's \<open>CopyBuffer\<close> and \<open>queue.Send\<close>, the server's
  \<open>dispatchDataMessage\<close> and \<open>link.Send\<close>. Download: the same with the roles exchanged and the client's
  \<open>ListenIncomeMsg\<close> as receiver. Both receivers are interpretations of \<open>frame_receiver\<close>, and the states
  the handshake leaves behind satisfy the invariant of the tunnel.
\<close>

section \<open>The two receivers\<close>

text \<open>The server handles a message on connection \<open>c\<close> in the hub \<open>hubs c\<close>; \<open>sv\<close> is the rest of its state.\<close>

definition server_recv ::
  "(string \<Rightarrow> ksuid option) \<Rightarrow> instant \<Rightarrow> ('c \<Rightarrow> 'c Hub) \<Rightarrow> 'c server \<Rightarrow> 'c receiver" where
  "server_recv kparse now hubs sv c doc h =
     (case dispatchDataMessage kparse now False (hubs c) (Some doc) (sv\<lparr>sv_links := h\<rparr>) of
        Returns (err, sv') \<Rightarrow> Some (sv_links sv')
      | _ \<Rightarrow> None)"

text \<open>The client handles a message on connection \<open>c\<close> with the proxies registered there.\<close>

definition client_recv ::
  "(string \<Rightarrow> ksuid option) \<Rightarrow> ('c \<Rightarrow> 'c WebSocketClient) \<Rightarrow> ('c, 'net) client_world \<Rightarrow> 'c receiver" where
  "client_recv kparse wscs s c doc h =
     (case listen_dispatch kparse False (wscs c) (Some doc) (s\<lparr>cw_links := h\<rparr>) of
        Returns s' \<Rightarrow> Some (cw_links s')
      | _ \<Rightarrow> None)"

lemma tags_in_range:
  "- (2 ^ 63) \<le> (if e then TagEOF else TagData)" "(if e then TagEOF else TagData) < 2 ^ 63"
  by (simp_all add: Tag_defs)

lemma chunk_of_frame:
  "good_buf b \<Longrightarrow> (if (if b_eof b then TagEOF else TagData) = TagEOF then eof_buffer else data_buffer (b_data b)) = b"
  using good_eof [of b] good_data [of b] by (auto simp: Tag_defs)

interpretation server_rx: frame_receiver kstr "server_recv kparse now hubs sv" "\<lambda>c i. ksuid_codec kstr kparse"
  for kstr kparse now hubs sv
proof
  fix c i b h
  assume k: "ksuid_codec kstr kparse" and g: "good_buf b"
  show "server_recv kparse now hubs sv c (frame_of kstr i b) h = deliver False i b h"
    unfolding server_recv_def frame_of_def dispatch_data [OF k tags_in_range] chunk_of_frame [OF g]
    by (cases "deliver False i b h") (auto simp: deliver_def split: option.splits)
qed

lemma onData_deliver:
  assumes "good_buf b"
  shows "onData timer i \<lparr>sd_Tag = (if b_eof b then TagEOF else TagData), sd_Data = b_data b\<rparr> h = deliver timer i b h"
proof (cases "LinkHub_Get i h")
  case None
  then show ?thesis by (simp add: onData_def deliver_def)
next
  case (Some r)
  show ?thesis
  proof (cases "b_eof b")
    case True
    with Some good_eof [OF assms] show ?thesis
      by (simp add: onData_def deliver_def Tag_defs link_WriteEOF_def option.map_comp comp_def
          split_def)
  next
    case False
    then have b: "data_buffer (b_data b) = b" by (rule good_data [symmetric])
    from Some False show ?thesis
      by (simp add: onData_def deliver_def Tag_defs link_Write_def) (simp only: b)
  qed
qed

interpretation client_rx: frame_receiver kstr "client_recv kparse wscs cworld"
  "\<lambda>c i. ksuid_codec kstr kparse \<and> GetProxyById i (wscs c) \<noteq> None"
  for kstr kparse wscs and cworld :: "('c, 'net) client_world"
proof
  fix c i b h
  assume "ksuid_codec kstr kparse \<and> GetProxyById i (wscs c) \<noteq> None" and g: "good_buf b"
  then obtain p where k: "ksuid_codec kstr kparse" and p: "GetProxyById i (wscs c) = Some p" by auto
  show "client_recv kparse wscs cworld c (frame_of kstr i b) h = deliver False i b h"
    unfolding client_recv_def frame_of_def listen_data [OF k tags_in_range p]
    by (cases "deliver False i b h") (simp_all add: onData_deliver [OF g])
qed

section \<open>The start of a transfer\<close>

text \<open>
  The sending side adds one writer per connection to the queue of the master and then sets the
  order; the receiving side's events come in any order (\<open>arrivals\<close>).
\<close>

definition queue_setup ::
  "instant \<Rightarrow> ksuid list \<Rightarrow> (ksuid \<Rightarrow> 'w) \<Rightarrow> 'w QueueHub \<Rightarrow> 'w QueueHub" where
  "queue_setup now ids mk h =
     QueueHub_SetSort now (hd ids) ids (fold (\<lambda>i h. fst (QueueHub_Add now (hd ids) i (mk i) h)) ids h)"

definition tunnel_start ::
  "instant \<Rightarrow> ksuid list \<Rightarrow> (ksuid \<Rightarrow> 'c webSocketWriter) \<Rightarrow> 'c webSocketWriter QueueHub \<Rightarrow>
     link_event list \<Rightarrow> LinkHub \<Rightarrow> tcpconn \<Rightarrow> (ref \<Rightarrow> tcpconn) \<Rightarrow> 'c tunnel" where
  "tunnel_start now ids mk qh es lh src conns =
     (let qh' = queue_setup now ids mk qh
      in \<lparr>t_copy = CopyRead 0, t_src = src, t_qpc = SendEntry,
          t_q = qh_heap qh' (the (QueueHub_Get (hd ids) qh')),
          t_ws = \<lparr>wv_net = (\<lambda>c. []), wv_cancelled = []\<rparr>, t_lpc = SendEntry,
          t_lh = fst (link_events now (hd ids) es lh), t_conns = conns\<rparr>)"

definition start_ok ::
  "ksuid list \<Rightarrow> (ksuid \<Rightarrow> 'c) \<Rightarrow> 'c webSocketWriter QueueHub \<Rightarrow> link_event list \<Rightarrow> ref \<Rightarrow> LinkHub \<Rightarrow>
     (ref \<Rightarrow> tcpconn) \<Rightarrow> bool" where
  "start_ok ids wconn qh es c lh conns \<longleftrightarrow>
     ids \<noteq> [] \<and> distinct ids \<and> inj_on wconn (set ids) \<and> qh_wf qh \<and> QueueHub_Get (hd ids) qh = None \<and>
     unseen ids lh \<and> arrivals ids c ids False False es \<and>
     \<not> conn_closed (conns c) \<and> \<not> wr_closed (conns c) \<and> tx_script (conns c) = []"

text \<open>The queue while writers are added.\<close>

definition adding :: "ksuid \<Rightarrow> (ksuid \<Rightarrow> 'w) \<Rightarrow> ksuid set \<Rightarrow> 'w QueueHub \<Rightarrow> bool" where
  "adding m mk done_ids h \<longleftrightarrow> qh_wf h \<and>
     (case QueueHub_Get m h of
        None \<Rightarrow> done_ids = {}
      | Some r \<Rightarrow> \<exists>t ws. qh_heap h r = (NewQueue t m)\<lparr>q_writers := ws\<rparr> \<and>
          (\<forall>i\<in>done_ids. gm_get ws i = Some (mk i)))"

lemma adding_step:
  assumes "adding m mk A h"
  shows "adding m mk (insert i A) (fst (QueueHub_Add now m i (mk i) h))"
proof -
  obtain r where r: "gm_get (qh_queue (qh_ensure now m h)) m = Some r"
    using qh_ensure_Some [of now m h] by blast
  have wf: "qh_wf h" using assms by (simp add: adding_def)
  obtain t ws where q: "qh_heap (qh_ensure now m h) r = (NewQueue t m)\<lparr>q_writers := ws\<rparr>"
      "\<forall>i\<in>A. gm_get ws i = Some (mk i)"
  proof (cases "gm_get (qh_queue h) m")
    case None
    with assms r that [of "[]" now] show ?thesis
      by (auto simp: adding_def QueueHub_Get_def qh_ensure_def NewQueue_def)
  next
    case (Some r')
    with assms r that show ?thesis by (auto simp: adding_def QueueHub_Get_def qh_ensure_def)
  qed
  have "qh_wf (fst (QueueHub_Add now m i (mk i) h))" by (rule qh_wf_Add [OF wf])
  moreover have "qh_heap (fst (QueueHub_Add now m i (mk i) h)) r =
      (NewQueue t m)\<lparr>q_writers := gm_put i (mk i) ws\<rparr>"
    by (simp add: QueueHub_Add_ensure [OF r] Let_def q(1) NewQueue_def)
  moreover have "QueueHub_Get m (fst (QueueHub_Add now m i (mk i) h)) = Some r"
    by (simp add: QueueHub_Add_ensure [OF r] Let_def QueueHub_Get_def r)
  ultimately show ?thesis
    using q(2) unfolding adding_def by (auto intro!: exI [of _ t] exI [of _ "gm_put i (mk i) ws"])
qed

lemma adding_fold:
  "adding m mk A h \<Longrightarrow> adding m mk (set is \<union> A) (fold (\<lambda>i h. fst (QueueHub_Add now m i (mk i) h)) is h)"
proof (induction "is" arbitrary: A h)
  case Nil
  then show ?case by simp
next
  case (Cons i "is")
  from Cons.IH [OF adding_step [OF Cons.prems]] show ?case by simp
qed

lemma queue_setup_result:
  assumes "qh_wf h" and "QueueHub_Get (hd ids) h = None" and "ids \<noteq> []"
  shows "\<exists>r t ws. QueueHub_Get (hd ids) (queue_setup now ids mk h) = Some r \<and>
    qh_heap (queue_setup now ids mk h) r = (NewQueue t (hd ids))\<lparr>q_writers := ws, q_sorted := ids\<rparr> \<and>
    (\<forall>i\<in>set ids. gm_get ws i = Some (mk i))"
proof -
  define h1 where "h1 = fold (\<lambda>i h. fst (QueueHub_Add now (hd ids) i (mk i) h)) ids h"
  have "adding (hd ids) mk (set ids \<union> {}) h1"
    unfolding h1_def by (rule adding_fold) (simp add: adding_def assms)
  then obtain r t ws where r: "QueueHub_Get (hd ids) h1 = Some r"
      "qh_heap h1 r = (NewQueue t (hd ids))\<lparr>q_writers := ws\<rparr>" "\<forall>i\<in>set ids. gm_get ws i = Some (mk i)"
    using assms(3) by (auto simp: adding_def split: option.splits)
  then have "queue_setup now ids mk h = qh_update r (queue_SetSort ids) h1"
    by (simp add: queue_setup_def h1_def QueueHub_SetSort_def QueueHub_Get_def Let_def)
  with r show ?thesis
    by (intro exI [of _ r] exI [of _ t] exI [of _ ws])
      (simp add: QueueHub_Get_def queue_SetSort_def NewQueue_def)
qed

definition start_route ::
  "instant \<Rightarrow> ksuid list \<Rightarrow> (ksuid \<Rightarrow> 'c) \<Rightarrow> link_event list \<Rightarrow> ref \<Rightarrow> LinkHub \<Rightarrow> tcpconn \<Rightarrow>
     (ref \<Rightarrow> tcpconn) \<Rightarrow> 'c route" where
  "start_route now ids wconn es c lh src conns =
     \<lparr>rt_ids = ids, rt_conn = wconn,
      rt_link = (\<lambda>n. the (LinkHub_Get (ids ! n) (fst (link_events now (hd ids) es lh)))),
      rt_target = c, rt_input = tx (conns c) @ incoming src, rt_end = incoming_end src\<rparr>"

lemma gathered_links:
  assumes g: "gathered (hd ids) ids [] ids (Some c) r h" and ids: "ids \<noteq> []" "distinct ids"
    and n: "n < length ids"
  shows "\<exists>r'. gm_get (lh_links h) (ids ! n) = Some r' \<and> link_ok StaWait (lh_heap h r') \<and>
    ch_buf (l_buffer (lh_heap h r')) = []"
proof (cases "n = 0")
  case True
  with ids have "ids ! n = hd ids" by (simp add: hd_conv_nth)
  moreover have "gm_get (lh_links h) (hd ids) = Some r" "master_link (hd ids) (length ids) ids (Some c) (lh_heap h r)"
    using g by (auto simp: gathered_def)
  ultimately show ?thesis using master_linkD by (auto simp: link_ok_def)
next
  case False
  with ids n have "ids ! n \<in> set ids - {hd ids}" by (auto simp: hd_conv_nth nth_eq_iff_index_eq)
  with g obtain r' where "gm_get (lh_links h) (ids ! n) = Some r'" "member_link (hd ids) (lh_heap h r')"
    unfolding gathered_def by auto
  then show ?thesis by (auto simp: link_ok_def member_link_def NewLink_def)
qed

text \<open>The route of a transfer whose links the hub \<open>h\<close> holds.\<close>

definition hub_route ::
  "ksuid list \<Rightarrow> (ksuid \<Rightarrow> 'c) \<Rightarrow> ref \<Rightarrow> bytes \<Rightarrow> go_error option \<Rightarrow> LinkHub \<Rightarrow> 'c route" where
  "hub_route ids wconn c input ending h =
     \<lparr>rt_ids = ids, rt_conn = wconn, rt_link = (\<lambda>n. the (LinkHub_Get (ids ! n) h)), rt_target = c,
      rt_input = input, rt_end = ending\<rparr>"

lemma hub_route_sel [simp]:
  "rt_ids (hub_route ids wconn c input ending h) = ids" "rt_conn (hub_route ids wconn c input ending h) = wconn"
  "rt_link (hub_route ids wconn c input ending h) n = the (LinkHub_Get (ids ! n) h)"
  "rt_target (hub_route ids wconn c input ending h) = c" "rt_input (hub_route ids wconn c input ending h) = input"
  "rt_end (hub_route ids wconn c input ending h) = ending"
  by (simp_all add: hub_route_def)

text \<open>The queue of a transfer before its \<open>Send\<close> has begun.\<close>

definition queue_ready ::
  "ksuid list \<Rightarrow> (ksuid \<Rightarrow> 'c) \<Rightarrow> 'net ws_world \<Rightarrow> 'c webSocketWriter queue \<Rightarrow> bool" where
  "queue_ready ids wconn ws q \<longleftrightarrow>
     q_sorted q = ids \<and> q_status q = StaWait \<and> \<not> q_done_closed q \<and> q_buffer q = makeBuffer \<and>
     (\<forall>i\<in>set ids. \<exists>w. gm_get (q_writers q) i = Some w \<and> wr_WSC w = wconn i \<and> wr_Id w = i \<and> Ctx_Err w ws = None)"

lemma gathered_route:
  assumes g: "gathered (hd ids) ids [] ids (Some c) r h" and ids: "ids \<noteq> []" "distinct ids"
  shows "inj_on (rt_link (hub_route ids wconn c input ending h)) {..<length ids}"
    and "links_ok (hub_route ids wconn c input ending h) SendEntry h"
    and "n < length ids \<Longrightarrow> ch_buf (l_buffer (lh_heap h (the (LinkHub_Get (ids ! n) h)))) = []"
    and "LinkHub_Get (hd ids) h = Some r"
proof -
  have lnk: "gm_get (lh_links h) (ids ! n) = Some (the (LinkHub_Get (ids ! n) h))"
      "link_ok StaWait (lh_heap h (the (LinkHub_Get (ids ! n) h)))"
      "ch_buf (l_buffer (lh_heap h (the (LinkHub_Get (ids ! n) h)))) = []"
    if "n < length ids" for n
    using gathered_links [OF g ids that] by (auto simp: LinkHub_Get_def)
  show "n < length ids \<Longrightarrow> ch_buf (l_buffer (lh_heap h (the (LinkHub_Get (ids ! n) h)))) = []" by (rule lnk(3))
  show m: "LinkHub_Get (hd ids) h = Some r" using g by (simp add: gathered_def LinkHub_Get_def)
  show "inj_on (rt_link (hub_route ids wconn c input ending h)) {..<length ids}"
  proof (intro inj_onI)
    fix m n
    assume *: "m \<in> {..<length ids}" "n \<in> {..<length ids}"
      "rt_link (hub_route ids wconn c input ending h) m = rt_link (hub_route ids wconn c input ending h) n"
    then have "ids ! m = ids ! n"
      using lnk(1) [of m] lnk(1) [of n] g lh_wf_inj [of h] by (auto simp: gathered_def)
    with * ids(2) show "m = n" by (simp add: nth_eq_iff_index_eq)
  qed
  have "master_link (hd ids) (length ids) ids (Some c) (lh_heap h r)" using g by (simp add: gathered_def)
  from master_linkD [OF this] lnk m ids(1) show "links_ok (hub_route ids wconn c input ending h) SendEntry h"
    unfolding links_ok_def by (simp add: hd_conv_nth link_ok_def)
qed

lemma ready_inv:
  assumes q: "queue_ready ids wconn ws q" and net: "wv_net ws = (\<lambda>_. [])"
    and g: "gathered (hd ids) ids [] ids (Some c) r h"
    and ids: "ids \<noteq> []" "distinct ids" "inj_on wconn (set ids)" "\<forall>i\<in>set ids. accepts (wconn i) i"
    and conn: "\<not> conn_closed (conns c)" "\<not> wr_closed (conns c)" "tx_script (conns c) = []"
  shows "tunnel_inv accepts kstr (hub_route ids wconn c (tx (conns c) @ incoming src) (incoming_end src) h)
    \<lparr>t_copy = CopyRead 0, t_src = src, t_qpc = SendEntry, t_q = q, t_ws = ws, t_lpc = SendEntry,
     t_lh = h, t_conns = conns\<rparr>" (is "tunnel_inv _ _ ?rt ?t")
proof -
  note lnk = gathered_route [OF g ids(1,2)]
  have "route_ok accepts ?rt" using lnk(1) ids by (simp add: route_ok_def)
  moreover have "queue_ok ?rt (t_ws ?t) (t_qpc ?t) (t_q ?t)" using q by (simp add: queue_ok_def queue_ready_def)
  moreover have "links_ok ?rt (t_lpc ?t) (t_lh ?t)" using lnk(2) by simp
  moreover have "target_ok ?rt (t_lpc ?t) (t_conns ?t)" using conn by (simp add: target_ok_def)
  moreover have "lanes_ok kstr ?rt (lpos (length (rt_ids ?rt)) (t_lpc ?t)) [] (wv_net (t_ws ?t)) (t_lh ?t)"
    using lnk(3) net by (simp add: lanes_ok_def lane_ok_def)
  moreover have "stream_ok ?rt [] ?t" using q by (simp add: stream_ok_def flow_ok_def pending_def queue_ready_def)
  ultimately show ?thesis unfolding tunnel_inv_def by blast
qed

lemma start_inv:
  fixes wconn :: "ksuid \<Rightarrow> 'c"
  assumes ok: "start_ok ids wconn qh es c lh conns"
    and mk: "\<And>i. wr_WSC (mk i) = wconn i \<and> wr_Id (mk i) = i"
    and acc: "\<And>i. i \<in> set ids \<Longrightarrow> accepts (wconn i) i"
  shows "tunnel_inv accepts kstr (start_route now ids wconn es c lh src conns)
    (tunnel_start now ids mk qh es lh src conns)"
proof -
  let ?h = "fst (link_events now (hd ids) es lh)"
  have "hd ids \<in> set ids" using ok by (simp add: start_ok_def)
  with ok have g: "gathered (hd ids) ids [] ids (Some c) (lh_next lh) ?h"
    using link_events_start [of ids lh "hd ids" c es now] by (auto simp: start_ok_def)
  obtain r t ws where q: "QueueHub_Get (hd ids) (queue_setup now ids mk qh) = Some r"
      "qh_heap (queue_setup now ids mk qh) r = (NewQueue t (hd ids))\<lparr>q_writers := ws, q_sorted := ids\<rparr>"
      "\<forall>i\<in>set ids. gm_get ws i = Some (mk i)"
    using queue_setup_result ok by (metis start_ok_def)
  let ?ws = "\<lparr>wv_net = (\<lambda>c. []), wv_cancelled = []\<rparr> :: 'c lanes ws_world"
  have "Ctx_Err (mk i) ?ws = None" for i by (simp add: Ctx_Err_def split: option.split)
  then have "queue_ready ids wconn ?ws ((NewQueue t (hd ids))\<lparr>q_writers := ws, q_sorted := ids\<rparr>)"
    using q(3) mk by (simp add: queue_ready_def NewQueue_def)
  from ready_inv [OF this _ g _ _ _ _, of accepts conns kstr src] ok acc show ?thesis
    by (simp add: start_ok_def start_route_def hub_route_def tunnel_start_def Let_def q(1,2))
qed

lemma start_route_sel [simp]:
  "rt_target (start_route now ids wconn es c lh src conns) = c"
  "rt_input (start_route now ids wconn es c lh src conns) = tx (conns c) @ incoming src"
  "rt_end (start_route now ids wconn es c lh src conns) = incoming_end src"
  by (simp_all add: start_route_def)

lemma start_route_master:
  assumes "start_ok ids wconn qh es c lh conns"
  shows "rt_link (start_route now ids wconn es c lh src conns) 0 = lh_next lh"
  using assms link_events_start [of ids lh "hd ids" c es now]
  by (auto simp: start_ok_def start_route_def gathered_def LinkHub_Get_def hd_conv_nth)

lemma writer_sel [simp]:
  "wr_WSC (NewWebSocketWriter w i x) = w" "wr_Id (NewWebSocketWriter w i x) = i"
  "wr_WSC (NewWebSocketWriterWithMutex w i x) = w" "wr_Id (NewWebSocketWriterWithMutex w i x) = i"
  by (simp_all add: NewWebSocketWriter_def NewWebSocketWriterWithMutex_def)

section \<open>A concrete transfer\<close>

text \<open>Two connections, an application that sends two bytes and closes.\<close>

definition conns0 :: "ref \<Rightarrow> tcpconn" where
  "conns0 r = new_conn []"

definition src0 :: tcpconn where
  "src0 = new_conn [RxData [7, 8], RxErr EOF]"

definition events0 :: "link_event list" where
  "events0 = [EvAdd 1, EvSort [1, 2], EvConn 0, EvAdd 2]"

lemma start_ok0: "start_ok [1, 2] unat NewQueueHub events0 0 NewLinkHub conns0"
  by (simp add: start_ok_def unseen_def QueueHub_Get_def events0_def conns0_def new_conn_def)

definition wscs0 :: "nat \<Rightarrow> nat WebSocketClient" where
  "wscs0 c = \<lparr>wc_conn = c, wc_proxies = [(of_nat c, 0)], wc_cancel = None\<rparr>"

definition hub0 :: "nat \<Rightarrow> nat Hub" where
  "hub0 c = \<lparr>hub_id = 0, hub_ws = c, hub_connPool = []\<rparr>"

definition client0 :: "(nat, unit) client_world" where
  "client0 = \<lparr>cw_queues = NewQueueHub, cw_links = NewLinkHub, cw_wscs = map wscs0 [1, 2],
     cw_removed = (\<lambda>_. False), cw_ws = \<lparr>wv_net = (), wv_cancelled = []\<rparr>, cw_go = []\<rparr>"

lemma src0_sel: "incoming src0 = [7, 8]" "incoming_end src0 = Some EOF" "tx (conns0 r) = []"
  by (simp_all add: src0_def new_conn_def incoming_def incoming_end_def conns0_def)

lemma proxies0: "\<forall>i\<in>set [1, 2]. GetProxyById i (wscs0 (unat i)) \<noteq> None"
  by (simp add: GetProxyById_def wscs0_def gm_get_def)

section \<open>Properties of a transfer\<close>

text \<open>
  A transfer over the connections \<open>ids\<close> starts as the handshake leaves it. \<open>client_writer\<close> and
  \<open>server_writer\<close> are the writers the two sides put into their queues.
\<close>

definition client_writer :: "(ksuid \<Rightarrow> 'c) \<Rightarrow> (ksuid \<Rightarrow> ref) \<Rightarrow> ksuid \<Rightarrow> 'c webSocketWriter" where
  "client_writer wconn ctx i = NewWebSocketWriterWithMutex (wconn i) i (Some (ctx i))"

definition server_writer :: "(ksuid \<Rightarrow> 'c) \<Rightarrow> ksuid \<Rightarrow> 'c webSocketWriter" where
  "server_writer wconn i = NewWebSocketWriter (wconn i) i None"

definition upload_step where
  "upload_step kstr kparse now hubs sv me = tunnel_step kstr (server_recv kparse now hubs sv) me"

definition upload_start where
  "upload_start now ids wconn ctx qh es lh src conns =
     tunnel_start now ids (client_writer wconn ctx) qh es lh src conns"

definition download_step where
  "download_step kstr kparse wscs cw me = tunnel_step kstr (client_recv kparse wscs cw) me"

definition download_start where
  "download_start now ids wconn qh es lh src conns =
     tunnel_start now ids (server_writer wconn) qh es lh src conns"

text \<open>
  Upload, safety. Whatever the interleaving of the copying goroutine, the two \<open>Send\<close> goroutines
  and the receive loops, the target has at every moment received a prefix of what the application
  sent, in order and without loss or duplication, although the chunks travel over several
  connections; and its write side is closed only once everything was written.
\<close>

theorem upload_prefix:
  assumes "start_ok ids wconn qh es c lh conns" and "ksuid_codec kstr kparse"
    and "reaches (upload_step kstr kparse now hubs sv (lh_next lh))
      (upload_start now ids wconn ctx qh es lh src conns) t"
  shows "(\<exists>rest. tx (conns c) @ incoming src = tx (t_conns t c) @ rest) \<and>
    (wr_closed (t_conns t c) \<longrightarrow> tx (t_conns t c) = tx (conns c) @ incoming src)"
proof -
  have "tunnel_inv (\<lambda>c i. ksuid_codec kstr kparse) kstr (start_route now ids wconn es c lh src conns)
      (tunnel_start now ids (client_writer wconn ctx) qh es lh src conns)"
    using assms(1,2) by (intro start_inv) (simp_all add: client_writer_def)
  from server_rx.tunnel_prefix [OF this] assms(3) start_route_master [OF assms(1)]
  show ?thesis by (simp add: upload_step_def upload_start_def)
qed

theorem upload_prefix_witness:
  "start_ok [1, 2] unat NewQueueHub events0 0 NewLinkHub conns0 \<and>
   (\<exists>rest. [7, 8] = tx (t_conns (upload_start 0 [1, 2] unat (\<lambda>_. 0) NewQueueHub events0 NewLinkHub src0 conns0) 0) @ rest)"
  using start_ok0
    upload_prefix [where now = 0 and hubs = hub0 and sv = new_server and ctx = "\<lambda>_. 0" and src = src0,
      OF start_ok0 codec0 reaches_refl]
  by (simp add: src0_sel)

text \<open>
  Upload, liveness. As long as no five-minute timer fires, every run of the transfer is finite,
  and when no goroutine can move any more the target has received everything the application sent;
  if the application's stream has ended, the target's write side is closed too.
\<close>

theorem upload_delivers:
  assumes "start_ok ids wconn qh es c lh conns" and "ksuid_codec kstr kparse"
  shows "(\<exists>N. \<forall>n t. (upload_step kstr kparse now hubs sv (lh_next lh) ^^ n)
        (upload_start now ids wconn ctx qh es lh src conns) t \<longrightarrow> n \<le> N) \<and>
    (\<exists>t. reaches (upload_step kstr kparse now hubs sv (lh_next lh))
        (upload_start now ids wconn ctx qh es lh src conns) t \<and>
       (\<forall>u. \<not> upload_step kstr kparse now hubs sv (lh_next lh) t u)) \<and>
    (\<forall>t. reaches (upload_step kstr kparse now hubs sv (lh_next lh))
        (upload_start now ids wconn ctx qh es lh src conns) t \<and>
       (\<forall>u. \<not> upload_step kstr kparse now hubs sv (lh_next lh) t u) \<longrightarrow>
       tx (t_conns t c) = tx (conns c) @ incoming src \<and>
       (incoming_end src \<noteq> None \<longrightarrow> wr_closed (t_conns t c)))"
proof -
  have "tunnel_inv (\<lambda>c i. ksuid_codec kstr kparse) kstr (start_route now ids wconn es c lh src conns)
      (upload_start now ids wconn ctx qh es lh src conns)"
    using assms(1,2) unfolding upload_start_def by (intro start_inv) (simp_all add: client_writer_def)
  note d = server_rx.tunnel_delivers [OF this, unfolded start_route_master [OF assms(1)], folded upload_step_def]
  show ?thesis
    using d(1) d(3) d(2) by (intro conjI) (blast, blast, auto)
qed

theorem upload_delivers_witness:
  "start_ok [1, 2] unat NewQueueHub events0 0 NewLinkHub conns0 \<and>
   (\<exists>t. reaches (upload_step kstr0 kparse0 0 hub0 new_server 0)
       (upload_start 0 [1, 2] unat (\<lambda>_. 0) NewQueueHub events0 NewLinkHub src0 conns0) t \<and>
     tx (t_conns t 0) = [7, 8] \<and> wr_closed (t_conns t 0))"
  using start_ok0 upload_delivers [where now = 0 and hubs = hub0 and sv = new_server
      and ctx = "\<lambda>_. 0" and src = src0, OF start_ok0 codec0]
  by (auto simp: src0_sel)

text \<open>
  Download, safety: the same from the server's target back to the application, through the
  client's receive loops.
\<close>

theorem download_prefix:
  assumes "start_ok ids wconn qh es c lh conns" and "ksuid_codec kstr kparse"
    and "\<forall>i\<in>set ids. GetProxyById i (wscs (wconn i)) \<noteq> None"
    and "reaches (download_step kstr kparse wscs cw (lh_next lh))
      (download_start now ids wconn qh es lh src conns) t"
  shows "(\<exists>rest. tx (conns c) @ incoming src = tx (t_conns t c) @ rest) \<and>
    (wr_closed (t_conns t c) \<longrightarrow> tx (t_conns t c) = tx (conns c) @ incoming src)"
proof -
  have "tunnel_inv (\<lambda>c i. ksuid_codec kstr kparse \<and> GetProxyById i (wscs c) \<noteq> None) kstr
      (start_route now ids wconn es c lh src conns)
      (tunnel_start now ids (server_writer wconn) qh es lh src conns)"
    using assms(1-3) by (intro start_inv) (simp_all add: server_writer_def)
  from client_rx.tunnel_prefix [OF this] assms(4) start_route_master [OF assms(1)]
  show ?thesis by (simp add: download_step_def download_start_def)
qed

theorem download_prefix_witness:
  "start_ok [1, 2] unat NewQueueHub events0 0 NewLinkHub conns0 \<and>
   (\<exists>rest. [7, 8] = tx (t_conns (download_start 0 [1, 2] unat NewQueueHub events0 NewLinkHub src0 conns0) 0) @ rest)"
  using start_ok0 download_prefix [where cw = client0 and now = 0 and src = src0,
      OF start_ok0 codec0 proxies0 reaches_refl]
  by (simp add: src0_sel)

text \<open>Download, liveness: every run is finite and ends with everything delivered.\<close>

theorem download_delivers:
  assumes "start_ok ids wconn qh es c lh conns" and "ksuid_codec kstr kparse"
    and "\<forall>i\<in>set ids. GetProxyById i (wscs (wconn i)) \<noteq> None"
  shows "(\<exists>N. \<forall>n t. (download_step kstr kparse wscs cw (lh_next lh) ^^ n)
        (download_start now ids wconn qh es lh src conns) t \<longrightarrow> n \<le> N) \<and>
    (\<exists>t. reaches (download_step kstr kparse wscs cw (lh_next lh))
        (download_start now ids wconn qh es lh src conns) t \<and>
       (\<forall>u. \<not> download_step kstr kparse wscs cw (lh_next lh) t u)) \<and>
    (\<forall>t. reaches (download_step kstr kparse wscs cw (lh_next lh))
        (download_start now ids wconn qh es lh src conns) t \<and>
       (\<forall>u. \<not> download_step kstr kparse wscs cw (lh_next lh) t u) \<longrightarrow>
       tx (t_conns t c) = tx (conns c) @ incoming src \<and>
       (incoming_end src \<noteq> None \<longrightarrow> wr_closed (t_conns t c)))"
proof -
  have "tunnel_inv (\<lambda>c i. ksuid_codec kstr kparse \<and> GetProxyById i (wscs c) \<noteq> None) kstr
      (start_route now ids wconn es c lh src conns)
      (download_start now ids wconn qh es lh src conns)"
    using assms(1-3) unfolding download_start_def by (intro start_inv) (simp_all add: server_writer_def)
  note d = client_rx.tunnel_delivers [where cworld = cw, OF this, unfolded start_route_master [OF assms(1)], folded download_step_def]
  show ?thesis
    using d(1) d(3) d(2) by (intro conjI) (blast, blast, auto)
qed

theorem download_delivers_witness:
  "start_ok [1, 2] unat NewQueueHub events0 0 NewLinkHub conns0 \<and>
   (\<exists>t. reaches (download_step kstr0 kparse0 wscs0 client0 0)
       (download_start 0 [1, 2] unat NewQueueHub events0 NewLinkHub src0 conns0) t \<and>
     tx (t_conns t 0) = [7, 8] \<and> wr_closed (t_conns t 0))"
  using start_ok0 download_delivers [where cw = client0 and now = 0 and src = src0,
      OF start_ok0 codec0 proxies0]
  by (auto simp: src0_sel)

end
