(* ===== verification/Expiry.thy ===== *)
theory Expiry
  imports Queue Link
begin

text \<open>
  \<open>TimeoutClose\<close> of the two hubs (\<open>pipe/queue.go\<close>, \<open>pipe/link.go\<close>). Both collect identifiers of entries
  older than an hour, in the order in which the run visits the map, and then close and delete them.
  The locale \<open>reaper\<close> is what the second loop relies on; it is interpreted on both hubs.
\<close>

section \<open>Closing a list of entries\<close>

locale reaper =
  fixes hub_wf0 :: "'h \<Rightarrow> bool"
    and present :: "'h \<Rightarrow> ksuid \<Rightarrow> bool"
    and drop_one :: "ksuid \<Rightarrow> 'h \<Rightarrow> 'h option"
    and close_all :: "ksuid list \<Rightarrow> 'h \<Rightarrow> 'h option"
  assumes drop_one_ok: "hub_wf0 h \<Longrightarrow>
      \<exists>h'. drop_one k h = Some h' \<and> hub_wf0 h' \<and> (\<forall>j. present h' j \<longleftrightarrow> j \<noteq> k \<and> present h j)"
    and close_Nil: "close_all [] h = Some h"
    and close_Cons: "close_all (k # ks) h =
      (if present h k then Option.bind (drop_one k h) (close_all ks) else None)"
begin

lemma close_all_exact:
  assumes "hub_wf0 h" and "distinct ks" and "\<forall>k\<in>set ks. present h k"
  shows "\<exists>h'. close_all ks h = Some h' \<and> hub_wf0 h' \<and> (\<forall>j. present h' j \<longleftrightarrow> j \<notin> set ks \<and> present h j)"
  using assms
proof (induction ks arbitrary: h)
  case Nil
  then show ?case by (simp add: close_Nil)
next
  case (Cons k ks)
  from drop_one_ok [OF Cons.prems(1), of k] obtain h1 where h1: "drop_one k h = Some h1" "hub_wf0 h1"
      "\<forall>j. present h1 j \<longleftrightarrow> j \<noteq> k \<and> present h j"
    by blast
  have "\<forall>k\<in>set ks. present h1 k" using Cons.prems h1(3) by auto
  from Cons.IH [OF h1(2) _ this] Cons.prems obtain h2 where "close_all ks h1 = Some h2" "hub_wf0 h2"
      "\<forall>j. present h2 j \<longleftrightarrow> j \<notin> set ks \<and> present h1 j"
    by auto
  with h1 Cons.prems show ?case by (auto simp: close_Cons)
qed

text \<open>A second run of the loop on the same identifiers would find none of them.\<close>

lemma close_all_gone:
  assumes "hub_wf0 h" and "distinct ks" and "\<forall>k\<in>set ks. present h k" and "close_all ks h = Some h'"
    and "k \<in> set ks"
  shows "close_all (k # ks') h' = None"
  using close_all_exact [OF assms(1-3)] assms(4,5) by (auto simp: close_Cons)

end

interpretation queue_reaper: reaper qh_wf "\<lambda>h m. gm_get (qh_queue h) m \<noteq> None" QueueHub_Remove qh_close_all
proof
  fix h :: "'w QueueHub" and k
  assume "qh_wf h"
  from QueueHub_Remove_wf [OF this, of k] show "\<exists>h'. QueueHub_Remove k h = Some h' \<and> qh_wf h' \<and>
      (\<forall>j. (gm_get (qh_queue h') j \<noteq> None) = (j \<noteq> k \<and> gm_get (qh_queue h) j \<noteq> None))"
    by (metis gm_get_del)
qed simp_all

interpretation link_reaper: reaper lh_wf "\<lambda>h i. gm_get (lh_links h) i \<noteq> None" lh_drop lh_close_all
proof
  fix h and k
  assume "lh_wf h"
  from lh_drop_wf [OF this, of k] show "\<exists>h'. lh_drop k h = Some h' \<and> lh_wf h' \<and>
      (\<forall>j. (gm_get (lh_links h') j \<noteq> None) = (j \<noteq> k \<and> gm_get (lh_links h) j \<noteq> None))"
    by (metis gm_get_del)
qed simp_all

section \<open>What the first loop collects\<close>

definition queue_expired :: "instant \<Rightarrow> 'w QueueHub \<Rightarrow> ksuid \<Rightarrow> bool" where
  "queue_expired now h m \<longleftrightarrow>
     (case gm_get (qh_queue h) m of None \<Rightarrow> False | Some r \<Rightarrow> expHour < now - q_ctime (qh_heap h r))"

definition link_expired :: "instant \<Rightarrow> LinkHub \<Rightarrow> ksuid \<Rightarrow> bool" where
  "link_expired now h i \<longleftrightarrow>
     (case gm_get (lh_links h) i of None \<Rightarrow> False | Some r \<Rightarrow> expHour < now - l_ctime (lh_heap h r))"

lemma take_Suc_diff: "n \<le> 100 \<Longrightarrow> take (101 - n) (x # xs) = x # take (101 - Suc n) xs"
  by (simp add: Suc_diff_le take_Cons' )

lemma qh_collect_take:
  "length tmp \<le> 100 \<Longrightarrow>
     qh_collect now h order tmp = tmp @ take (101 - length tmp) (filter (queue_expired now h) order)"
proof (induction order arbitrary: tmp)
  case Nil
  then show ?case by simp
next
  case (Cons m order)
  show ?case
  proof (cases "length tmp = 100")
    case True
    with Cons show ?thesis by (auto simp: queue_expired_def split: option.splits)
  next
    case False
    with Cons show ?thesis
      by (auto simp: queue_expired_def take_Suc_diff split: option.splits)
  qed
qed

lemma lh_collect_take:
  "length tmp \<le> 100 \<Longrightarrow>
     lh_collect now h order tmp = tmp @ take (101 - length tmp) (filter (link_expired now h) order)"
proof (induction order arbitrary: tmp)
  case Nil
  then show ?case by simp
next
  case (Cons m order)
  show ?case
  proof (cases "length tmp = 100")
    case True
    with Cons show ?thesis by (auto simp: link_expired_def split: option.splits)
  next
    case False
    with Cons show ?thesis
      by (auto simp: link_expired_def take_Suc_diff split: option.splits)
  qed
qed

section \<open>Properties\<close>

text \<open>
  \<open>QueueHub.TimeoutClose\<close> never panics and keeps the hub well formed. It removes exactly the first
  101 expired queues its map iteration meets (all of them when there are no more than 101), and
  leaves every other entry in place.
\<close>

theorem QueueHub_TimeoutClose_exact:
  assumes "qh_wf h" and "distinct order"
  shows "\<exists>h'. QueueHub_TimeoutClose now order h = Some h' \<and> qh_wf h' \<and>
    (\<forall>m. QueueHub_Get m h' \<noteq> None \<longleftrightarrow>
       m \<notin> set (take 101 (filter (queue_expired now h) order)) \<and> QueueHub_Get m h \<noteq> None)"
proof -
  let ?ks = "take 101 (filter (queue_expired now h) order)"
  have "\<forall>k\<in>set ?ks. gm_get (qh_queue h) k \<noteq> None"
    by (auto simp: queue_expired_def dest!: in_set_takeD split: option.splits)
  from queue_reaper.close_all_exact [OF assms(1) _ this] assms(2) show ?thesis
    by (simp add: QueueHub_TimeoutClose_def qh_collect_take QueueHub_Get_def)
qed

theorem QueueHub_TimeoutClose_exact_witness:
  "qh_wf (fst (QueueHub_Add 0 1 1 () NewQueueHub)) \<and>
   (\<exists>h'. QueueHub_TimeoutClose 4000000000000 [1] (fst (QueueHub_Add 0 1 1 () NewQueueHub)) = Some h' \<and>
     QueueHub_Get 1 h' = None)"
proof -
  let ?h = "fst (QueueHub_Add 0 1 1 () NewQueueHub)"
  have "queue_expired 4000000000000 ?h 1"
    by (simp add: queue_expired_def QueueHub_Add_def qh_create_def NewQueue_def expHour_def Hour_def
        Minute_def Second_def gm_get_def gm_put_def Let_def)
  then have ks: "take 101 (filter (queue_expired 4000000000000 ?h) [1]) = [1]" by simp
  have wf: "qh_wf ?h" by (simp add: qh_wf_Add)
  from QueueHub_TimeoutClose_exact [OF wf, of "[1]" 4000000000000, unfolded ks] wf show ?thesis
    by (metis distinct_singleton list.set_intros(1))
qed

text \<open>The same for \<open>LinkHub.TimeoutClose\<close>.\<close>

theorem LinkHub_TimeoutClose_exact:
  assumes "lh_wf h" and "distinct order"
  shows "\<exists>h'. LinkHub_TimeoutClose now order h = Some h' \<and> lh_wf h' \<and>
    (\<forall>i. LinkHub_Get i h' \<noteq> None \<longleftrightarrow>
       i \<notin> set (take 101 (filter (link_expired now h) order)) \<and> LinkHub_Get i h \<noteq> None)"
proof -
  let ?ks = "take 101 (filter (link_expired now h) order)"
  have "\<forall>k\<in>set ?ks. gm_get (lh_links h) k \<noteq> None"
    by (auto simp: link_expired_def dest!: in_set_takeD split: option.splits)
  from link_reaper.close_all_exact [OF assms(1) _ this] assms(2) show ?thesis
    by (simp add: LinkHub_TimeoutClose_def lh_collect_take LinkHub_Get_def)
qed

theorem LinkHub_TimeoutClose_exact_witness:
  "lh_wf (fst (LinkHub_Add 0 1 1 NewLinkHub)) \<and>
   (\<exists>h'. LinkHub_TimeoutClose 4000000000000 [1] (fst (LinkHub_Add 0 1 1 NewLinkHub)) = Some h' \<and>
     LinkHub_Get 1 h' = None)"
proof -
  let ?h = "fst (LinkHub_Add 0 1 1 NewLinkHub)"
  have "link_expired 4000000000000 ?h 1"
    by (simp add: link_expired_def LinkHub_Add_def LinkHub_trySend_def lh_ensure_def lh_create_def
        NewLink_def expHour_def Hour_def Minute_def Second_def gm_get_def gm_put_def Let_def)
  then have ks: "take 101 (filter (link_expired 4000000000000 ?h) [1]) = [1]" by simp
  have wf: "lh_wf ?h" by (simp add: lh_wf_Add)
  from LinkHub_TimeoutClose_exact [OF wf, of "[1]" 4000000000000, unfolded ks] wf show ?thesis
    by (metis distinct_singleton list.set_intros(1))
qed

end
