(* ===== verification/Queue_Races.thy ===== *)
theory Queue_Races
  imports Queue
begin

text \<open>
  Runs of \<open>queue.Send\<close> (\<open>pipe/queue.go\<close>) that the status field does not prevent. \<open>Send\<close> reads the status
  and stores a new one in two steps, so two goroutines can both pass the check, and a \<open>Send\<close> that
  starts after \<open>close\<close> overwrites the closed status.
\<close>

section \<open>One Send, run step by step\<close>

fun send_run ::
  "('w, 's) PipeWriter \<Rightarrow> nat \<Rightarrow> 'w send_pc \<times> 'w queue \<times> 's \<Rightarrow> ('w send_pc \<times> 'w queue \<times> 's) option" where
  "send_run pw 0 st = Some st"
| "send_run pw (Suc n) st = Option.bind (queue_Send_step pw False False st) (send_run pw n)"

text \<open>The goroutine is inside the loop: it will not return on its own.\<close>

fun looping :: "'w send_pc \<Rightarrow> bool" where
  "looping SendHead = True"
| "looping (SendIter r) = True"
| "looping (SendRead w r) = (w \<noteq> None)"
| "looping (SendPut w b r) = (w \<noteq> None \<and> b = zero_buffer)"
| "looping _ = False"

definition drained :: "'w queue \<Rightarrow> bool" where
  "drained q \<longleftrightarrow> q_status q = StaSend \<and> ch_closed (q_buffer q) \<and> ch_buf (q_buffer q) = [] \<and>
     (\<forall>i\<in>set (q_sorted q). gm_get (q_writers q) i \<noteq> None)"

fun rest_ids :: "'w send_pc \<Rightarrow> ksuid list" where
  "rest_ids (SendIter r) = r"
| "rest_ids (SendRead w r) = r"
| "rest_ids (SendPut w b r) = r"
| "rest_ids _ = []"

lemma drained_step:
  assumes "drained q" and "looping pc" and "set (rest_ids pc) \<subseteq> set (q_sorted q)"
    and "\<And>w d s. \<exists>s'. pw_Write pw w d s = Some ((length d, None), s')"
  shows "\<exists>pc' s'. queue_Send_step pw timer waiter (pc, q, s) = Some (pc', q, s') \<and> looping pc' \<and>
    set (rest_ids pc') \<subseteq> set (q_sorted q)"
proof (cases pc)
  case (SendIter r)
  with assms(1,3) show ?thesis by (cases r) (auto simp: drained_def)
next
  case (SendRead w r)
  have "readWithTimeout (q_buffer q) timer = Some ((zero_buffer, None), q_buffer q)"
    using assms(1) by (simp add: readWithTimeout_def chan_recv_zero drained_def)
  with SendRead assms(2,3) show ?thesis by simp
next
  case (SendPut w b r)
  with assms(2) obtain w' where "w = Some w'" "b = zero_buffer" by auto
  with assms(4) [of w' "[]" s] SendPut assms(3) show ?thesis by auto
qed (use assms(1,2) in \<open>auto simp: drained_def\<close>)

lemma drained_run:
  assumes "drained q" and "looping pc" and "set (rest_ids pc) \<subseteq> set (q_sorted q)"
    and "\<And>w d s. \<exists>s'. pw_Write pw w d s = Some ((length d, None), s')"
  shows "\<exists>pc' s'. send_run pw n (pc, q, s) = Some (pc', q, s') \<and> looping pc'"
  using assms(2,3)
proof (induction n arbitrary: pc s)
  case 0
  then show ?case by simp
next
  case (Suc n)
  from drained_step [OF assms(1) Suc.prems assms(4), of False False s] Suc.IH show ?case by auto
qed

section \<open>Two Sends on one queue\<close>

datatype race_event =
    First bool    \<comment> \<open>a step of the first goroutine; whether somebody waits on \<open>done\<close>\<close>
  | Second bool
  | CloseQueue    \<comment> \<open>\<open>q.close()\<close> by \<open>QueueHub.Remove\<close>\<close>

fun race_step ::
  "('w, 's) PipeWriter \<Rightarrow> race_event \<Rightarrow> 'w send_pc \<times> 'w send_pc \<times> 'w queue \<times> 's \<Rightarrow>
     ('w send_pc \<times> 'w send_pc \<times> 'w queue \<times> 's) option" where
  "race_step pw (First waiter) (p1, p2, q, s) =
     map_option (\<lambda>(p, q', s'). (p, p2, q', s')) (queue_Send_step pw False waiter (p1, q, s))"
| "race_step pw (Second waiter) (p1, p2, q, s) =
     map_option (\<lambda>(p, q', s'). (p1, p, q', s')) (queue_Send_step pw False waiter (p2, q, s))"
| "race_step pw CloseQueue (p1, p2, q, s) = map_option (\<lambda>q'. (p1, p2, q', s)) (queue_close q)"

fun race_run ::
  "('w, 's) PipeWriter \<Rightarrow> race_event list \<Rightarrow> 'w send_pc \<times> 'w send_pc \<times> 'w queue \<times> 's \<Rightarrow>
     ('w send_pc \<times> 'w send_pc \<times> 'w queue \<times> 's) option" where
  "race_run pw [] st = Some st"
| "race_run pw (e # es) st = Option.bind (race_step pw e st) (race_run pw es)"

section \<open>Properties\<close>



text \<open>
  On the server \<open>Send\<close> can be started twice on one queue: when the establish message overtakes the
  announcement of the last connection, that announcement starts it and \<open>TrySend\<close> in \<open>establish\<close>
  starts it again.
\<close>

theorem queue_send_started_twice:
  "let h1 = fst (QueueHub_Add t 1 1 w1 NewQueueHub);
       h2 = QueueHub_SetSort t 1 [1, 2] h1;
       (h3, started) = QueueHub_Add t 1 2 w2 h2
   in started = Some 0 \<and> QueueHub_TrySend 1 h3 = Some 0"
  by (simp add: QueueHub_Add_def QueueHub_SetSort_def QueueHub_TrySend_def QueueHub_trySend_def
      qh_create_def qh_update_def queue_SetSort_def NewQueueHub_def NewQueue_def gm_get_def gm_put_def
      gm_len_def Let_def)

text \<open>
  Two goroutines started on one queue can both pass the status check; once the first has returned
  and closed \<open>done\<close>, and the queue was closed, the second one sends on the closed channel, which is a
  panic that ends the process.
\<close>

theorem two_sends_panic:
  "\<exists>q' s'. race_run \<lparr>pw_Write = (\<lambda>w d s. Some ((length d, None), s @ d)), pw_WriteEOF = (\<lambda>w. Some)\<rparr>
      [First False, Second False, Second False,
       First False, First False, First False, First False, First False, First False, First False,
       First False, First False, First False, First False, Second False, Second False,
       First True, First False, CloseQueue,
       Second False, Second False, Second False, Second False, Second False, Second False]
      (SendEntry, SendEntry,
       (NewQueue t 1)\<lparr>q_writers := [(1, w)], q_sorted := [1],
          q_buffer := makeBuffer\<lparr>ch_buf := [data_buffer [7], eof_buffer]\<rparr>\<rparr>, []) =
    Some (SendExit None, SendCrash, q', s') \<and> s' = [7]"
  by (simp add: NewQueue_def queue_close_def chan_close_def readWithTimeout_def chan_recv_def gm_get_def)

end
