(* ===== verification/Conn_Records.thy ===== *)
theory Conn_Records
  imports Queue Link "HOL-Library.Multiset"
begin

text \<open>
  The connection record of the client (\<open>wss/conn_records.go\<close>): how many connections to each target are
  open. Counters are 64-bit unsigned integers and wrap. The mutex is the flag \<open>cr_locked\<close>: \<open>Update\<close>
  holds it while the callback \<open>OnChange\<close> runs, and Go's mutexes are not reentrant.

  \<open>'w\<close> is the state of the log device. The callback and \<open>logrus.Fatal\<close> (which writes to the log device
  and then ends the process) are arguments. A result \<open>(None, w)\<close> says that the process has ended.
\<close>

section \<open>Model\<close>

record ConnStatus =
  cs_Address :: string
  cs_IsNew :: bool
  cs_Type :: int

record ConnRecord =
  cr_ConnSize :: "64 word"
  cr_Addresses :: "(string, 64 word) gomap"
  cr_locked :: bool
  cr_QueueHubLen :: nat
  cr_LinkHubLen :: nat

definition NewConnRecord :: ConnRecord where
  "NewConnRecord =
     \<lparr>cr_ConnSize = 0, cr_Addresses = [], cr_locked = False, cr_QueueHubLen = 0, cr_LinkHubLen = 0\<rparr>"

type_synonym 'w on_change = "(ConnStatus \<Rightarrow> ConnRecord \<Rightarrow> 'w \<Rightarrow> 'w outcome) option"
type_synonym 'w fatal_log = "ConnRecord \<Rightarrow> 'w \<Rightarrow> 'w outcome"

text \<open>The counting of \<open>Update\<close>: the record, and whether the sizes were consistent.\<close>

definition count_status :: "ConnStatus \<Rightarrow> ConnRecord \<Rightarrow> ConnRecord \<times> bool" where
  "count_status status cr =
     (if cs_IsNew status
      then (let cr1 = cr\<lparr>cr_ConnSize := cr_ConnSize cr + 1\<rparr>
            in (case gm_get (cr_Addresses cr1) (cs_Address status) of
                  Some n \<Rightarrow> cr1\<lparr>cr_Addresses := gm_put (cs_Address status) (n + 1) (cr_Addresses cr1)\<rparr>
                | None \<Rightarrow> cr1\<lparr>cr_Addresses := gm_put (cs_Address status) 1 (cr_Addresses cr1)\<rparr>, True))
      else (let cr1 = cr\<lparr>cr_ConnSize := cr_ConnSize cr - 1\<rparr>
            in case gm_get (cr_Addresses cr1) (cs_Address status) of
                 Some n \<Rightarrow>
                   if 0 < n
                   then (if n - 1 = 0
                         then cr1\<lparr>cr_Addresses := gm_del (cs_Address status) (cr_Addresses cr1)\<rparr>
                         else cr1\<lparr>cr_Addresses := gm_put (cs_Address status) (n - 1) (cr_Addresses cr1)\<rparr>, True)
                   else (cr1, False)
               | None \<Rightarrow> (cr1, False)))"

text \<open>\<open>qlen\<close> and \<open>llen\<close>: the sizes of the client's two hubs at that moment.\<close>

definition ConnRecord_Update ::
  "'w on_change \<Rightarrow> 'w fatal_log \<Rightarrow> nat \<Rightarrow> nat \<Rightarrow> ConnStatus \<Rightarrow> ConnRecord \<Rightarrow> 'w \<Rightarrow>
     (ConnRecord option \<times> 'w) outcome" where
  "ConnRecord_Update OnChange Fatal qlen llen status cr w =
     (if cr_locked cr then Blocks
      else (case count_status status (cr\<lparr>cr_locked := True\<rparr>) of
              (cr1, False) \<Rightarrow> bind_outcome (Fatal cr1 w) (\<lambda>w'. Returns (None, w'))
            | (cr1, True) \<Rightarrow>
                (let cr2 = cr1\<lparr>cr_QueueHubLen := qlen, cr_LinkHubLen := llen\<rparr>
                 in case OnChange of
                      None \<Rightarrow> Returns (Some (cr2\<lparr>cr_locked := False\<rparr>), w)
                    | Some f \<Rightarrow>
                        bind_outcome (f status cr2 w)
                          (\<lambda>w'. Returns (Some (cr2\<lparr>cr_locked := False\<rparr>), w')))))"

section \<open>The multiset of open connections\<close>

definition cr_open :: "ConnRecord \<Rightarrow> string multiset" where
  "cr_open cr = mset (concat (map (\<lambda>(a, n). replicate (unat n) a) (cr_Addresses cr)))"

definition cr_wf :: "ConnRecord \<Rightarrow> bool" where
  "cr_wf cr \<longleftrightarrow> gm_wf (cr_Addresses cr) \<and> (\<forall>a. gm_get (cr_Addresses cr) a \<noteq> Some 0) \<and>
     cr_ConnSize cr = of_nat (size (cr_open cr))"

lemma cr_open_simps [simp]:
  "cr_open (cr\<lparr>cr_locked := b\<rparr>) = cr_open cr" "cr_open (cr\<lparr>cr_QueueHubLen := q\<rparr>) = cr_open cr"
  "cr_open (cr\<lparr>cr_LinkHubLen := q\<rparr>) = cr_open cr" "cr_open (cr\<lparr>cr_ConnSize := n\<rparr>) = cr_open cr"
  by (simp_all add: cr_open_def)

lemma cr_wf_simps [simp]:
  "cr_wf (cr\<lparr>cr_locked := b\<rparr>) = cr_wf cr" "cr_wf (cr\<lparr>cr_QueueHubLen := q\<rparr>) = cr_wf cr"
  "cr_wf (cr\<lparr>cr_LinkHubLen := q\<rparr>) = cr_wf cr"
  by (simp_all add: cr_wf_def)

lemma cr_new [simp]: "cr_wf NewConnRecord" "cr_open NewConnRecord = {#}" "\<not> cr_locked NewConnRecord"
  by (simp_all add: cr_wf_def cr_open_def NewConnRecord_def)

definition uses :: "64 word option \<Rightarrow> nat" where
  "uses n = (case n of None \<Rightarrow> 0 | Some k \<Rightarrow> unat k)"

lemma uses_simps [simp]: "uses None = 0" "uses (Some k) = unat k"
  by (simp_all add: uses_def)

lemma count_cr_open:
  assumes "gm_wf (cr_Addresses cr)"
  shows "count (cr_open cr) a = uses (gm_get (cr_Addresses cr) a)"
proof -
  have "count (mset (concat (map (\<lambda>(a, n). replicate (unat n) a) m))) a = uses (map_of m a)"
    if "distinct (map fst m)" for m :: "(string, 64 word) gomap"
    using that
  proof (induction m)
    case Nil
    show ?case by simp
  next
    case (Cons p m)
    obtain b n where p: "p = (b, n)" by (cases p)
    have "map_of m b = None" using Cons.prems p by (simp add: map_of_eq_None_iff)
    with Cons p show ?case by (simp add: count_replicate_mset)
  qed
  with assms show ?thesis by (simp add: cr_open_def gm_wf_def gm_get_def)
qed

lemma size_count_le: "count M a \<le> size M"
  by (metis count_le_replicate_mset_subset_eq size_mset_mono size_replicate_mset order_refl)

lemma unat_Suc: "unat n < 2 ^ 64 - 1 \<Longrightarrow> unat (n + 1 :: 64 word) = Suc (unat n)"
  by (simp add: unat_word_ariths)

lemma unat_pred: "n \<noteq> 0 \<Longrightarrow> unat (n - 1 :: 64 word) = unat n - 1"
  by (simp add: unat_minus_one)

text \<open>What each status does to the multiset, on every branch.\<close>

lemma count_status_new:
  assumes "cr_wf cr" and "size (cr_open cr) < 2 ^ 64 - 1" and "cs_IsNew st"
  shows "\<exists>cr'. count_status st cr = (cr', True) \<and> cr_wf cr' \<and>
    cr_open cr' = add_mset (cs_Address st) (cr_open cr) \<and> cr_locked cr' = cr_locked cr"
proof -
  let ?a = "cs_Address st" and ?n = "gm_get (cr_Addresses cr) (cs_Address st)"
  have wf: "gm_wf (cr_Addresses cr)" using assms(1) by (simp add: cr_wf_def)
  define k where "k = (case ?n of None \<Rightarrow> 1 | Some n \<Rightarrow> n + 1)"
  define cr' where "cr' = cr\<lparr>cr_ConnSize := cr_ConnSize cr + 1, cr_Addresses := gm_put ?a k (cr_Addresses cr)\<rparr>"
  have "uses ?n < 2 ^ 64 - 1"
    using assms(2) size_count_le [of "cr_open cr" ?a] by (simp add: count_cr_open [OF wf])
  then have k: "unat k = Suc (uses ?n)" by (auto simp: k_def unat_Suc split: option.splits)
  have "gm_wf (cr_Addresses cr')" using wf by (simp add: cr'_def)
  then have eq: "cr_open cr' = add_mset ?a (cr_open cr)"
    by (intro multiset_eqI) (simp add: count_cr_open wf, simp add: cr'_def k)
  have "k \<noteq> 0" using k by auto
  then have "cr_wf cr'" using assms(1) eq by (auto simp: cr_wf_def cr'_def add.commute)
  moreover have "count_status st cr = (cr', True)"
    using assms(3) by (simp add: count_status_def cr'_def k_def split: option.split)
  ultimately show ?thesis using eq by (simp add: cr'_def)
qed

lemma count_status_close:
  assumes "cr_wf cr" and "\<not> cs_IsNew st" and "cs_Address st \<in># cr_open cr"
  shows "\<exists>cr'. count_status st cr = (cr', True) \<and> cr_wf cr' \<and>
    cr_open cr' = cr_open cr - {#cs_Address st#} \<and> cr_locked cr' = cr_locked cr"
proof -
  let ?a = "cs_Address st"
  have wf: "gm_wf (cr_Addresses cr)" using assms(1) by (simp add: cr_wf_def)
  have "0 < uses (gm_get (cr_Addresses cr) ?a)"
    using assms(3) by (simp flip: count_cr_open [OF wf])
  then obtain n where n: "gm_get (cr_Addresses cr) ?a = Some n" "n \<noteq> 0"
    by (auto simp: uses_def unat_gt_0 split: option.splits)
  define m where "m = (if n - 1 = 0 then gm_del ?a (cr_Addresses cr) else gm_put ?a (n - 1) (cr_Addresses cr))"
  define cr' where "cr' = cr\<lparr>cr_ConnSize := cr_ConnSize cr - 1, cr_Addresses := m\<rparr>"
  have get: "uses (gm_get m b) = (if b = ?a then unat n - 1 else uses (gm_get (cr_Addresses cr) b))" for b
    using unat_pred [OF n(2)] by (auto simp: m_def)
  have "gm_wf (cr_Addresses cr')" using wf by (simp add: cr'_def m_def)
  then have eq: "cr_open cr' = cr_open cr - {#?a#}"
    by (intro multiset_eqI) (simp add: count_cr_open wf, auto simp: cr'_def get n(1))
  obtain M where M: "cr_open cr = add_mset ?a M" using multi_member_split [OF assms(3)] by blast
  have "cr_wf cr'"
    using assms(1) wf eq by (auto simp: cr_wf_def cr'_def m_def M split: if_splits)
  moreover have "count_status st cr = (cr', True)"
    using assms(2) n by (simp add: count_status_def cr'_def m_def word_greater_zero_iff)
  ultimately show ?thesis using eq by (simp add: cr'_def)
qed

lemma count_status_bad:
  assumes "cr_wf cr" and "\<not> cs_IsNew st" and "cs_Address st \<notin># cr_open cr"
  shows "\<exists>cr'. count_status st cr = (cr', False) \<and> cr_locked cr' = cr_locked cr"
proof -
  have "uses (gm_get (cr_Addresses cr) (cs_Address st)) = 0"
    using assms(1,3) count_cr_open [of cr] by (simp add: cr_wf_def not_in_iff)
  then show ?thesis
    using assms(1,2) by (auto simp: count_status_def cr_wf_def uses_def unat_eq_0 split: option.splits)
qed

section \<open>Update refines the multiset\<close>

text \<open>A callback that returns, whatever it does to the log device.\<close>

definition calm :: "'w on_change \<Rightarrow> bool" where
  "calm OnChange \<longleftrightarrow> (\<forall>f. OnChange = Some f \<longrightarrow> (\<forall>st cr w. \<exists>w'. f st cr w = Returns w'))"

lemma Update_counted:
  assumes "count_status st (cr\<lparr>cr_locked := True\<rparr>) = (cr1, True)" and "\<not> cr_locked cr" and "calm OnChange"
  shows "\<exists>w'. ConnRecord_Update OnChange Fatal qlen llen st cr w =
    Returns (Some (cr1\<lparr>cr_QueueHubLen := qlen, cr_LinkHubLen := llen, cr_locked := False\<rparr>), w')"
proof (cases OnChange)
  case None
  with assms(1,2) show ?thesis by (simp add: ConnRecord_Update_def)
next
  case (Some f)
  let ?cr = "cr1\<lparr>cr_QueueHubLen := qlen, cr_LinkHubLen := llen\<rparr>"
  obtain w' where "f st ?cr w = Returns w'" using assms(3) Some unfolding calm_def by blast
  with assms(1,2) Some show ?thesis by (simp add: ConnRecord_Update_def)
qed

lemma Update_new:
  assumes "cr_wf cr" and "\<not> cr_locked cr" and "calm OnChange" and "size (cr_open cr) < 2 ^ 64 - 1"
    and "cs_IsNew st"
  shows "\<exists>cr' w'. ConnRecord_Update OnChange Fatal qlen llen st cr w = Returns (Some cr', w') \<and>
    cr_wf cr' \<and> \<not> cr_locked cr' \<and> cr_open cr' = add_mset (cs_Address st) (cr_open cr)"
proof -
  obtain cr1 where "count_status st (cr\<lparr>cr_locked := True\<rparr>) = (cr1, True)" "cr_wf cr1"
      "cr_open cr1 = add_mset (cs_Address st) (cr_open cr)"
    using count_status_new [of "cr\<lparr>cr_locked := True\<rparr>" st] assms(1,4,5) by auto
  with Update_counted [OF _ assms(2,3)] show ?thesis by fastforce
qed

lemma Update_close:
  assumes "cr_wf cr" and "\<not> cr_locked cr" and "calm OnChange" and "\<not> cs_IsNew st"
    and "cs_Address st \<in># cr_open cr"
  shows "\<exists>cr' w'. ConnRecord_Update OnChange Fatal qlen llen st cr w = Returns (Some cr', w') \<and>
    cr_wf cr' \<and> \<not> cr_locked cr' \<and> cr_open cr' = cr_open cr - {#cs_Address st#}"
proof -
  obtain cr1 where "count_status st (cr\<lparr>cr_locked := True\<rparr>) = (cr1, True)" "cr_wf cr1"
      "cr_open cr1 = cr_open cr - {#cs_Address st#}"
    using count_status_close [of "cr\<lparr>cr_locked := True\<rparr>" st] assms(1,4,5) by auto
  with Update_counted [OF _ assms(2,3)] show ?thesis by fastforce
qed

text \<open>
  C22. The record is a multiset of open connections: with a callback that returns and fewer than
  \<open>2 ^ 64 - 1\<close> connections, \<open>Update\<close> of a new connection adds its address, \<open>Update\<close> of a closed one
  takes it out, the total is the size of the multiset, and the mutex is free again; closing an
  address that is not open ends the process.
\<close>

theorem ConnRecord_refines_multiset:
  assumes "cr_wf cr" and "\<not> cr_locked cr" and "calm OnChange" and "size (cr_open cr) < 2 ^ 64 - 1"
    and "\<And>cr w. \<exists>w'. Fatal cr w = Returns w'"
  shows "\<exists>r w'. ConnRecord_Update OnChange Fatal qlen llen st cr w = Returns (r, w') \<and>
    (if cs_IsNew st \<or> cs_Address st \<in># cr_open cr
     then \<exists>cr'. r = Some cr' \<and> cr_wf cr' \<and> \<not> cr_locked cr' \<and>
       cr_ConnSize cr' = of_nat (size (cr_open cr')) \<and>
       cr_open cr' = (if cs_IsNew st then add_mset (cs_Address st) (cr_open cr)
                      else cr_open cr - {#cs_Address st#})
     else r = None)"
proof -
  consider "cs_IsNew st" | "\<not> cs_IsNew st" "cs_Address st \<in># cr_open cr"
    | "\<not> cs_IsNew st" "cs_Address st \<notin># cr_open cr" by blast
  then show ?thesis
  proof cases
    case 1
    with Update_new [OF assms(1-4) 1] show ?thesis by (fastforce simp: cr_wf_def)
  next
    case 2
    with Update_close [OF assms(1-3) 2] show ?thesis by (fastforce simp: cr_wf_def)
  next
    case 3
    with count_status_bad [of "cr\<lparr>cr_locked := True\<rparr>" st] assms(1) obtain cr1
      where "count_status st (cr\<lparr>cr_locked := True\<rparr>) = (cr1, False)" by auto
    moreover obtain w' where "Fatal cr1 w = Returns w'" using assms(5) by blast
    ultimately show ?thesis using 3 assms(2) by (simp add: ConnRecord_Update_def)
  qed
qed

theorem ConnRecord_refines_multiset_witness:
  "\<exists>r w'. ConnRecord_Update None (\<lambda>_. Returns) 0 0 \<lparr>cs_Address = ''a:80'', cs_IsNew = True, cs_Type = 5\<rparr>
      NewConnRecord () = Returns (r, w') \<and>
    (\<exists>cr'. r = Some cr' \<and> cr_ConnSize cr' = 1 \<and> cr_open cr' = {#''a:80''#})"
proof -
  have "calm (None :: unit on_change)" by (simp add: calm_def)
  from ConnRecord_refines_multiset [OF cr_new(1) cr_new(3) this, where Fatal = "\<lambda>_. Returns" and qlen = 0
      and llen = 0 and w = "()" and st = "\<lparr>cs_Address = ''a:80'', cs_IsNew = True, cs_Type = 5\<rparr>"]
  show ?thesis by fastforce
qed

end
