(* ===== verification/Listener.thy ===== *)
theory Listener
  imports Client Conn_Records
begin

text \<open>
  \<open>Client.ListenAndServe\<close> of \<open>wss/wssocks_client.go\<close>: the accept loop and the goroutine of each accepted
  connection, step by step, with the client object, its wait group and the connection record they
  share. The visit itself (\<open>localVisit\<close>, \<open>transData\<close>) is one step here, taken when it has returned.
\<close>

section \<open>Model\<close>

datatype serve_pc =
    SvReply                              \<comment> \<open>\<open>client.Reply(conn)\<close>\<close>
  | SvAdd "bytes option" int string      \<comment> \<open>\<open>client.wgClose.Add(1)\<close>\<close>
  | SvAnswer "bytes option" int string   \<comment> \<open>\<open>conn.Write\<close> of the reply\<close>
  | SvOpen "bytes option" int string     \<comment> \<open>\<open>record.Update\<close>, new\<close>
  | SvCheck "bytes option" int string    \<comment> \<open>\<open>checkAddrPrivite(addr)\<close>\<close>
  | SvLocal "bytes option" int string    \<comment> \<open>\<open>client.localVisit\<close>\<close>
  | SvTrans "bytes option" int string    \<comment> \<open>\<open>client.transData\<close>\<close>
  | SvShut int string                    \<comment> \<open>deferred \<open>record.Update\<close>, closed\<close>
  | SvDone                               \<comment> \<open>deferred \<open>client.wgClose.Done()\<close>\<close>
  | SvClose                              \<comment> \<open>deferred \<open>conn.Close()\<close>\<close>
  | SvEnd

datatype listen_pc = LsListen | LsCheck | LsAccept | LsReturn go_error

record 'w listener =
  ln_pc :: listen_pc
  ln_client :: Client
  ln_record :: ConnRecord
  ln_conns :: "(serve_pc \<times> tcpconn) list"
  ln_log :: 'w
  ln_exited :: bool

text \<open>\<open>bound\<close>: what \<open>net.Listen\<close> answers; \<open>accepted\<close>: what \<open>tcpl.Accept\<close> answers.\<close>

fun ListenAndServe_step ::
  "go_error option \<Rightarrow> go_error + tcpconn \<Rightarrow> 'w listener \<Rightarrow> listen_pc \<Rightarrow> 'w listener option" where
  "ListenAndServe_step bound accepted L LsListen =
     Some (case bound of
             Some err \<Rightarrow> L\<lparr>ln_pc := LsReturn err\<rparr>
           | None \<Rightarrow> L\<lparr>ln_pc := LsCheck, ln_client := (ln_client L)\<lparr>cl_listening := True\<rparr>\<rparr>)"
| "ListenAndServe_step bound accepted L LsCheck =
     Some (if cl_stop_closed (ln_client L) then L\<lparr>ln_pc := LsReturn StoppedError\<rparr>
           else L\<lparr>ln_pc := LsAccept\<rparr>)"
| "ListenAndServe_step bound accepted L LsAccept =
     Some (case accepted of
             Inl err \<Rightarrow> L\<lparr>ln_pc := LsReturn (Errorf (''tcp accept error: '' @ Error err))\<rparr>
           | Inr c \<Rightarrow> L\<lparr>ln_pc := LsCheck, ln_conns := ln_conns L @ [(SvReply, c)]\<rparr>)"
| "ListenAndServe_step bound accepted L (LsReturn err) = None"

definition go_on :: "nat \<Rightarrow> serve_pc \<Rightarrow> tcpconn \<Rightarrow> 'w listener \<Rightarrow> 'w listener" where
  "go_on i pc c L = L\<lparr>ln_conns := (ln_conns L)[i := (pc, c)]\<rparr>"

text \<open>\<open>record.Update\<close> by goroutine \<open>i\<close>, which continues at \<open>pc\<close>.\<close>

definition serve_update ::
  "'w on_change \<Rightarrow> 'w fatal_log \<Rightarrow> nat \<Rightarrow> nat \<Rightarrow> ConnStatus \<Rightarrow> nat \<Rightarrow> serve_pc \<Rightarrow> tcpconn \<Rightarrow>
     'w listener \<Rightarrow> 'w listener option" where
  "serve_update OnChange Fatal qlen llen st i pc c L =
     (case ConnRecord_Update OnChange Fatal qlen llen st (ln_record L) (ln_log L) of
        Returns (Some cr, w) \<Rightarrow> Some (go_on i pc c (L\<lparr>ln_record := cr, ln_log := w\<rparr>))
      | Returns (None, w) \<Rightarrow> Some (L\<lparr>ln_log := w, ln_exited := True\<rparr>)
      | _ \<Rightarrow> None)"

text \<open>
  One step of goroutine \<open>i\<close>. \<open>visited\<close>: the connection as the visit left it, once it has returned;
  \<open>qlen\<close> and \<open>llen\<close>: the sizes of the client's hubs.
\<close>

fun serve_step ::
  "'w on_change \<Rightarrow> 'w fatal_log \<Rightarrow> (string \<Rightarrow> bytes list) \<Rightarrow> nat \<Rightarrow> nat \<Rightarrow> tcpconn option \<Rightarrow> nat \<Rightarrow>
     'w listener \<Rightarrow> serve_pc \<times> tcpconn \<Rightarrow> 'w listener option" where
  "serve_step OnChange Fatal LookupIP qlen llen visited i L (SvReply, c) =
     (case Reply c of
        None \<Rightarrow> None
      | Some (Inl err, c') \<Rightarrow> Some (go_on i SvClose c' L)
      | Some (Inr (fsd, proxyType, addr), c') \<Rightarrow> Some (go_on i (SvAdd fsd proxyType addr) c' L))"
| "serve_step OnChange Fatal LookupIP qlen llen visited i L (SvAdd fsd proxyType addr, c) =
     Some (go_on i (SvAnswer fsd proxyType addr) c
       (L\<lparr>ln_client := (ln_client L)\<lparr>cl_active := cl_active (ln_client L) + 1\<rparr>\<rparr>))"
| "serve_step OnChange Fatal LookupIP qlen llen visited i L (SvAnswer fsd proxyType addr, c) =
     Some (go_on i (SvOpen fsd proxyType addr)
       (if proxy_reply proxyType = [] then c else snd (conn_Write (proxy_reply proxyType) c)) L)"
| "serve_step OnChange Fatal LookupIP qlen llen visited i L (SvOpen fsd proxyType addr, c) =
     serve_update OnChange Fatal qlen llen \<lparr>cs_Address = addr, cs_IsNew = True, cs_Type = proxyType\<rparr>
       i (SvCheck fsd proxyType addr) c L"
| "serve_step OnChange Fatal LookupIP qlen llen visited i L (SvCheck fsd proxyType addr, c) =
     Some (go_on i (if checkAddrPrivite LookupIP addr then SvLocal fsd proxyType addr
                    else SvTrans fsd proxyType addr) c L)"
| "serve_step OnChange Fatal LookupIP qlen llen visited i L (SvLocal fsd proxyType addr, c) =
     map_option (\<lambda>c'. go_on i (SvShut proxyType addr) c' L) visited"
| "serve_step OnChange Fatal LookupIP qlen llen visited i L (SvTrans fsd proxyType addr, c) =
     map_option (\<lambda>c'. go_on i (SvShut proxyType addr) c' L) visited"
| "serve_step OnChange Fatal LookupIP qlen llen visited i L (SvShut proxyType addr, c) =
     serve_update OnChange Fatal qlen llen \<lparr>cs_Address = addr, cs_IsNew = False, cs_Type = proxyType\<rparr>
       i SvDone c L"
| "serve_step OnChange Fatal LookupIP qlen llen visited i L (SvDone, c) =
     Some (go_on i SvClose c
       (L\<lparr>ln_client := (ln_client L)\<lparr>cl_active := cl_active (ln_client L) - 1\<rparr>\<rparr>))"
| "serve_step OnChange Fatal LookupIP qlen llen visited i L (SvClose, c) =
     Some (go_on i SvEnd (conn_Close c) L)"
| "serve_step OnChange Fatal LookupIP qlen llen visited i L (SvEnd, c) = None"

text \<open>Any goroutine may move, and \<open>Client.Close\<close> may be called at any moment.\<close>

inductive listener_step ::
  "'w on_change \<Rightarrow> 'w fatal_log \<Rightarrow> (string \<Rightarrow> bytes list) \<Rightarrow> 'w listener \<Rightarrow> 'w listener \<Rightarrow> bool"
  for OnChange Fatal LookupIP where
  listener_accept:
    "\<not> ln_exited L \<Longrightarrow> ListenAndServe_step bound accepted L (ln_pc L) = Some L' \<Longrightarrow>
       listener_step OnChange Fatal LookupIP L L'"
| listener_serve:
    "\<not> ln_exited L \<Longrightarrow> i < length (ln_conns L) \<Longrightarrow>
       serve_step OnChange Fatal LookupIP qlen llen visited i L (ln_conns L ! i) = Some L' \<Longrightarrow>
       listener_step OnChange Fatal LookupIP L L'"
| listener_close:
    "\<not> ln_exited L \<Longrightarrow> Client_Close wait (ln_client L) = Returns (cl, waits) \<Longrightarrow>
       listener_step OnChange Fatal LookupIP L (L\<lparr>ln_client := cl\<rparr>)"

definition new_listener :: "'w \<Rightarrow> 'w listener" where
  "new_listener w =
     \<lparr>ln_pc = LsListen, ln_client = NewClient, ln_record = NewConnRecord, ln_conns = [],
      ln_log = w, ln_exited = False\<rparr>"

section \<open>Invariant\<close>

text \<open>The targets a goroutine has open in the record, and whether it counts in the wait group.\<close>

fun pc_open :: "serve_pc \<Rightarrow> string multiset" where
  "pc_open (SvCheck fsd p addr) = {#addr#}"
| "pc_open (SvLocal fsd p addr) = {#addr#}"
| "pc_open (SvTrans fsd p addr) = {#addr#}"
| "pc_open (SvShut p addr) = {#addr#}"
| "pc_open _ = {#}"

fun pc_counted :: "serve_pc \<Rightarrow> nat" where
  "pc_counted (SvAnswer fsd p addr) = 1"
| "pc_counted (SvOpen fsd p addr) = 1"
| "pc_counted (SvCheck fsd p addr) = 1"
| "pc_counted (SvLocal fsd p addr) = 1"
| "pc_counted (SvTrans fsd p addr) = 1"
| "pc_counted (SvShut p addr) = 1"
| "pc_counted SvDone = 1"
| "pc_counted _ = 0"

definition open_targets :: "(serve_pc \<times> tcpconn) list \<Rightarrow> string multiset" where
  "open_targets cs = sum_list (map (\<lambda>p. pc_open (fst p)) cs)"

definition counted :: "(serve_pc \<times> tcpconn) list \<Rightarrow> nat" where
  "counted cs = sum_list (map (\<lambda>p. pc_counted (fst p)) cs)"

definition listener_inv :: "'w listener \<Rightarrow> bool" where
  "listener_inv L \<longleftrightarrow> \<not> ln_exited L \<and> cr_wf (ln_record L) \<and> \<not> cr_locked (ln_record L) \<and>
     cr_open (ln_record L) = open_targets (ln_conns L) \<and> cl_active (ln_client L) = counted (ln_conns L)"

lemma targets_append [simp]:
  "open_targets (cs @ [p]) = open_targets cs + pc_open (fst p)"
  "counted (cs @ [p]) = counted cs + pc_counted (fst p)"
  by (simp_all add: open_targets_def counted_def)

lemma targets_update:
  assumes "i < length cs"
  shows "open_targets (cs[i := p]) + pc_open (fst (cs ! i)) = open_targets cs + pc_open (fst p)"
    and "counted (cs[i := p]) + pc_counted (fst (cs ! i)) = counted cs + pc_counted (fst p)"
  using assms sum_list_map_update [of i cs "\<lambda>p. pc_open (fst p)" p]
    sum_list_map_update [of i cs "\<lambda>p. pc_counted (fst p)" p]
  by (simp_all add: open_targets_def counted_def)

lemma size_open_targets: "size (open_targets cs) \<le> length cs"
proof (induction cs)
  case Nil
  show ?case by (simp add: open_targets_def)
next
  case (Cons p cs)
  have "size (pc_open pc) \<le> 1" for pc by (cases pc) auto
  then have "size (pc_open (fst p)) \<le> 1" .
  with Cons show ?case by (simp add: open_targets_def)
qed

lemma listener_inv_new [simp]: "listener_inv (new_listener w)"
  by (simp add: listener_inv_def new_listener_def open_targets_def counted_def NewClient_def)

text \<open>A step that touches neither the record nor the wait group.\<close>

lemma go_on_inv:
  assumes "listener_inv L" and "i < length (ln_conns L)" and "fst (ln_conns L ! i) = pc"
    and "pc_open pc' = pc_open pc" and "pc_counted pc' = pc_counted pc"
  shows "listener_inv (go_on i pc' c L)"
  using assms targets_update [OF assms(2), of "(pc', c)"] by (simp add: listener_inv_def go_on_def)

lemma serve_open_inv:
  assumes inv: "listener_inv L" and i: "i < length (ln_conns L)" "fst (ln_conns L ! i) = SvOpen fsd p addr"
    and "length (ln_conns L) < 2 ^ 64 - 1" and "calm OnChange"
    and upd: "serve_update OnChange Fatal qlen llen \<lparr>cs_Address = addr, cs_IsNew = True, cs_Type = p\<rparr>
      i (SvCheck fsd p addr) c L = Some L'"
  shows "listener_inv L'"
proof -
  let ?st = "\<lparr>cs_Address = addr, cs_IsNew = True, cs_Type = p\<rparr>"
  have "size (cr_open (ln_record L)) < 2 ^ 64 - 1"
    using inv assms(4) size_open_targets [of "ln_conns L"] by (simp add: listener_inv_def)
  with inv assms(5) obtain cr w where
    "ConnRecord_Update OnChange Fatal qlen llen ?st (ln_record L) (ln_log L) = Returns (Some cr, w)"
    "cr_wf cr" "\<not> cr_locked cr" "cr_open cr = add_mset addr (cr_open (ln_record L))"
    using Update_new [of "ln_record L" OnChange ?st Fatal qlen llen "ln_log L"]
    unfolding listener_inv_def by auto
  with inv upd i targets_update [OF i(1), of "(SvCheck fsd p addr, c)"] show ?thesis
    by (auto simp: serve_update_def listener_inv_def go_on_def)
qed

lemma serve_shut_inv:
  assumes inv: "listener_inv L" and i: "i < length (ln_conns L)" "fst (ln_conns L ! i) = SvShut p addr"
    and "calm OnChange"
    and upd: "serve_update OnChange Fatal qlen llen \<lparr>cs_Address = addr, cs_IsNew = False, cs_Type = p\<rparr>
      i SvDone c L = Some L'"
  shows "listener_inv L'"
proof -
  let ?st = "\<lparr>cs_Address = addr, cs_IsNew = False, cs_Type = p\<rparr>"
  have eq: "add_mset addr (open_targets ((ln_conns L)[i := (SvDone, c)])) = open_targets (ln_conns L)"
    using targets_update(1) [OF i(1), of "(SvDone, c)"] i(2) by simp
  then have "addr \<in># cr_open (ln_record L)"
    using inv unfolding listener_inv_def by (metis union_single_eq_member)
  with inv assms(4) obtain cr w where
    "ConnRecord_Update OnChange Fatal qlen llen ?st (ln_record L) (ln_log L) = Returns (Some cr, w)"
    "cr_wf cr" "\<not> cr_locked cr" "cr_open cr = cr_open (ln_record L) - {#addr#}"
    using Update_close [of "ln_record L" OnChange ?st Fatal qlen llen "ln_log L"]
    unfolding listener_inv_def by auto
  moreover have "open_targets (ln_conns L) - {#addr#} = open_targets ((ln_conns L)[i := (SvDone, c)])"
    unfolding eq [symmetric] by simp
  ultimately show ?thesis
    using inv upd i(2) targets_update(2) [OF i(1), of "(SvDone, c)"]
    by (auto simp: serve_update_def listener_inv_def go_on_def)
qed

lemma serve_step_inv:
  assumes inv: "listener_inv L" and i: "i < length (ln_conns L)"
    and len: "length (ln_conns L) < 2 ^ 64 - 1" and calm: "calm OnChange"
    and step: "serve_step OnChange Fatal LookupIP qlen llen visited i L (ln_conns L ! i) = Some L'"
  shows "listener_inv L'"
proof -
  obtain pc c where at: "ln_conns L ! i = (pc, c)" by (cases "ln_conns L ! i")
  note move = go_on_inv [OF inv i, of pc]
  show ?thesis
  proof (cases pc)
    case SvReply
    with step at show ?thesis
      by (auto simp: move split: option.splits prod.splits sum.splits)
  next
    case (SvAdd fsd p addr)
    with step at inv targets_update [OF i, of "(SvAnswer fsd p addr, c)"] show ?thesis
      by (auto simp: listener_inv_def go_on_def)
  next
    case (SvOpen fsd p addr)
    with step at show ?thesis by (intro serve_open_inv [OF inv i _ len calm]) auto
  next
    case (SvShut p addr)
    with step at show ?thesis by (intro serve_shut_inv [OF inv i _ calm]) auto
  next
    case SvDone
    with step at inv targets_update [OF i, of "(SvClose, c)"] show ?thesis
      by (auto simp: listener_inv_def go_on_def)
  qed (use step at in \<open>auto simp: move\<close>)
qed

lemma Client_Close_active: "Client_Close wait cl = Returns (cl', waits) \<Longrightarrow> cl_active cl' = cl_active cl"
  by (auto simp: Client_Close_def split: if_splits)

lemma listener_step_inv:
  assumes "listener_step OnChange Fatal LookupIP L L'" and "listener_inv L"
    and "length (ln_conns L) < 2 ^ 64 - 1" and "calm OnChange"
  shows "listener_inv L'"
  using assms(1)
proof cases
  case (listener_accept bound accepted)
  with assms(2) show ?thesis
    by (cases "ln_pc L") (auto simp: listener_inv_def split: option.splits sum.splits if_splits)
next
  case (listener_serve i qlen llen visited)
  then show ?thesis using serve_step_inv assms(2-4) by blast
next
  case (listener_close wait cl waits)
  with assms(2) show ?thesis by (simp add: listener_inv_def Client_Close_active)
qed

lemma listener_step_grows:
  assumes "listener_step OnChange Fatal LookupIP L L'"
  shows "length (ln_conns L) \<le> length (ln_conns L')"
  using assms
proof cases
  case (listener_accept bound accepted)
  then show ?thesis by (cases "ln_pc L") (auto split: option.splits sum.splits if_splits)
next
  case (listener_serve i qlen llen visited)
  then show ?thesis
    by (cases "ln_conns L ! i"; cases "fst (ln_conns L ! i)")
      (auto simp: go_on_def serve_update_def split: option.splits prod.splits sum.splits outcome.splits)
qed simp

text \<open>
  C7. However the accept loop, the goroutines of the connections and \<open>Client.Close\<close> interleave, the
  connection record lists exactly the targets being visited and the wait group counts exactly the
  connections past their reply; the inconsistency for which \<open>Update\<close> ends the process never occurs.
\<close>

theorem record_counts_connections:
  assumes "reaches (listener_step OnChange Fatal LookupIP) (new_listener w) L"
    and "length (ln_conns L) < 2 ^ 64 - 1" and "calm OnChange"
  shows "\<not> ln_exited L \<and> \<not> cr_locked (ln_record L) \<and>
    cr_open (ln_record L) = open_targets (ln_conns L) \<and>
    cr_ConnSize (ln_record L) = of_nat (size (open_targets (ln_conns L))) \<and>
    cl_active (ln_client L) = counted (ln_conns L)"
proof -
  have "listener_inv L"
    using assms(1,2)
  proof (induction "new_listener w" L rule: reaches.induct)
    case reaches_refl
    show ?case by simp
  next
    case (reaches_step L L')
    then have "length (ln_conns L) < 2 ^ 64 - 1" using listener_step_grows by fastforce
    with reaches_step show ?case using listener_step_inv assms(3) by blast
  qed
  then show ?thesis by (auto simp: listener_inv_def cr_wf_def)
qed


theorem record_counts_connections_witness:
  "\<exists>L. reaches (listener_step None (\<lambda>_. Returns) (\<lambda>_. [])) (new_listener ()) L \<and>
     length (ln_conns L) = 1 \<and> cr_ConnSize (ln_record L) = 0 \<and> cl_active (ln_client L) = 0"
proof -
  let ?step = "listener_step None (\<lambda>_. Returns) (\<lambda>_. [])"
  let ?L0 = "new_listener ()"
  let ?L1 = "?L0\<lparr>ln_pc := LsCheck, ln_client := NewClient\<lparr>cl_listening := True\<rparr>\<rparr>"
  let ?L2 = "?L1\<lparr>ln_pc := LsAccept\<rparr>"
  let ?L3 = "?L2\<lparr>ln_pc := LsCheck, ln_conns := [(SvReply, new_conn [])]\<rparr>"
  have 1: "?step ?L0 ?L1"
    by (rule listener_accept [where bound = None]) (simp_all add: new_listener_def)
  have 2: "?step ?L1 ?L2"
    by (rule listener_accept) (simp_all add: new_listener_def NewClient_def)
  have 3: "?step ?L2 ?L3"
    by (rule listener_accept [where accepted = "Inr (new_conn [])"]) (simp_all add: new_listener_def)
  have run: "reaches ?step ?L0 ?L3"
    by (rule reaches_first [where step = ?step, OF 1], rule reaches_first [where step = ?step, OF 2],
        rule reaches_first [where step = ?step, OF 3], rule reaches_refl)
  have "calm (None :: unit on_change)" by (simp add: calm_def)
  from record_counts_connections [OF run _ this] run show ?thesis
    by (intro exI [of _ ?L3]) (simp add: open_targets_def counted_def)
qed

end
