(* ===== verification/Local_Visit.thy ===== *)
theory Local_Visit
  imports Client
begin

text \<open>
  Visits of private targets, which the client serves itself (\<open>Client.localVisit\<close>): what the two copying
  goroutines leave behind. The frame lemma says what a run of \<open>CopyBuffer\<close> keeps of its source and of
  its destination.
\<close>

lemma conn_Read_frame:
  "conn_Read n c = Some (r, c') \<Longrightarrow>
     tx c' = tx c \<and> tx_script c' = tx_script c \<and> wr_closed c' = wr_closed c \<and> conn_closed c' = conn_closed c"
  by (auto simp: conn_Read_def split: if_splits list.splits rx_event.splits)

lemma CopyBuffer_frame:
  assumes "CopyBuffer pw w n c s = Some (r, c', s')" and "P s"
    and "\<And>p s r t. P s \<Longrightarrow> pw_Write pw w p s = Some (r, t) \<Longrightarrow> P t"
    and "\<And>s t. P s \<Longrightarrow> pw_WriteEOF pw w s = Some t \<Longrightarrow> P t"
  shows "P s' \<and> tx c' = tx c \<and> tx_script c' = tx_script c \<and> wr_closed c' = wr_closed c \<and>
    conn_closed c' = conn_closed c"
  using assms(1,2)
proof (induction "rx_size (rx c)" arbitrary: n c s rule: less_induct)
  case less
  obtain n' e' where r: "r = (n', e')" by (cases r)
  from less.prems(1) [unfolded r] show ?case
  proof (cases rule: CopyBuffer_cases)
    case (loop d c1 s1)
    note rd = conn_Read_data(3) [OF loop(1) bufSize_pos]
    have "P s1" using loop(2) less.prems(2) assms(3) by blast
    with less.hyps [OF rd] loop(3) r conn_Read_frame [OF loop(1)] show ?thesis by fastforce
  next
    case (fail d er nw ew)
    with conn_Read_frame [OF fail(1)] less.prems(2) assms(3) show ?thesis by blast
  next
    case (finish e)
    with conn_Read_frame [OF finish(1)] less.prems(2) assms(4) show ?thesis by blast
  qed
qed

text \<open>Copying into a fresh connection, with what it keeps of both ends.\<close>

definition fresh_writes :: "tcpconn \<Rightarrow> bool" where
  "fresh_writes c \<longleftrightarrow> \<not> conn_closed c \<and> \<not> wr_closed c \<and> tx_script c = []"

lemma copy_to_tcp:
  assumes "fresh_writes dst" and "incoming_end src = Some e"
  shows "\<exists>r src' dst'. CopyBuffer NewTcp () n src dst = Some (r, src', dst') \<and>
    tx dst' = tx dst @ incoming src \<and> rx dst' = rx dst \<and> \<not> conn_closed dst' \<and>
    tx src' = tx src \<and> (fresh_writes src \<longrightarrow> fresh_writes src')"
proof -
  obtain r src' dst' where run: "CopyBuffer NewTcp () n src dst = Some (r, src', dst')"
      and tx: "tx dst' = tx dst @ incoming src"
    using tcp.copy_returns [of dst src e n] assms unfolding fresh_writes_def by blast
  have "(rx dst' = rx dst \<and> \<not> conn_closed dst') \<and> tx src' = tx src \<and> tx_script src' = tx_script src \<and>
      wr_closed src' = wr_closed src \<and> conn_closed src' = conn_closed src"
  proof (rule CopyBuffer_frame [where P = "\<lambda>c. rx c = rx dst \<and> \<not> conn_closed c", OF run])
    show "rx dst = rx dst \<and> \<not> conn_closed dst" using assms(1) by (simp add: fresh_writes_def)
  qed (auto simp: NewTcp_def tcp_Write_def tcp_WriteEOF_def conn_CloseWrite_def dest: conn_Write_frame)
  with run tx show ?thesis by (auto simp: fresh_writes_def)
qed

text \<open>
  C23. A local visit relays both directions completely: when both streams have an end, \<open>localVisit\<close>
  returns without error, the target got everything the application sent, the application got
  everything the target sent, each in order, and the connection to the target is closed.
\<close>

theorem localVisit_relays:
  assumes "Dial addr = Inr remote" and "fresh_writes conn" and "fresh_writes remote"
    and "incoming_end conn = Some e1" and "incoming_end remote = Some e2"
  shows "\<exists>conn' remote'. localVisit Dial conn None addr = Returns (None, conn', Some remote') \<and>
    tx remote' = tx remote @ incoming conn \<and> tx conn' = tx conn @ incoming remote \<and> conn_closed remote'"
proof -
  have "snd (conn_Write [] remote) = remote"
    using assms(3) by (simp add: conn_Write_ok fresh_writes_def)
  moreover obtain r1 conn1 remote1 where c1: "CopyBuffer NewTcp () 0 conn remote = Some (r1, conn1, remote1)"
      "tx remote1 = tx remote @ incoming conn" "rx remote1 = rx remote" "\<not> conn_closed remote1"
      "tx conn1 = tx conn" "fresh_writes conn1"
    using copy_to_tcp [OF assms(3,4), of 0] assms(2) by blast
  moreover have "incoming remote1 = incoming remote" "incoming_end remote1 = Some e2"
    using c1(3,4) assms(3,5) by (simp_all add: incoming_def incoming_end_def fresh_writes_def)
  moreover obtain r2 remote2 conn2 where "CopyBuffer NewTcp () 0 remote1 conn1 = Some (r2, remote2, conn2)"
      "tx conn2 = tx conn1 @ incoming remote1" "tx remote2 = tx remote1"
    using copy_to_tcp [OF c1(6) calculation(9), of 0] by blast
  ultimately show ?thesis
    using assms(1) by (simp add: localVisit_def conn_Close_def)
qed

theorem localVisit_relays_witness:
  "\<exists>conn' remote'. localVisit (\<lambda>_. Inr (new_conn [RxData [7, 8], RxErr EOF]))
      (new_conn [RxData [1], RxData [2, 3], RxErr EOF]) None ''a:80'' = Returns (None, conn', Some remote') \<and>
    tx remote' = [1, 2, 3] \<and> tx conn' = [7, 8] \<and> conn_closed remote'"
  using localVisit_relays [of "\<lambda>_. Inr (new_conn [RxData [7, 8], RxErr EOF])" "''a:80''" _
      "new_conn [RxData [1], RxData [2, 3], RxErr EOF]" EOF EOF]
  by (simp add: new_conn_def fresh_writes_def incoming_def incoming_end_def)

end
