(* ===== verification/Buffered_WR.thy ===== *)
theory Buffered_WR
  imports Go_Chan
begin

text \<open>
  The blocking byte buffer \<open>BufferedWR\<close> (\<open>wss/buffered_reader_writer.go\<close>): a \<open>bytes.Buffer\<close>, a flag, a
  channel of capacity one on which a writer announces that the empty buffer gets data, and a mutex.
  \<open>Write\<close> holds the mutex while it waits to send on the channel; \<open>Read\<close> looks at the buffer's length
  and waits on the channel without the mutex. The two methods are therefore given by the points at
  which another goroutine can come between; \<open>Close\<close> is atomic.
\<close>

section \<open>Model\<close>

record BufferedWR =
  bw_buffer :: bytes
  bw_done :: bool
  bw_update :: "unit chan"
  bw_mu :: bool

definition NewBufferWR :: BufferedWR where
  "NewBufferWR = \<lparr>bw_buffer = [], bw_done = False, bw_update = make_chan 1, bw_mu = False\<rparr>"

definition BufferedWR_isClosed :: "BufferedWR \<Rightarrow> bool" where
  "BufferedWR_isClosed h = bw_done h"

definition BufferedWR_Close :: "BufferedWR \<Rightarrow> BufferedWR outcome" where
  "BufferedWR_Close h =
     (if bw_mu h then Blocks
      else if bw_done h then Returns h
      else bind_outcome (or_panic (chan_close (bw_update h)))
             (\<lambda>u. Returns (h\<lparr>bw_done := True, bw_update := u\<rparr>)))"

text \<open>
  \<open>Write\<close> up to the send on the channel: it has returned, or it holds the mutex and is about to send.
\<close>

datatype wr_pc = WrReturn nat "go_error option" | WrSignal bytes

definition BufferedWR_Write :: "bytes \<Rightarrow> BufferedWR \<Rightarrow> (wr_pc \<times> BufferedWR) outcome" where
  "BufferedWR_Write p h =
     (if bw_mu h then Blocks
      else if bw_done h then Returns (WrReturn 0 (Some (Errorf ''write after buffer closed'')), h)
      else if p = [] then Returns (WrReturn 0 None, h)
      else if bw_buffer h = [] then Returns (WrSignal p, h\<lparr>bw_mu := True\<rparr>)
      else Returns (WrReturn (length p) None, h\<lparr>bw_buffer := bw_buffer h @ p\<rparr>))"

text \<open>The send, the write into the buffer and the deferred unlock.\<close>

definition BufferedWR_signal :: "bytes \<Rightarrow> BufferedWR \<Rightarrow> (wr_pc \<times> BufferedWR) outcome" where
  "BufferedWR_signal p h =
     (case chan_send () (bw_update h) of
        Sent u \<Rightarrow> Returns (WrReturn (length p) None,
                    h\<lparr>bw_update := u, bw_buffer := bw_buffer h @ p, bw_mu := False\<rparr>)
      | SendBlocks \<Rightarrow> Blocks
      | SendPanics \<Rightarrow> Panics)"

datatype rd_pc = RdLook | RdWait | RdLock | RdReturn bytes "go_error option"

text \<open>\<open>bytes.Buffer.Read\<close> into a slice of length \<open>n\<close>.\<close>

definition Buffer_Read :: "nat \<Rightarrow> bytes \<Rightarrow> (bytes \<times> go_error option) \<times> bytes" where
  "Buffer_Read n b =
     (if b = [] then (([], if n = 0 then None else Some EOF), [])
      else ((take n b, None), drop n b))"

fun BufferedWR_Read :: "nat \<Rightarrow> rd_pc \<Rightarrow> BufferedWR \<Rightarrow> (rd_pc \<times> BufferedWR) outcome" where
  "BufferedWR_Read n RdLook h = Returns (if bw_buffer h = [] then RdWait else RdLock, h)"
| "BufferedWR_Read n RdWait h =
     (case ch_buf (bw_update h) of
        x # u \<Rightarrow> Returns (RdLock, h\<lparr>bw_update := (bw_update h)\<lparr>ch_buf := u\<rparr>\<rparr>)
      | [] \<Rightarrow> if ch_closed (bw_update h) then Returns (RdReturn [] (Some EOF), h) else Blocks)"
| "BufferedWR_Read n RdLock h =
     (if bw_mu h then Blocks
      else if bw_done h then Returns (RdReturn [] (Some EOF), h)
      else (case Buffer_Read n (bw_buffer h) of
              ((d, err), b) \<Rightarrow> Returns (RdReturn d err, h\<lparr>bw_buffer := b\<rparr>)))"
| "BufferedWR_Read n (RdReturn d err) h = Returns (RdReturn d err, h)"

section \<open>A writer, a reader and closers\<close>

text \<open>
  One goroutine writes, one reads, others may close. \<open>by_written\<close> are the bytes of the writes that
  returned without error, \<open>by_reads\<close> what the reads returned, in order.
\<close>

record bw_system =
  by_bw :: BufferedWR
  by_writer :: "bytes option"          \<comment> \<open>\<open>Some p\<close>: inside \<open>Write(p)\<close>, at the send\<close>
  by_reader :: "(nat \<times> rd_pc) option"  \<comment> \<open>inside \<open>Read\<close> with a slice of that length\<close>
  by_written :: bytes
  by_reads :: "(bytes \<times> go_error option) list"

definition new_bw_system :: bw_system where
  "new_bw_system =
     \<lparr>by_bw = NewBufferWR, by_writer = None, by_reader = None, by_written = [], by_reads = []\<rparr>"

definition write_done :: "bytes \<Rightarrow> wr_pc \<Rightarrow> BufferedWR \<Rightarrow> bw_system \<Rightarrow> bw_system" where
  "write_done p pc h s =
     (case pc of
        WrSignal q \<Rightarrow> s\<lparr>by_bw := h, by_writer := Some q\<rparr>
      | WrReturn n err \<Rightarrow> s\<lparr>by_bw := h, by_writer := None, by_written := by_written s @ take n p\<rparr>)"

definition read_done :: "nat \<Rightarrow> rd_pc \<Rightarrow> BufferedWR \<Rightarrow> bw_system \<Rightarrow> bw_system" where
  "read_done n pc h s =
     (case pc of
        RdReturn d err \<Rightarrow> s\<lparr>by_bw := h, by_reader := None, by_reads := by_reads s @ [(d, err)]\<rparr>
      | _ \<Rightarrow> s\<lparr>by_bw := h, by_reader := Some (n, pc)\<rparr>)"

inductive bw_step :: "bw_system \<Rightarrow> bw_system \<Rightarrow> bool" where
  bw_write: "by_writer s = None \<Longrightarrow> BufferedWR_Write p (by_bw s) = Returns (pc, h) \<Longrightarrow>
    bw_step s (write_done p pc h s)"
| bw_signal: "by_writer s = Some p \<Longrightarrow> BufferedWR_signal p (by_bw s) = Returns (pc, h) \<Longrightarrow>
    bw_step s (write_done p pc h s)"
| bw_call: "by_reader s = None \<Longrightarrow> bw_step s (s\<lparr>by_reader := Some (n, RdLook)\<rparr>)"
| bw_read: "by_reader s = Some (n, pc) \<Longrightarrow> BufferedWR_Read n pc (by_bw s) = Returns (pc', h) \<Longrightarrow>
    bw_step s (read_done n pc' h s)"
| bw_close: "BufferedWR_Close (by_bw s) = Returns h \<Longrightarrow> bw_step s (s\<lparr>by_bw := h\<rparr>)"

section \<open>Order and safety\<close>

definition bw_inv :: "bw_system \<Rightarrow> bool" where
  "bw_inv s \<longleftrightarrow> by_written s = concat (map fst (by_reads s)) @ bw_buffer (by_bw s) \<and>
     (by_writer s \<noteq> None \<longleftrightarrow> bw_mu (by_bw s)) \<and> (bw_mu (by_bw s) \<longrightarrow> \<not> bw_done (by_bw s)) \<and>
     (bw_done (by_bw s) \<longleftrightarrow> ch_closed (bw_update (by_bw s))) \<and> chan_wf (bw_update (by_bw s)) \<and>
     (\<forall>n d err. by_reader s \<noteq> Some (n, RdReturn d err))"

lemma bw_inv_new: "bw_inv new_bw_system"
  by (simp add: bw_inv_def new_bw_system_def NewBufferWR_def make_chan_def chan_wf_def)

lemma bw_inv_step:
  assumes "bw_inv s" and "bw_step s t"
  shows "bw_inv t"
  using assms(2)
proof cases
  case (bw_write p pc h)
  with assms(1) show ?thesis
    by (auto simp: BufferedWR_Write_def bw_inv_def write_done_def split: if_splits)
next
  case (bw_signal p pc h)
  with assms(1) show ?thesis
    by (auto simp: BufferedWR_signal_def bw_inv_def write_done_def chan_send_Sent_iff chan_wf_def
        split: send_result.splits)
next
  case (bw_call n)
  with assms(1) show ?thesis by (auto simp: bw_inv_def)
next
  case (bw_read n pc pc' h)
  with assms(1) show ?thesis
    by (cases pc)
      (auto simp: bw_inv_def read_done_def Buffer_Read_def chan_wf_def split: if_splits list.splits)
next
  case (bw_close h)
  with assms(1) show ?thesis
    by (auto simp: BufferedWR_Close_def bw_inv_def chan_close_def chan_wf_def split: if_splits)
qed

interpretation bw: machine bw_step bw_inv
  by unfold_locales (rule bw_inv_step)

text \<open>
  C27. However one writer, one reader and calls of \<open>Close\<close> interleave, the bytes the reads returned,
  followed by what is still buffered, are the bytes written: nothing is lost, duplicated or
  reordered. The writer's send never meets a closed channel and \<open>Close\<close> never closes it twice, so no
  method panics.
\<close>

theorem bufferedwr_fifo:
  assumes "reaches bw_step new_bw_system s"
  shows "by_written s = concat (map fst (by_reads s)) @ bw_buffer (by_bw s) \<and>
    (\<forall>p. by_writer s = Some p \<longrightarrow> BufferedWR_signal p (by_bw s) \<noteq> Panics) \<and>
    BufferedWR_Close (by_bw s) \<noteq> Panics"
proof -
  have "bw_inv s" using bw.reaches_inv [OF assms bw_inv_new] .
  then show ?thesis
    by (auto simp: bw_inv_def BufferedWR_signal_def BufferedWR_Close_def chan_close_def
        chan_send_Panics_iff split: send_result.splits)
qed

section \<open>Schedules\<close>

datatype bw_event = DoWrite bytes | DoSignal | DoCall nat | DoRead | DoClose

fun bw_act :: "bw_event \<Rightarrow> bw_system \<Rightarrow> bw_system option" where
  "bw_act (DoWrite p) s =
     (if by_writer s = None
      then returned (\<lambda>(pc, h). write_done p pc h s) (BufferedWR_Write p (by_bw s)) else None)"
| "bw_act DoSignal s =
     Option.bind (by_writer s)
       (\<lambda>p. returned (\<lambda>(pc, h). write_done p pc h s) (BufferedWR_signal p (by_bw s)))"
| "bw_act (DoCall n) s = (if by_reader s = None then Some (s\<lparr>by_reader := Some (n, RdLook)\<rparr>) else None)"
| "bw_act DoRead s =
     Option.bind (by_reader s)
       (\<lambda>(n, pc). returned (\<lambda>(pc', h). read_done n pc' h s) (BufferedWR_Read n pc (by_bw s)))"
| "bw_act DoClose s = returned (\<lambda>h. s\<lparr>by_bw := h\<rparr>) (BufferedWR_Close (by_bw s))"

lemma bw_act_step: "bw_act e s = Some t \<Longrightarrow> bw_step s t"
  by (cases e) (auto simp: returned_Some bind_eq_Some_conv intro: bw_step.intros split: if_splits)

lemma bw_run: "run_events bw_act es s = Some t \<Longrightarrow> reaches bw_step s t"
  using run_events_reaches [where step = bw_step] bw_act_step by blast

lemmas bw_eval = new_bw_system_def NewBufferWR_def make_chan_def BufferedWR_Write_def write_done_def
  BufferedWR_signal_def chan_send_def read_done_def Buffer_Read_def returned_def BufferedWR_Close_def
  chan_close_def

theorem bufferedwr_fifo_witness:
  "\<exists>s. reaches bw_step new_bw_system s \<and> by_written s = [7, 8, 9] \<and> map fst (by_reads s) = [[7, 8]] \<and>
     bw_buffer (by_bw s) = [9]"
proof -
  let ?run = "run_events bw_act [DoWrite [7, 8], DoSignal, DoWrite [9], DoCall 2, DoRead, DoRead] new_bw_system"
  have run: "?run = Some (the ?run)" by (simp add: bw_eval)
  show ?thesis
    using bufferedwr_fifo [OF bw_run [OF run]] bw_run [OF run]
    by (intro exI [of _ "the ?run"]) (simp add: bw_eval)
qed

text \<open>
  A reader can be told the end of the stream while the buffer is open and the writer still writes:
  a read that finds data at once leaves the announcement in the channel, the next read takes this
  old announcement, finds the buffer empty, and returns \<open>io.EOF\<close>.
\<close>

theorem bufferedwr_false_eof:
  "\<exists>s t. reaches bw_step new_bw_system s \<and> reaches bw_step s t \<and>
     \<not> BufferedWR_isClosed (by_bw s) \<and> by_reads s = [([7], None), ([], Some EOF)] \<and>
     by_written s = [7] \<and> by_written t = [7, 8]"
proof -
  let ?first = "run_events bw_act [DoWrite [7], DoSignal, DoCall 9, DoRead, DoRead, DoCall 9, DoRead,
    DoRead, DoRead] new_bw_system"
  have f: "?first = Some (the ?first)" by (simp add: bw_eval)
  let ?then = "run_events bw_act [DoWrite [8], DoSignal] (the ?first)"
  have t: "?then = Some (the ?then)" by (simp add: bw_eval)
  show ?thesis
    using bw_run [OF f] bw_run [OF t]
    by (intro exI [of _ "the ?first"] exI [of _ "the ?then"])
      (simp add: bw_eval BufferedWR_isClosed_def)
qed

text \<open>
  One read after several writes need not return them all: a reader that waits already gets the first
  write alone, however long its slice is. \<open>TestBufferWR\<close> expects the three writes of its one read.
\<close>

lemma bufferedwr_read_alone:
  assumes "d \<noteq> []" and "length d \<le> n"
  shows "\<exists>s. reaches bw_step new_bw_system s \<and> by_reads s = [(d, None)] \<and> by_written s = d @ d @ d"
proof -
  let ?run = "run_events bw_act [DoCall n, DoRead, DoWrite d, DoSignal, DoRead, DoRead, DoWrite d, DoSignal, DoWrite d] new_bw_system"
  have run: "?run = Some (the ?run)" using assms by (simp add: bw_eval)
  show ?thesis
    using bw_run [OF run] assms by (intro exI [of _ "the ?run"]) (simp add: bw_eval)
qed

end
