(* ===== verification/Ws_Buffer.thy ===== *)
theory Ws_Buffer
  imports Ws_Writer
begin

text \<open>
  \<open>Base64WSBufferWriter\<close> of \<open>wss/ws_datatypes.go\<close>: bytes are collected in a buffer and sent as one data
  message when it is flushed. Both methods hold the mutex from start to end. \<open>WriteWSJSON\<close> of the
  WebSocket passed to \<open>Flush\<close> is \<open>wsjson.Write\<close> on its connection.
\<close>

record Base64WSBufferWriter =
  bb_buffer :: bytes

definition bb_Write :: "bytes \<Rightarrow> Base64WSBufferWriter \<Rightarrow> (nat \<times> go_error option) \<times> Base64WSBufferWriter" where
  "bb_Write p b = ((length p, None), b\<lparr>bb_buffer := bb_buffer b @ p\<rparr>)"

definition bb_Flush ::
  "('c, 'net) wsjson_write \<Rightarrow> (ksuid \<Rightarrow> string) \<Rightarrow> int \<Rightarrow> ksuid \<Rightarrow> 'c \<Rightarrow> Base64WSBufferWriter \<Rightarrow> 'net \<Rightarrow>
     (nat \<times> go_error option) \<times> Base64WSBufferWriter \<times> 'net" where
  "bb_Flush wsjson_Write kstr messageType cid cws b net =
     (let n = length (bb_buffer b)
      in if n \<noteq> 0
         then (let dataBase64 = EncodeToString (bb_buffer b);
                   jsonData = \<lparr>wm_Id = kstr cid, wm_Type = WsTpData,
                     wm_Data = PProxyData \<lparr>pd_Tag = 0, pd_DataBase64 = dataBase64\<rparr>\<rparr>
               in case wsjson_Write cws (enc_message kstr jsonData) net of
                    (Some err, net') \<Rightarrow> ((0, Some err), b, net')
                  | (None, net') \<Rightarrow> ((n, None), b\<lparr>bb_buffer := []\<rparr>, net'))
         else ((0, None), b, net))"

text \<open>Writes and flushes in any order, as several goroutines may issue them.\<close>

datatype bb_op = BbWrite bytes | BbFlush int

fun bb_run ::
  "('c, 'net) wsjson_write \<Rightarrow> (ksuid \<Rightarrow> string) \<Rightarrow> ksuid \<Rightarrow> 'c \<Rightarrow> bb_op list \<Rightarrow>
     Base64WSBufferWriter \<Rightarrow> 'net \<Rightarrow> Base64WSBufferWriter \<times> 'net" where
  "bb_run wsw kstr cid cws [] b net = (b, net)"
| "bb_run wsw kstr cid cws (BbWrite p # ops) b net = bb_run wsw kstr cid cws ops (snd (bb_Write p b)) net"
| "bb_run wsw kstr cid cws (BbFlush m # ops) b net =
     (case bb_Flush wsw kstr m cid cws b net of (r, b', net') \<Rightarrow> bb_run wsw kstr cid cws ops b' net')"

fun bb_written :: "bb_op list \<Rightarrow> bytes" where
  "bb_written [] = []"
| "bb_written (BbWrite p # ops) = p @ bb_written ops"
| "bb_written (BbFlush m # ops) = bb_written ops"

text \<open>The payloads of the data messages for \<open>cid\<close> among the documents.\<close>

definition payloads :: "(ksuid \<Rightarrow> string) \<Rightarrow> ksuid \<Rightarrow> json list \<Rightarrow> bytes" where
  "payloads kstr cid docs = concat (map (frame_data (kstr cid)) docs)"

lemma bb_Flush_payloads:
  assumes "ws_network wsw frames" and "bb_Flush wsw kstr m cid cws b net = (r, b', net')"
  shows "payloads kstr cid (frames cws net') @ bb_buffer b' = payloads kstr cid (frames cws net) @ bb_buffer b"
proof (cases "bb_buffer b = []")
  case True
  with assms(2) show ?thesis by (simp add: bb_Flush_def)
next
  case False
  let ?doc = "enc_message kstr (data_message kstr cid 0 (bb_buffer b))"
  obtain e net1 where w: "wsw cws ?doc net = (e, net1)" by fastforce
  have d: "frame_data (kstr cid) ?doc = bb_buffer b" by (simp add: frame_data_message)
  show ?thesis
  proof (cases e)
    case None
    with w assms(1) have "frames cws net1 = frames cws net @ [?doc]" by (auto dest: ws_network.write_ok)
    with w False None assms(2) d show ?thesis
      by (auto simp: bb_Flush_def Let_def data_message_def payloads_def)
  next
    case (Some err)
    with w assms(1) have "frames cws net1 = frames cws net" by (auto dest: ws_network.write_err)
    with w False Some assms(2) show ?thesis
      by (auto simp: bb_Flush_def Let_def data_message_def)
  qed
qed

text \<open>
  Whatever the order of \<open>Write\<close> and \<open>Flush\<close> calls and whichever flushes fail, the payloads of the
  messages sent, decoded as the receiver decodes them, followed by the bytes still buffered are the
  bytes written: a failed flush keeps its data, a successful one sends it once.
\<close>

theorem buffer_writer_roundtrip:
  assumes "ws_network wsw frames" and "bb_run wsw kstr cid cws ops b net = (b', net')"
  shows "payloads kstr cid (frames cws net') @ bb_buffer b' =
    payloads kstr cid (frames cws net) @ bb_buffer b @ bb_written ops"
  using assms(2)
proof (induction ops arbitrary: b net)
  case Nil
  then show ?case by simp
next
  case (Cons op ops)
  show ?case
  proof (cases op)
    case (BbWrite p)
    with Cons show ?thesis by (simp add: bb_Write_def)
  next
    case (BbFlush m)
    obtain r b1 net1 where f: "bb_Flush wsw kstr m cid cws b net = (r, b1, net1)" by (cases "bb_Flush wsw kstr m cid cws b net")
    with BbFlush Cons.prems Cons.IH [of b1 net1] bb_Flush_payloads [OF assms(1) f] show ?thesis
      by simp
  qed
qed

theorem buffer_writer_roundtrip_witness:
  "\<exists>b' net'. bb_run lanes_Write kstr0 1 () [BbWrite [7], BbWrite [8], BbFlush 0, BbWrite [9]] \<lparr>bb_buffer = []\<rparr> (\<lambda>_. [])
      = (b', net') \<and> payloads kstr0 1 (net' ()) @ bb_buffer b' = [7, 8, 9]"
proof -
  let ?run = "bb_run lanes_Write kstr0 1 () [BbWrite [7], BbWrite [8], BbFlush 0, BbWrite [9]] \<lparr>bb_buffer = []\<rparr> (\<lambda>_. [])"
  have "ws_network lanes_Write (\<lambda>c net. net c)" by unfold_locales (auto simp: lanes_Write_def)
  from buffer_writer_roundtrip [OF this, of kstr0 1 "()" _ _ _ "fst ?run" "snd ?run", OF prod.collapse [symmetric]]
  show ?thesis by (intro exI [of _ "fst ?run"] exI [of _ "snd ?run"]) (simp add: payloads_def)
qed

end
