(* ===== verification/Version_Neg.thy ===== *)
theory Version_Neg
  imports Ws_Writer
begin

text \<open>
  The version negotiation (\<open>wss/version.go\<close>): the two structs exchanged as JSON documents right after
  the WebSocket is open. Version codes are 64-bit unsigned integers.

  \<open>wsjson_Write\<close> and \<open>wsjson_Read\<close> stand for the third-party functions of these names; a document that
  does not decode into the struct makes \<open>wsjson.Read\<close> return an error.
\<close>

section \<open>Model\<close>

definition VersionCode :: "64 word" where "VersionCode = 4"
definition CompVersion :: "64 word" where "CompVersion = 3"
definition CoreVersion :: string where "CoreVersion = ''0.5.0''"

lemmas version_consts = VersionCode_def CompVersion_def CoreVersion_def

record VersionNeg =
  vn_Version :: string
  vn_CompVersion :: "64 word"
  vn_VersionCode :: "64 word"
  vn_EnableStatusPage :: bool

definition enc_VersionNeg :: "VersionNeg \<Rightarrow> json" where
  "enc_VersionNeg v =
     JObj [(''version'', JStr (vn_Version v)), (''comp_version'', JNum (uint (vn_CompVersion v))),
           (''version_code'', JNum (uint (vn_VersionCode v))),
           (''status_page'', JBool (vn_EnableStatusPage v))]"

fun dec_uint :: "json \<Rightarrow> 64 word \<Rightarrow> 64 word option" where
  "dec_uint (JNum n) old = (if 0 \<le> n \<and> n < 2 ^ 64 then Some (word_of_int n) else None)"
| "dec_uint JNull old = Some old"
| "dec_uint _ old = None"

definition set_VersionNeg :: "string \<Rightarrow> json \<Rightarrow> VersionNeg \<Rightarrow> VersionNeg option" where
  "set_VersionNeg k v r =
     (if key_is ''version'' k then map_option (\<lambda>s. r\<lparr>vn_Version := s\<rparr>) (dec_string v (vn_Version r))
      else if key_is ''comp_version'' k
      then map_option (\<lambda>n. r\<lparr>vn_CompVersion := n\<rparr>) (dec_uint v (vn_CompVersion r))
      else if key_is ''version_code'' k
      then map_option (\<lambda>n. r\<lparr>vn_VersionCode := n\<rparr>) (dec_uint v (vn_VersionCode r))
      else if key_is ''status_page'' k
      then map_option (\<lambda>b. r\<lparr>vn_EnableStatusPage := b\<rparr>) (dec_bool v (vn_EnableStatusPage r))
      else Some r)"

definition dec_VersionNeg :: "json \<Rightarrow> VersionNeg option" where
  "dec_VersionNeg j =
     dec_struct set_VersionNeg j
       \<lparr>vn_Version = [], vn_CompVersion = 0, vn_VersionCode = 0, vn_EnableStatusPage = False\<rparr>"

type_synonym ('c, 'net) wsjson_read = "'c \<Rightarrow> 'net \<Rightarrow> (go_error + json) \<times> 'net"

definition read_VersionNeg :: "('c, 'net) wsjson_read \<Rightarrow> 'c \<Rightarrow> 'net \<Rightarrow> (go_error + VersionNeg) \<times> 'net" where
  "read_VersionNeg wsjson_Read conn net =
     (case wsjson_Read conn net of
        (Inl err, net') \<Rightarrow> (Inl err, net')
      | (Inr doc, net') \<Rightarrow>
          (case dec_VersionNeg doc of
             None \<Rightarrow> (Inl (Errorf ''failed to unmarshal json''), net')
           | Some v \<Rightarrow> (Inr v, net')))"

definition client_version :: VersionNeg where
  "client_version =
     \<lparr>vn_Version = CoreVersion, vn_CompVersion = 0, vn_VersionCode = VersionCode, vn_EnableStatusPage = False\<rparr>"

definition server_version :: "bool \<Rightarrow> VersionNeg" where
  "server_version enableStatusPage =
     \<lparr>vn_Version = CoreVersion, vn_CompVersion = CompVersion, vn_VersionCode = VersionCode,
      vn_EnableStatusPage = enableStatusPage\<rparr>"

definition ExchangeVersion ::
  "('c, 'net) wsjson_write \<Rightarrow> ('c, 'net) wsjson_read \<Rightarrow> 'c \<Rightarrow> 'net \<Rightarrow> (go_error + VersionNeg) \<times> 'net" where
  "ExchangeVersion wsjson_Write wsjson_Read conn net =
     (case wsjson_Write conn (enc_VersionNeg client_version) net of
        (Some err, net1) \<Rightarrow> (Inl err, net1)
      | (None, net1) \<Rightarrow> read_VersionNeg wsjson_Read conn net1)"

definition NegVersionServer ::
  "('c, 'net) wsjson_write \<Rightarrow> ('c, 'net) wsjson_read \<Rightarrow> 'c \<Rightarrow> bool \<Rightarrow> 'net \<Rightarrow> go_error option \<times> 'net" where
  "NegVersionServer wsjson_Write wsjson_Read conn enableStatusPage net =
     (case read_VersionNeg wsjson_Read conn net of
        (Inl err, net1) \<Rightarrow> (Some err, net1)
      | (Inr v, net1) \<Rightarrow> wsjson_Write conn (enc_VersionNeg (server_version enableStatusPage)) net1)"

section \<open>Decoding inverts encoding\<close>

lemma version_keys [simp]:
  "key_is ''version'' ''version''" "\<not> key_is ''version'' ''comp_version''"
  "\<not> key_is ''version'' ''version_code''" "\<not> key_is ''version'' ''status_page''"
  "key_is ''comp_version'' ''comp_version''" "\<not> key_is ''comp_version'' ''version_code''"
  "\<not> key_is ''comp_version'' ''status_page''" "key_is ''version_code'' ''version_code''"
  "\<not> key_is ''version_code'' ''status_page''" "key_is ''status_page'' ''status_page''"
  by (simp_all add: key_is_def lower_char_def)

lemma uint_64: "0 \<le> uint (n :: 64 word) \<and> uint n < 2 ^ 64"
  using uint_lt2p [of n] by simp

lemma dec_enc_VersionNeg: "dec_VersionNeg (enc_VersionNeg v) = Some v"
  using uint_64 [of "vn_CompVersion v"] uint_64 [of "vn_VersionCode v"]
  by (simp add: dec_VersionNeg_def enc_VersionNeg_def dec_struct_def set_VersionNeg_def)

section \<open>The two ends together\<close>

text \<open>
  A duplex connection: what each side has sent and the other not read yet. The client's end sends
  to the server and receives from it, the server's end the other way round.
\<close>

record duplex =
  to_server :: "json list"
  to_client :: "json list"

datatype side = ClientEnd | ServerEnd

fun duplex_Write :: "(side, duplex) wsjson_write" where
  "duplex_Write ClientEnd v net = (None, net\<lparr>to_server := to_server net @ [v]\<rparr>)"
| "duplex_Write ServerEnd v net = (None, net\<lparr>to_client := to_client net @ [v]\<rparr>)"

fun duplex_Read :: "(side, duplex) wsjson_read" where
  "duplex_Read ClientEnd net =
     (case to_client net of [] \<Rightarrow> (Inl EOF, net) | v # r \<Rightarrow> (Inr v, net\<lparr>to_client := r\<rparr>))"
| "duplex_Read ServerEnd net =
     (case to_server net of [] \<Rightarrow> (Inl EOF, net) | v # r \<Rightarrow> (Inr v, net\<lparr>to_server := r\<rparr>))"

end
