(* ===== verification/Http_Header.thy ===== *)
theory Http_Header
  imports Go_Net
begin

text \<open>
  \<open>http.Header\<close> of Go's standard library as the program uses it (\<open>Set\<close>, \<open>Add\<close>, \<open>Get\<close> with canonical
  keys), and \<open>wss/http_utils.go\<close>, which prints the head of an HTTP request or response.
\<close>

section \<open>Canonical keys\<close>

definition token_byte :: "char \<Rightarrow> bool" where
  "token_byte c \<longleftrightarrow>
     (let n = of_char c :: nat
      in 48 \<le> n \<and> n \<le> 57 \<or> 65 \<le> n \<and> n \<le> 90 \<or> 97 \<le> n \<and> n \<le> 122
         \<or> c \<in> set ''!#$%&*+-.^_|~'' \<or> n = 39 \<or> n = 96)"

definition to_upper :: "char \<Rightarrow> char" where
  "to_upper c = (let n = of_char c :: nat in if 97 \<le> n \<and> n \<le> 122 then char_of (n - 32) else c)"

definition to_lower :: "char \<Rightarrow> char" where
  "to_lower c = (let n = of_char c :: nat in if 65 \<le> n \<and> n \<le> 90 then char_of (n + 32) else c)"

fun canon_chars :: "bool \<Rightarrow> string \<Rightarrow> string" where
  "canon_chars upper [] = []"
| "canon_chars upper (c # s) =
     (if upper then to_upper c else to_lower c) # canon_chars (c = CHR ''-'') s"

text \<open>A key with a byte that is no token byte is left alone.\<close>

definition CanonicalMIMEHeaderKey :: "string \<Rightarrow> string" where
  "CanonicalMIMEHeaderKey s = (if list_all token_byte s then canon_chars True s else s)"

section \<open>http.Header\<close>

type_synonym header = "(string, string list) gomap"

definition header_Set :: "string \<Rightarrow> string \<Rightarrow> header \<Rightarrow> header" where
  "header_Set k v h = gm_put (CanonicalMIMEHeaderKey k) [v] h"

definition header_Add :: "string \<Rightarrow> string \<Rightarrow> header \<Rightarrow> header" where
  "header_Add k v h =
     (let ck = CanonicalMIMEHeaderKey k
      in gm_put ck ((case gm_get h ck of None \<Rightarrow> [] | Some vs \<Rightarrow> vs) @ [v]) h)"

definition header_Get :: "string \<Rightarrow> header \<Rightarrow> string" where
  "header_Get k h =
     (case gm_get h (CanonicalMIMEHeaderKey k) of Some (v # vs) \<Rightarrow> v | _ \<Rightarrow> [])"

definition header_Values :: "string \<Rightarrow> header \<Rightarrow> string list" where
  "header_Values k h = (case gm_get h (CanonicalMIMEHeaderKey k) of None \<Rightarrow> [] | Some vs \<Rightarrow> vs)"

lemma header_Get_Set [simp]: "header_Get k (header_Set k v h) = v"
  by (simp add: header_Get_def header_Set_def)

lemma header_Values_Add:
  "header_Values k' (header_Add k v h) =
     (if CanonicalMIMEHeaderKey k' = CanonicalMIMEHeaderKey k
      then header_Values k' h @ [v] else header_Values k' h)"
  by (auto simp: header_Values_def header_Add_def Let_def split: option.splits)

lemma header_Values_empty [simp]: "header_Values k [] = []"
  by (simp add: header_Values_def)

section \<open>Printing a head\<close>

definition crlf :: string where
  "crlf = [CHR 0x0D, CHR 0x0A]"

text \<open>\<open>names\<close>: the order in which this run ranges over the header map.\<close>

definition header_lines :: "(string \<Rightarrow> string) \<Rightarrow> string list \<Rightarrow> header \<Rightarrow> string" where
  "header_lines print_name names h =
     concat (map (\<lambda>name. concat (map (\<lambda>v. print_name name @ '': '' @ v @ crlf)
       (case gm_get h name of None \<Rightarrow> [] | Some vs \<Rightarrow> vs))) names)"

definition HttpRequestHeader :: "string list \<Rightarrow> string \<Rightarrow> string \<Rightarrow> string \<Rightarrow> header \<Rightarrow> string \<Rightarrow> string" where
  "HttpRequestHeader names method url proto h buffer =
     buffer @ method @ '' '' @ url @ '' '' @ proto @ crlf @ header_lines (map to_lower) names h @ crlf"

definition HttpRespHeader :: "string list \<Rightarrow> string \<Rightarrow> string \<Rightarrow> header \<Rightarrow> string \<Rightarrow> string" where
  "HttpRespHeader names proto status h buffer =
     buffer @ proto @ '' '' @ status @ crlf @ header_lines (\<lambda>n. n) names h @ crlf"

text \<open>The fields of a head that was printed, read back line by line.\<close>

definition head_fields :: "string list \<Rightarrow> header \<Rightarrow> (string \<times> string) list" where
  "head_fields names h =
     concat (map (\<lambda>name. map (\<lambda>v. (name, v)) (case gm_get h name of None \<Rightarrow> [] | Some vs \<Rightarrow> vs)) names)"

fun take_line :: "string \<Rightarrow> (string \<times> string) option" where
  "take_line [] = None"
| "take_line [c] = None"
| "take_line (c # d # s) =
     (if c = CHR 0x0D \<and> d = CHR 0x0A then Some ([], s)
      else map_option (\<lambda>(l, r). (c # l, r)) (take_line (d # s)))"

lemma take_line_length: "take_line s = Some (l, r) \<Longrightarrow> length r < length s"
  by (induction s arbitrary: l rule: take_line.induct) (fastforce split: if_splits)+

function read_fields :: "string \<Rightarrow> (string \<times> string) list option" where
  "read_fields s =
     (case take_line s of
        None \<Rightarrow> None
      | Some ([], r) \<Rightarrow> if r = [] then Some [] else None
      | Some (c # l, r) \<Rightarrow>
          (let name = takeWhile (\<lambda>x. x \<noteq> CHR '':'') (c # l)
           in map_option (\<lambda>fs. (name, drop (length name + 2) (c # l)) # fs) (read_fields r)))"
  by pat_completeness auto
termination
  by (relation "measure length") (auto dest: take_line_length)

declare read_fields.simps [simp del]

definition plain :: "string \<Rightarrow> bool" where
  "plain s \<longleftrightarrow> CHR 0x0D \<notin> set s"

lemma take_line_plain: "plain l \<Longrightarrow> take_line (l @ crlf @ r) = Some (l, r)"
proof (induction l)
  case Nil
  show ?case by (simp add: crlf_def)
next
  case (Cons c l)
  obtain d s where "l @ crlf @ r = d # s" by (cases l) (auto simp: crlf_def)
  with Cons show ?case by (auto simp: plain_def)
qed

lemma read_fields_printed:
  assumes "\<forall>(n, v) \<in> set fs. plain n \<and> plain v \<and> CHR '':'' \<notin> set n \<and> n \<noteq> []"
  shows "read_fields (concat (map (\<lambda>(n, v). n @ '': '' @ v @ crlf) fs) @ crlf) = Some fs"
  using assms
proof (induction fs)
  case Nil
  have "take_line crlf = Some ([], [])" by (simp add: crlf_def)
  then show ?case by (simp add: read_fields.simps)
next
  case (Cons f fs)
  obtain n v where f: "f = (n, v)" by (cases f)
  let ?rest = "concat (map (\<lambda>(n, v). n @ '': '' @ v @ crlf) fs) @ crlf"
  have p: "plain (n @ '': '' @ v)" using Cons.prems f by (simp add: plain_def)
  obtain c l where cl: "n @ '': '' @ v = c # l" using Cons.prems f by (cases n) auto
  have tw: "takeWhile (\<lambda>x. x \<noteq> CHR '':'') (c # l) = n"
    using Cons.prems f unfolding cl [symmetric] by (simp add: takeWhile_append takeWhile_eq_all_conv)
  have dr: "drop (length n + 2) (c # l) = v" unfolding cl [symmetric] by simp
  have "take_line ((n @ '': '' @ v) @ crlf @ ?rest) = Some (c # l, ?rest)"
    using take_line_plain [OF p, of ?rest] by (simp only: cl)
  then have "read_fields (concat (map (\<lambda>(n, v). n @ '': '' @ v @ crlf) (f # fs)) @ crlf) =
      map_option (\<lambda>fs. (n, v) # fs) (read_fields ?rest)"
    unfolding f by (subst read_fields.simps) (simp only: list.map concat.simps prod.case append_assoc
      option.case list.case Let_def tw dr)
  with Cons f show ?case by simp
qed

lemma header_lines_fields:
  "header_lines pn names h = concat (map (\<lambda>(n, v). pn n @ '': '' @ v @ crlf) (head_fields names h))"
  by (induction names) (simp_all add: header_lines_def head_fields_def comp_def)

text \<open>
  What \<open>HttpRespHeader\<close> prints reads back as the status line and exactly the fields of the header,
  in the order of the iteration, provided names and values contain no carriage return and names no
  colon.
\<close>

theorem resp_head_roundtrip:
  assumes "plain (proto @ '' '' @ status)"
    and "\<forall>(n, v) \<in> set (head_fields names h). plain n \<and> plain v \<and> CHR '':'' \<notin> set n \<and> n \<noteq> []"
  shows "\<exists>rest. take_line (HttpRespHeader names proto status h []) = Some (proto @ '' '' @ status, rest) \<and>
    read_fields rest = Some (head_fields names h)"
proof -
  let ?rest = "header_lines (\<lambda>n. n) names h @ crlf"
  have "take_line (HttpRespHeader names proto status h []) = Some (proto @ '' '' @ status, ?rest)"
    using take_line_plain [OF assms(1), of ?rest] by (simp add: HttpRespHeader_def)
  moreover have "read_fields ?rest = Some (head_fields names h)"
    using read_fields_printed [OF assms(2)] by (simp add: header_lines_fields)
  ultimately show ?thesis by blast
qed

theorem resp_head_roundtrip_witness:
  "\<exists>rest. take_line (HttpRespHeader [''A''] ''HTTP/1.1'' ''200 OK'' [(''A'', [''1'', ''2''])] []) =
      Some (''HTTP/1.1'' @ '' '' @ ''200 OK'', rest) \<and>
    read_fields rest = Some [(''A'', ''1''), (''A'', ''2'')]"
  using resp_head_roundtrip [of "''HTTP/1.1''" "''200 OK''" "[''A'']" "[(''A'', [''1'', ''2''])]"]
  by (simp add: plain_def head_fields_def gm_get_def)

end
