(* ===== verification/Serve_WS.thy ===== *)
theory Serve_WS
  imports Server Version_Neg Http_Header
begin

text \<open>
  \<open>ServerWS.ServeHTTP\<close> (\<open>wss/wssocks_server.go\<close>), the handler of one WebSocket request: the check of the
  connection key, the upgrade, the version negotiation, the hub of the connection, the read loop and
  the deferred calls. Handlers of other connections and the establishing goroutines run between its
  steps. The hub is the entry of the collection under its identifier.

  \<open>accepted\<close>: what \<open>websocket.Accept\<close> answers; \<open>received\<close>: what the next read of the WebSocket answers, an
  error or a message with its type; \<open>order\<close>: the order in which \<open>Hub.Close\<close> visits the pool.
\<close>

section \<open>Model\<close>

record WebsocksServerConfig =
  cf_EnableHttp :: bool
  cf_EnableConnKey :: bool
  cf_ConnKey :: string
  cf_EnableStatusPage :: bool

record 'c ServerWS =
  ws_config :: WebsocksServerConfig
  ws_hc :: "'c HubCollection"

definition NewServeWS :: "'c HubCollection \<Rightarrow> WebsocksServerConfig \<Rightarrow> 'c ServerWS" where
  "NewServeWS hc config = \<lparr>ws_config = config, ws_hc = hc\<rparr>"

datatype 'c serve_http_pc =
    ShKey                       \<comment> \<open>the check of the connection key\<close>
  | ShAccept                    \<comment> \<open>\<open>websocket.Accept\<close>\<close>
  | ShVersion 'c                \<comment> \<open>\<open>NegVersionServer\<close>\<close>
  | ShHub 'c                    \<comment> \<open>\<open>s.hc.NewHub(wc)\<close>\<close>
  | ShRead ksuid 'c             \<comment> \<open>one round of the read loop\<close>
  | ShHubClose ksuid 'c         \<comment> \<open>deferred \<open>hub.Close()\<close>\<close>
  | ShRemove ksuid 'c           \<comment> \<open>deferred \<open>s.hc.RemoveProxy(hub.id)\<close>\<close>
  | ShClose 'c                  \<comment> \<open>deferred \<open>wc.Close\<close>\<close>
  | ShReturn
  | ShCrash

text \<open>The handler's part of the server's state, and what it told the peer.\<close>

record ('c, 'net) serve_state =
  ss_hc :: "'c HubCollection"
  ss_sv :: "'c server"
  ss_net :: 'net
  ss_code :: "nat option"        \<comment> \<open>the status code written by the handler itself\<close>
  ss_body :: string
  ss_closed :: "'c list"         \<comment> \<open>WebSockets closed\<close>

fun ServeHTTP_step ::
  "WebsocksServerConfig \<Rightarrow> ('c, 'net) wsjson_write \<Rightarrow> ('c, 'net) wsjson_read \<Rightarrow>
     (string \<Rightarrow> ksuid option) \<Rightarrow> header \<Rightarrow> go_error + 'c \<Rightarrow> ksuid \<Rightarrow>
     go_error + (message_type \<times> json option) \<Rightarrow> instant \<Rightarrow> bool \<Rightarrow> ksuid list \<Rightarrow>
     'c serve_http_pc \<Rightarrow> ('c, 'net) serve_state \<Rightarrow> ('c serve_http_pc \<times> ('c, 'net) serve_state) option" where
  "ServeHTTP_step cf wsw wsr kparse req accepted hid received now timer order ShKey s =
     Some (if cf_EnableConnKey cf \<and> header_Get ''Key'' req \<noteq> cf_ConnKey cf
           then (ShReturn, s\<lparr>ss_code := Some 401, ss_body := ss_body s @ ''Access denied!'' @ [CHR 0x0A]\<rparr>)
           else (ShAccept, s))"
| "ServeHTTP_step cf wsw wsr kparse req accepted hid received now timer order ShAccept s =
     Some (case accepted of Inl err \<Rightarrow> (ShReturn, s) | Inr wc \<Rightarrow> (ShVersion wc, s))"
| "ServeHTTP_step cf wsw wsr kparse req accepted hid received now timer order (ShVersion wc) s =
     (case NegVersionServer wsw wsr wc (cf_EnableStatusPage cf) (ss_net s) of
        (Some err, net) \<Rightarrow> Some (ShClose wc, s\<lparr>ss_net := net\<rparr>)
      | (None, net) \<Rightarrow> Some (ShHub wc, s\<lparr>ss_net := net\<rparr>))"
| "ServeHTTP_step cf wsw wsr kparse req accepted hid received now timer order (ShHub wc) s =
     (case HubCollection_NewHub hid wc (ss_hc s) of
        (hub, hc) \<Rightarrow> Some (ShRead hid wc, s\<lparr>ss_hc := hc\<rparr>))"
| "ServeHTTP_step cf wsw wsr kparse req accepted hid received now timer order (ShRead h wc) s =
     (case gm_get (ss_hc s) h of
        None \<Rightarrow> None
      | Some hub \<Rightarrow>
          (case received of
             Inl err \<Rightarrow> Some (if err = EOF then ShRead h wc else ShHubClose h wc, s)
           | Inr (msgType, doc) \<Rightarrow>
               (case dispatchMessage kparse now timer hub msgType doc (ss_sv s) of
                  Returns (err, sv) \<Rightarrow> Some (ShRead h wc, s\<lparr>ss_sv := sv\<rparr>)
                | Blocks \<Rightarrow> None
                | Panics \<Rightarrow> Some (ShCrash, s))))"
| "ServeHTTP_step cf wsw wsr kparse req accepted hid received now timer order (ShHubClose h wc) s =
     (case gm_get (ss_hc s) h of
        None \<Rightarrow> None
      | Some hub \<Rightarrow>
          (case Hub_Close order hub (ss_sv s) of
             Returns (hub', sv) \<Rightarrow> Some (ShRemove h wc, s\<lparr>ss_hc := gm_put h hub' (ss_hc s), ss_sv := sv\<rparr>)
           | Blocks \<Rightarrow> None
           | Panics \<Rightarrow> Some (ShCrash, s)))"
| "ServeHTTP_step cf wsw wsr kparse req accepted hid received now timer order (ShRemove h wc) s =
     Some (ShClose wc, s\<lparr>ss_hc := HubCollection_RemoveProxy h (ss_hc s)\<rparr>)"
| "ServeHTTP_step cf wsw wsr kparse req accepted hid received now timer order (ShClose wc) s =
     Some (ShReturn, s\<lparr>ss_closed := wc # ss_closed s\<rparr>)"
| "ServeHTTP_step cf wsw wsr kparse req accepted hid received now timer order ShReturn s = None"
| "ServeHTTP_step cf wsw wsr kparse req accepted hid received now timer order ShCrash s = None"

end
