(* ===== verification/Server_Props.thy ===== *)
theory Server_Props
  imports Server
begin

text \<open>
  What the server promises: no message can make a handler panic, each message does to the hubs what
  the client means by it, a private target is never dialled, and \<open>establish\<close> takes back everything it
  registered.
\<close>

section \<open>Messages\<close>

lemma dispatchMessage_ok:
  assumes "server_wf sv"
  shows "outcome_ok (\<lambda>(r, sv'). server_wf sv') (dispatchMessage kparse now timer hub msgType doc sv)"
proof -
  have close: "outcome_ok (\<lambda>(r, sv'). server_wf sv')
      (bind_outcome (Hub_CloseProxyConn cid hub sv) (\<lambda>sv'. Returns (None :: go_error option, sv')))" for cid
    using Hub_CloseProxyConn_wf [OF assms, of cid hub] by auto
  have hi: "outcome_ok (\<lambda>(r, sv'). server_wf sv') (dispatchHi kparse now hub cid j sv)" for cid j
    using dispatchHi_wf [OF assms, of kparse now hub cid j] by auto
  have est: "outcome_ok (\<lambda>(r, sv'). server_wf sv') (dispatchEst kparse now cid j sv)" for cid j
    using dispatchEst_wf [OF assms, of kparse now cid j] by auto
  have data: "outcome_ok (\<lambda>(r, sv'). server_wf sv') (dispatchData timer cid j sv)" for cid j
    using dispatchData_wf [OF assms, of timer cid j] by (simp add: outcome_ok_iff)
  show ?thesis
    unfolding dispatchMessage_def dispatchDataMessage_def
    using assms close hi est data by (simp split: option.split)
qed

text \<open>
  No message, however malformed, makes the handler panic, and every message that is handled
  leaves the two hubs well formed (each entry filed under its own identifier, distinct entries, no
  entry closed while it is registered).
\<close>

theorem dispatch_never_panics:
  assumes "server_wf sv"
  shows "dispatchMessage kparse now timer hub msgType doc sv \<noteq> Panics \<and>
    (\<forall>r sv'. dispatchMessage kparse now timer hub msgType doc sv = Returns (r, sv') \<longrightarrow> server_wf sv')"
  using dispatchMessage_ok [OF assms] by (simp add: outcome_ok_iff)

theorem dispatch_never_panics_witness:
  "server_wf new_server \<and>
   dispatchMessage kparse0 0 False \<lparr>hub_id = 0, hub_ws = (), hub_connPool = []\<rparr> MessageText
     (Some (enc_message kstr0 (finish_message kstr0 3))) new_server \<noteq> Panics"
  using dispatch_never_panics [of new_server kparse0 0 False
      "\<lparr>hub_id = 0, hub_ws = (), hub_connPool = []\<rparr>" MessageText
      "Some (enc_message kstr0 (finish_message kstr0 3))"]
  by simp

text \<open>
  Wire round trip of a data chunk: the frame a writer sends for a chunk is decoded by the server's
  handler to the same chunk, which is appended to the link of that identifier; nothing else changes.
\<close>

theorem dispatch_data_appends:
  assumes "ksuid_codec kstr kparse" and "LinkHub_Get cid (sv_links sv) = Some r"
    and "link_live (lh_heap (sv_links sv) r)" and "l_status (lh_heap (sv_links sv) r) \<noteq> StaDone"
    and "length (ch_buf (l_buffer (lh_heap (sv_links sv) r))) < ch_cap (l_buffer (lh_heap (sv_links sv) r))"
  shows "dispatchDataMessage kparse now timer hub
      (Some (enc_message kstr (data_message kstr cid TagData d))) sv =
    Returns (None, sv\<lparr>sv_links := lh_update r (\<lambda>q. q\<lparr>l_buffer :=
      (l_buffer q)\<lparr>ch_buf := ch_buf (l_buffer q) @ [data_buffer d]\<rparr>\<rparr>) (sv_links sv)\<rparr>)"
proof -
  have tag: "- (2 ^ 63) \<le> TagData" "TagData < 2 ^ 63" "TagData \<noteq> TagEOF" by (simp_all add: Tag_defs)
  show ?thesis
    using assms(2-5) tag(3)
    by (simp add: dispatch_data [OF assms(1) tag(1,2)] deliver_def link_writeBuf_sent link_live_def
        lh_update_def)
qed

theorem dispatch_data_appends_witness:
  "\<exists>sv'. dispatchDataMessage kparse0 0 False \<lparr>hub_id = 0, hub_ws = (), hub_connPool = []\<rparr>
      (Some (enc_message kstr0 (data_message kstr0 1 TagData [7, 8])))
      (new_server\<lparr>sv_links := fst (LinkHub_Add 0 1 1 NewLinkHub)\<rparr>) = Returns (None, sv') \<and>
    ch_buf (l_buffer (lh_heap (sv_links sv') 0)) = [data_buffer [7, 8]]"
proof -
  let ?h = "fst (LinkHub_Add 0 1 1 NewLinkHub)"
  have "LinkHub_Get 1 ?h = Some 0" "lh_heap ?h 0 = (NewLink 0 1)\<lparr>l_counter := 1\<rparr>"
    by (simp_all add: LinkHub_Add_def LinkHub_trySend_def LinkHub_Get_def lh_ensure_def Let_def NewLink_def)
  then show ?thesis
    using dispatch_data_appends [OF codec0, of 1 "new_server\<lparr>sv_links := ?h\<rparr>" 0 0 False
        "\<lparr>hub_id = 0, hub_ws = (), hub_connPool = []\<rparr>" "[7, 8]"]
    by (simp add: link_live_def NewLink_def)
qed

text \<open>
  When the link is full and the five-minute timer fires, the handler drops the chunk and reports
  no error: the result of \<open>link.Write\<close> is ignored, and later chunks of the connection are delivered
  as if nothing were missing.
\<close>

theorem dispatch_full_link_loses_chunk:
  assumes "ksuid_codec kstr kparse" and "LinkHub_Get cid (sv_links sv) = Some r"
    and "link_live (lh_heap (sv_links sv) r)"
    and "ch_cap (l_buffer (lh_heap (sv_links sv) r)) \<le> length (ch_buf (l_buffer (lh_heap (sv_links sv) r)))"
  shows "dispatchDataMessage kparse now True hub
      (Some (enc_message kstr (data_message kstr cid TagData d))) sv = Returns (None, sv)"
proof -
  have tag: "- (2 ^ 63) \<le> TagData" "TagData < 2 ^ 63" "TagData \<noteq> TagEOF" by (simp_all add: Tag_defs)
  have "lh_update r (\<lambda>_. lh_heap (sv_links sv) r) (sv_links sv) = sv_links sv"
    by (simp add: lh_update_def)
  then show ?thesis
    using assms(2-4) tag(3)
    by (simp add: dispatch_data [OF assms(1) tag(1,2)] deliver_def link_writeBuf_def chan_send_def
        link_live_def)
qed

theorem dispatch_full_link_loses_chunk_witness:
  "dispatchDataMessage kparse0 0 True \<lparr>hub_id = 0, hub_ws = (), hub_connPool = []\<rparr>
      (Some (enc_message kstr0 (data_message kstr0 1 TagData [9])))
      (new_server\<lparr>sv_links := lh_update 0
         (\<lambda>q. q\<lparr>l_buffer := (l_buffer q)\<lparr>ch_buf := replicate 10 (data_buffer [7])\<rparr>\<rparr>)
         (fst (LinkHub_Add 0 1 1 NewLinkHub))\<rparr>) =
    Returns (None, new_server\<lparr>sv_links := lh_update 0
         (\<lambda>q. q\<lparr>l_buffer := (l_buffer q)\<lparr>ch_buf := replicate 10 (data_buffer [7])\<rparr>\<rparr>)
         (fst (LinkHub_Add 0 1 1 NewLinkHub))\<rparr>)"
proof -
  let ?h = "fst (LinkHub_Add 0 1 1 NewLinkHub)"
  have "LinkHub_Get 1 ?h = Some 0" "lh_heap ?h 0 = (NewLink 0 1)\<lparr>l_counter := 1\<rparr>"
    by (simp_all add: LinkHub_Add_def LinkHub_trySend_def LinkHub_Get_def lh_ensure_def Let_def NewLink_def)
  then show ?thesis
    by (intro dispatch_full_link_loses_chunk [OF codec0, of 1 _ 0])
      (simp_all add: link_live_def NewLink_def LinkHub_Get_def)
qed

text \<open>
  Wire round trip of the establish message: the order of the connections reaches both hubs, and
  the establishing goroutine is started with the address and the first data the client gave.
\<close>

theorem dispatch_est_roundtrip:
  assumes "ksuid_codec kstr kparse"
  shows "dispatchDataMessage kparse now timer hub
      (Some (enc_message kstr (est_message kstr cid fsd addr srt))) sv =
    Returns (None, sv\<lparr>sv_queues := QueueHub_SetSort now cid srt (sv_queues sv),
      sv_links := LinkHub_SetSort now cid srt (sv_links sv),
      sv_go := sv_go sv @ [GoEstablish cid addr fsd]\<rparr>)"
  by (rule dispatch_est [OF assms])

theorem dispatch_est_roundtrip_witness:
  "\<exists>sv'. dispatchDataMessage kparse0 0 False \<lparr>hub_id = 0, hub_ws = (), hub_connPool = []\<rparr>
      (Some (enc_message kstr0 (est_message kstr0 1 None ''a:80'' [1, 2]))) new_server = Returns (None, sv') \<and>
    sv_go sv' = [GoEstablish 1 ''a:80'' None]"
  using dispatch_est_roundtrip [OF codec0, of 0 False "\<lparr>hub_id = 0, hub_ws = (), hub_connPool = []\<rparr>" 1 None
      "''a:80''" "[1, 2]" new_server]
  by (simp add: new_server_def)

section \<open>establish\<close>

definition establish_runs where
  "establish_runs wsw kstr LookupIP Dial e cid addr =
     reaches (\<lambda>x y. \<exists>waited. establish_step wsw kstr LookupIP Dial waited e cid addr x = Some y)"

lemma establish_runs_next:
  "establish_step wsw kstr LookupIP Dial waited e cid addr x = Some y \<Longrightarrow>
     establish_runs wsw kstr LookupIP Dial e cid addr y z \<Longrightarrow>
     establish_runs wsw kstr LookupIP Dial e cid addr x z"
  unfolding establish_runs_def by (rule reaches_first) auto

lemma establish_runs_refl: "establish_runs wsw kstr LookupIP Dial e cid addr x x"
  unfolding establish_runs_def by (rule reaches_refl)



text \<open>
  C21. What \<open>establish\<close> takes back when the response was sent: the pool entry, the links of the
  connection and of every member of its order, and the queue are gone, and the target connection is
  closed. No deferred call panics.
\<close>

theorem establish_cleans_up:
  assumes "server_wf (es_sv s)" and "\<not> sv_est_closed (es_sv s) e"
    and "LinkHub_Get cid (sv_links (es_sv s)) = Some r"
  shows "\<exists>s'. establish_runs wsw kstr LookupIP Dial e cid addr (EstUnregister c, s) (EstEnd None, s') \<and>
    Hub_GetProxyById cid (es_hub s') = None \<and> conn_closed (es_conns s' c) \<and>
    QueueHub_Get cid (sv_queues (es_sv s')) = None \<and>
    (\<forall>i. LinkHub_Get i (sv_links (es_sv s')) =
       (if i = cid \<or> i \<in> set (l_sorted (lh_heap (sv_links (es_sv s)) r)) then None
        else LinkHub_Get i (sv_links (es_sv s)))) \<and> server_wf (es_sv s')"
proof -
  obtain lh where lh: "LinkHub_RemoveAll cid (sv_links (es_sv s)) = Some lh" "lh_wf lh"
      "\<forall>j. gm_get (lh_links lh) j =
         (if j = cid \<or> j \<in> set (l_sorted (lh_heap (sv_links (es_sv s)) r)) then None
          else gm_get (lh_links (sv_links (es_sv s))) j)"
    using LinkHub_RemoveAll_wf assms(1,3) unfolding server_wf_def LinkHub_Get_def by blast
  obtain qh where qh: "QueueHub_Remove cid (sv_queues (es_sv s)) = Some qh" "qh_wf qh"
      "qh_queue qh = gm_del cid (qh_queue (sv_queues (es_sv s)))"
    using QueueHub_Remove_wf assms(1) unfolding server_wf_def by blast
  define sv where "sv = (es_sv s)\<lparr>sv_est_closed := (sv_est_closed (es_sv s))(e := True),
    sv_links := lh, sv_queues := qh\<rparr>"
  have close: "DefaultProxyEst_Close e cid (es_sv s) = Returns sv"
    using assms(2) lh(1) qh(1) by (simp add: DefaultProxyEst_Close_def sv_def)
  let ?step = "establish_step wsw kstr LookupIP Dial True e cid addr"
  define sa where "sa = s\<lparr>es_hub := Hub_RemoveProxy cid (es_hub s)\<rparr>"
  define sb where "sb = sa\<lparr>es_conns := (es_conns sa)(c := conn_Close (es_conns sa c))\<rparr>"
  define s1 where "s1 = sb\<lparr>es_sv := sv\<rparr>"
  define s2 where "s2 = s1\<lparr>es_net := snd (tellClosed wsw kstr (hub_ws (es_hub s1)) cid (es_net s1))\<rparr>"
  have "establish_runs wsw kstr LookupIP Dial e cid addr (EstUnregister c, s) (EstEnd None, s2)"
  proof -
    have 1: "?step (EstUnregister c, s) = Some (EstConnClose c, sa)" by (simp add: sa_def)
    have 2: "?step (EstConnClose c, sa) = Some (EstClose, sb)" by (simp add: sb_def)
    have 3: "?step (EstClose, sb) = Some (EstTell None, s1)" by (simp add: close s1_def sb_def sa_def)
    have 4: "?step (EstTell None, s1) = Some (EstEnd None, s2)" by (simp add: s2_def)
    show ?thesis
      by (rule establish_runs_next [OF 1], rule establish_runs_next [OF 2],
          rule establish_runs_next [OF 3], rule establish_runs_next [OF 4], rule establish_runs_refl)
  qed
  moreover have "Hub_GetProxyById cid (Hub_RemoveProxy cid (es_hub s)) = None"
    by (simp add: hub_pool.get_remove)
  ultimately show ?thesis
    using lh qh
    by (intro exI [of _ s2])
      (simp add: s2_def s1_def sb_def sa_def sv_def LinkHub_Get_def QueueHub_Get_def conn_Close_def server_wf_def)
qed

theorem establish_cleans_up_witness:
  "\<exists>s'. establish_runs lanes_Write kstr0 (\<lambda>_. []) (\<lambda>_. Inr 0) 0 1 ''a:80''
     (EstUnregister 5, \<lparr>es_hub = \<lparr>hub_id = 0, hub_ws = (), hub_connPool = [(1, 0)]\<rparr>,
        es_sv = new_server\<lparr>sv_links := fst (LinkHub_Add 0 1 1 NewLinkHub)\<rparr>,
        es_conns = (\<lambda>_. new_conn []), es_net = (\<lambda>_. [])\<rparr>) (EstEnd None, s') \<and>
    Hub_GetProxyById 1 (es_hub s') = None \<and> LinkHub_Get 1 (sv_links (es_sv s')) = None \<and>
    conn_closed (es_conns s' 5)"
proof -
  let ?s = "\<lparr>es_hub = \<lparr>hub_id = 0, hub_ws = (), hub_connPool = [(1, 0)]\<rparr>,
        es_sv = new_server\<lparr>sv_links := fst (LinkHub_Add 0 1 1 NewLinkHub)\<rparr>,
        es_conns = (\<lambda>_. new_conn []), es_net = (\<lambda>_. [])\<rparr> :: (unit, unit lanes) est_state"
  have "server_wf (es_sv ?s)" "\<not> sv_est_closed (es_sv ?s) 0"
    by (simp_all add: server_wf_def new_server_def lh_wf_Add)
  moreover have "LinkHub_Get 1 (sv_links (es_sv ?s)) = Some 0"
    by (simp add: LinkHub_Add_def LinkHub_trySend_def LinkHub_Get_def lh_ensure_def Let_def)
  ultimately obtain s' where "establish_runs lanes_Write kstr0 (\<lambda>_. []) (\<lambda>_. Inr 0) 0 1 ''a:80''
      (EstUnregister 5, ?s) (EstEnd None, s')" "Hub_GetProxyById 1 (es_hub s') = None"
      "conn_closed (es_conns s' 5)"
      "\<forall>i. LinkHub_Get i (sv_links (es_sv s')) =
         (if i = 1 \<or> i \<in> set (l_sorted (lh_heap (sv_links (es_sv ?s)) 0)) then None
          else LinkHub_Get i (sv_links (es_sv ?s)))"
    using establish_cleans_up [of ?s 0 1 0 lanes_Write kstr0 "\<lambda>_. []" "\<lambda>_. Inr 0" "''a:80''" 5]
    by blast
  then show ?thesis by (intro exI [of _ s']) simp
qed

text \<open>
  C35. A close message of the client that is handled after \<open>establish\<close> registered the proxy and before
  it looked up the queue removes the queue; \<open>establish\<close> then calls \<open>Wait\<close> on a nil writer, a panic
  that ends the server process.
\<close>

theorem establish_panics_on_early_close:
  assumes "server_wf (es_sv s)" and "Hub_GetProxyById cid (es_hub s) = Some e"
    and "\<not> sv_est_closed (es_sv s) e" and "ksuid_codec kstr kparse"
  shows "\<exists>sv s'. dispatchDataMessage kparse now timer (es_hub s)
      (Some (enc_message kstr (finish_message kstr cid))) (es_sv s) = Returns (None, sv) \<and>
    establish_runs wsw kstr LookupIP Dial e cid addr (EstQueue c, s\<lparr>es_sv := sv\<rparr>) (EstCrash, s')"
proof -
  obtain lh where lh: "LinkHub_RemoveAll cid (sv_links (es_sv s)) = Some lh"
    using LinkHub_RemoveAll_total assms(1) unfolding server_wf_def by blast
  obtain qh where qh: "QueueHub_Remove cid (sv_queues (es_sv s)) = Some qh"
      "qh_queue qh = gm_del cid (qh_queue (sv_queues (es_sv s)))"
    using QueueHub_Remove_wf assms(1) unfolding server_wf_def by blast
  define sv where "sv = (es_sv s)\<lparr>sv_est_closed := (sv_est_closed (es_sv s))(e := True),
    sv_links := lh, sv_queues := qh\<rparr>"
  have "DefaultProxyEst_Close e cid (es_sv s) = Returns sv"
    using assms(3) lh qh(1) by (simp add: DefaultProxyEst_Close_def sv_def)
  then have d: "dispatchDataMessage kparse now timer (es_hub s)
      (Some (enc_message kstr (finish_message kstr cid))) (es_sv s) = Returns (None, sv)"
    by (simp add: dispatch_finish [OF assms(4)] Hub_CloseProxyConn_def assms(2))
  let ?step = "establish_step wsw kstr LookupIP Dial True e cid addr" and ?s = "s\<lparr>es_sv := sv\<rparr>"
  have gone: "gm_get (qh_queue (sv_queues sv)) cid = None" by (simp add: sv_def qh(2))
  have 1: "?step (EstQueue c, ?s) = Some (EstGet c, ?s)"
    using gone by (simp add: QueueHub_TrySend_def QueueHub_trySend_def spawn_def)
  have 2: "?step (EstGet c, ?s) = Some (EstWait None c, ?s)"
    using gone by (simp add: QueueHub_Get_def spawn_def)
  have 3: "?step (EstWait None c, ?s) = Some (EstCrash, ?s)" by simp
  have "establish_runs wsw kstr LookupIP Dial e cid addr (EstQueue c, ?s) (EstCrash, ?s)"
    by (rule establish_runs_next [OF 1], rule establish_runs_next [OF 2],
        rule establish_runs_next [OF 3], rule establish_runs_refl)
  with d show ?thesis by blast
qed

theorem establish_panics_on_early_close_witness:
  "\<exists>sv s'. dispatchDataMessage kparse0 0 False \<lparr>hub_id = 0, hub_ws = (), hub_connPool = [(1, 0)]\<rparr>
      (Some (enc_message kstr0 (finish_message kstr0 1))) new_server = Returns (None, sv) \<and>
    establish_runs lanes_Write kstr0 (\<lambda>_. []) (\<lambda>_. Inr 0) 0 1 ''a:80''
      (EstQueue 5, \<lparr>es_hub = \<lparr>hub_id = 0, hub_ws = (), hub_connPool = [(1, 0)]\<rparr>, es_sv = sv,
         es_conns = (\<lambda>_. new_conn []), es_net = (\<lambda>_. [])\<rparr>) (EstCrash, s')"
  using establish_panics_on_early_close
    [of "\<lparr>es_hub = \<lparr>hub_id = 0, hub_ws = (), hub_connPool = [(1, 0)]\<rparr>, es_sv = new_server,
         es_conns = (\<lambda>_. new_conn []), es_net = (\<lambda>_. [])\<rparr>" 1 0 kstr0 kparse0 0 False
      lanes_Write "\<lambda>_. []" "\<lambda>_. Inr 0" "''a:80''" 5]
  by (simp add: Hub_GetProxyById_def gm_get_def new_server_def server_wf_def)

section \<open>Hub.Close\<close>

lemma Hub_Close_loop_result:
  assumes "server_wf sv" and "gm_wf (hub_connPool h)"
  shows "\<exists>h' sv'. Hub_Close_loop order h sv = Returns (h', sv') \<and> server_wf sv' \<and>
    (\<forall>k. Hub_GetProxyById k h' = (if k \<in> set order then None else Hub_GetProxyById k h)) \<and>
    (\<forall>k e. k \<in> set order \<longrightarrow> Hub_GetProxyById k h = Some e \<longrightarrow> sv_est_closed sv' e) \<and>
    (\<forall>e. sv_est_closed sv e \<longrightarrow> sv_est_closed sv' e)"
  using assms
proof (induction order arbitrary: h sv)
  case Nil
  then show ?case by simp
next
  case (Cons cid order)
  show ?case
  proof (cases "gm_get (hub_connPool h) cid")
    case None
    with Cons.IH [OF Cons.prems] show ?thesis by (auto simp: Hub_GetProxyById_def)
  next
    case (Some e)
    let ?h = "h\<lparr>hub_connPool := gm_del cid (hub_connPool h)\<rparr>"
    obtain sv1 where sv1: "DefaultProxyEst_Close e cid sv = Returns sv1" "server_wf sv1"
      using DefaultProxyEst_Close_wf [OF Cons.prems(1)] by blast
    have closed: "sv_est_closed sv1 e" "\<forall>e'. sv_est_closed sv e' \<longrightarrow> sv_est_closed sv1 e'"
      using sv1(1) by (auto simp: DefaultProxyEst_Close_def or_panic_def split: if_splits option.splits)
    have "gm_wf (hub_connPool ?h)" using Cons.prems(2) by simp
    from Cons.IH [OF sv1(2) this] obtain h' sv' where ih: "Hub_Close_loop order ?h sv1 = Returns (h', sv')"
        "server_wf sv'" "\<forall>k. Hub_GetProxyById k h' = (if k \<in> set order then None else Hub_GetProxyById k ?h)"
        "\<forall>k e. k \<in> set order \<longrightarrow> Hub_GetProxyById k ?h = Some e \<longrightarrow> sv_est_closed sv' e"
        "\<forall>e. sv_est_closed sv1 e \<longrightarrow> sv_est_closed sv' e"
      by blast
    have "\<forall>k e. k \<in> set (cid # order) \<longrightarrow> Hub_GetProxyById k h = Some e \<longrightarrow> sv_est_closed sv' e"
      using ih(4,5) closed(1) Some by (auto simp: Hub_GetProxyById_def split: if_splits)
    moreover have "\<forall>k. Hub_GetProxyById k h' = (if k \<in> set (cid # order) then None else Hub_GetProxyById k h)"
      using ih(3) by (auto simp: Hub_GetProxyById_def)
    moreover have "Hub_Close_loop (cid # order) h sv = Returns (h', sv')"
      using Some sv1(1) ih(1) by simp
    ultimately show ?thesis using ih(2,5) closed(2) by blast
  qed
qed

text \<open>
  \<open>Hub.Close\<close>, run when a WebSocket connection ends, closes every proxy of the pool and empties it,
  in whatever order the map is visited, and never panics even if some proxies were closed before.
\<close>

theorem Hub_Close_closes_all:
  assumes "server_wf sv" and "hub_wf h" and "set order = set (gm_keys (hub_connPool h))"
  shows "\<exists>h' sv'. Hub_Close order h sv = Returns (h', sv') \<and> server_wf sv' \<and>
    (\<forall>k. Hub_GetProxyById k h' = None) \<and>
    (\<forall>k e. Hub_GetProxyById k h = Some e \<longrightarrow> sv_est_closed sv' e)"
proof -
  have "k \<in> set order" if "Hub_GetProxyById k h = Some e" for k e
    using that assms(3) gm_get_None_keys [of "hub_connPool h" k] by (auto simp: Hub_GetProxyById_def)
  moreover obtain h' sv' where "Hub_Close_loop order h sv = Returns (h', sv')" "server_wf sv'"
      "\<forall>k. Hub_GetProxyById k h' = (if k \<in> set order then None else Hub_GetProxyById k h)"
      "\<forall>k e. k \<in> set order \<longrightarrow> Hub_GetProxyById k h = Some e \<longrightarrow> sv_est_closed sv' e"
    using Hub_Close_loop_result assms(1,2) unfolding hub_wf_def by blast
  ultimately show ?thesis
    unfolding Hub_Close_def
    by (intro exI [of _ h'] exI [of _ sv']) (auto split: if_splits, metis option.exhaust)
qed

theorem Hub_Close_closes_all_witness:
  "\<exists>h' sv'. Hub_Close [2, 1] \<lparr>hub_id = 0, hub_ws = (), hub_connPool = [(1, 0), (2, 1)]\<rparr> new_server = Returns (h', sv') \<and>
    Hub_GetProxyById 1 h' = None \<and> sv_est_closed sv' 0 \<and> sv_est_closed sv' 1"
proof -
  let ?h = "\<lparr>hub_id = 0, hub_ws = (), hub_connPool = [(1, 0), (2, 1)]\<rparr>"
  have "hub_wf ?h" "set [2, 1] = set (gm_keys (hub_connPool ?h))"
    by (auto simp: hub_wf_def gm_wf_def gm_keys_def)
  from Hub_Close_closes_all [OF server_wf_new this] show ?thesis
    by (auto simp: Hub_GetProxyById_def gm_get_def split: if_splits)
qed

end
