(* ===== verification/Serve_Props.thy ===== *)
theory Serve_Props
  imports Serve_WS Server_Props
begin

text \<open>
  What the handler of a WebSocket request guarantees: nothing happens without the connection key, no
  input of the peer crashes it, and when the connection ends everything of it is gone.
\<close>

definition http_step where
  "http_step cf wsw wsr kparse req x y \<longleftrightarrow>
     (\<exists>accepted hid received now timer order.
        ServeHTTP_step cf wsw wsr kparse req accepted hid received now timer order (fst x) (snd x) = Some y)"

text \<open>
  C19. With the connection key enabled, a request with another key (or none) has no effect: the only
  thing the handler ever does is to answer 401; the WebSocket is not accepted, no version is sent,
  and collection and hubs stay as they were.
\<close>

theorem wrong_key_no_effect:
  assumes "cf_EnableConnKey cf" and "header_Get ''Key'' req \<noteq> cf_ConnKey cf"
    and "reaches (http_step cf wsw wsr kparse req) (ShKey, s) (pc, s')"
  shows "ss_hc s' = ss_hc s \<and> ss_sv s' = ss_sv s \<and> ss_net s' = ss_net s \<and> ss_closed s' = ss_closed s \<and>
    (pc = ShKey \<or> pc = ShReturn \<and> ss_code s' = Some 401)"
proof -
  have "ss_hc (snd y) = ss_hc s \<and> ss_sv (snd y) = ss_sv s \<and> ss_net (snd y) = ss_net s \<and>
      ss_closed (snd y) = ss_closed s \<and> (fst y = ShKey \<or> fst y = ShReturn \<and> ss_code (snd y) = Some 401)"
    if "reaches (http_step cf wsw wsr kparse req) x y" and "x = (ShKey, s)" for x y
    using that
  proof (induction rule: reaches.induct)
    case (reaches_refl x)
    then show ?case by simp
  next
    case (reaches_step x y z)
    then show ?case using assms(1,2) by (cases y) (auto simp: http_step_def)
  qed
  from this [OF assms(3) refl] show ?thesis by simp
qed

theorem wrong_key_no_effect_witness:
  "\<exists>s'. reaches (http_step \<lparr>cf_EnableHttp = True, cf_EnableConnKey = True, cf_ConnKey = ''k'', cf_EnableStatusPage = False\<rparr>
       (lanes_Write :: (unit, unit lanes) wsjson_write) (\<lambda>c net. (Inl EOF, net)) kparse0 [])
     (ShKey, \<lparr>ss_hc = [], ss_sv = new_server, ss_net = (\<lambda>_. []), ss_code = None, ss_body = [], ss_closed = []\<rparr>)
     (ShReturn, s') \<and> ss_code s' = Some 401 \<and> ss_hc s' = []"
proof -
  let ?cf = "\<lparr>cf_EnableHttp = True, cf_EnableConnKey = True, cf_ConnKey = ''k'', cf_EnableStatusPage = False\<rparr>"
  let ?s = "\<lparr>ss_hc = [], ss_sv = new_server, ss_net = (\<lambda>_. []), ss_code = None, ss_body = [], ss_closed = []\<rparr>
      :: (unit, unit lanes) serve_state"
  let ?step = "http_step ?cf lanes_Write (\<lambda>c net. (Inl EOF, net)) kparse0 []"
  let ?t = "?s\<lparr>ss_code := Some 401, ss_body := ''Access denied!'' @ [CHR 0x0A]\<rparr>"
  have "?step (ShKey, ?s) (ShReturn, ?t)" by (simp add: http_step_def header_Get_def)
  then have run: "reaches ?step (ShKey, ?s) (ShReturn, ?t)"
    by (intro reaches_first [where step = ?step, OF _ reaches_refl])
  show ?thesis
    using wrong_key_no_effect [OF _ _ run] run by (intro exI [of _ ?t]) (simp add: header_Get_def)
qed

section \<open>No crash\<close>

definition hubs_wf :: "'c HubCollection \<Rightarrow> bool" where
  "hubs_wf hc \<longleftrightarrow> (\<forall>h hub. gm_get hc h = Some hub \<longrightarrow> gm_wf (hub_connPool hub))"

definition http_inv :: "'c serve_http_pc \<times> ('c, 'net) serve_state \<Rightarrow> bool" where
  "http_inv x \<longleftrightarrow> fst x \<noteq> ShCrash \<and> server_wf (ss_sv (snd x)) \<and> hubs_wf (ss_hc (snd x))"

lemma hubs_wf_simps:
  "hubs_wf hc \<Longrightarrow> gm_wf (hub_connPool hub) \<Longrightarrow> hubs_wf (gm_put h hub hc)"
  "hubs_wf hc \<Longrightarrow> hubs_wf (HubCollection_RemoveProxy h hc)"
  by (auto simp: hubs_wf_def HubCollection_RemoveProxy_def)

lemma Hub_Close_pool_wf:
  "Hub_Close_loop order h sv = Returns (h', sv') \<Longrightarrow> gm_wf (hub_connPool h) \<Longrightarrow> gm_wf (hub_connPool h')"
proof (induction order arbitrary: h sv)
  case (Cons cid order)
  show ?case
  proof (cases "gm_get (hub_connPool h) cid")
    case None
    with Cons show ?thesis by simp
  next
    case (Some e)
    with Cons.prems(1) obtain sv1 where "DefaultProxyEst_Close e cid sv = Returns sv1"
      by (cases "DefaultProxyEst_Close e cid sv") auto
    with Cons Some show ?thesis by (auto intro: Cons.IH)
  qed
qed simp

lemma http_step_inv:
  assumes "http_inv x" and "http_step cf wsw wsr kparse req x y"
  shows "http_inv y"
proof -
  obtain accepted hid received now timer order where step:
      "ServeHTTP_step cf wsw wsr kparse req accepted hid received now timer order (fst x) (snd x) = Some y"
    using assms(2) unfolding http_step_def by blast
  let ?s = "snd x"
  have wf: "server_wf (ss_sv ?s)" "hubs_wf (ss_hc ?s)" using assms(1) by (simp_all add: http_inv_def)
  show ?thesis
  proof (cases "fst x")
    case (ShRead h wc)
    with step obtain hub where hub: "gm_get (ss_hc ?s) h = Some hub" by (auto split: option.splits)
    show ?thesis
    proof (cases received)
      case (Inl err)
      with step ShRead hub wf show ?thesis by (auto simp: http_inv_def split: if_splits)
    next
      case (Inr m)
      obtain mt doc where m: "m = (mt, doc)" by (cases m)
      from dispatchMessage_ok [OF wf(1), of kparse now timer hub mt doc] show ?thesis
        using step ShRead hub wf Inr m
        by (cases "dispatchMessage kparse now timer hub mt doc (ss_sv ?s)") (auto simp: http_inv_def)
    qed
  next
    case (ShHubClose h wc)
    with step obtain hub where hub: "gm_get (ss_hc ?s) h = Some hub" by (auto split: option.splits)
    have pool: "gm_wf (hub_connPool hub)" using hub wf(2) by (simp add: hubs_wf_def)
    obtain hub' sv' where c: "Hub_Close order hub (ss_sv ?s) = Returns (hub', sv')" "server_wf sv'"
      using Hub_Close_loop_result [OF wf(1) pool, of order] unfolding Hub_Close_def by blast
    moreover have "gm_wf (hub_connPool hub')" using Hub_Close_pool_wf c(1) pool unfolding Hub_Close_def by blast
    ultimately show ?thesis using step ShHubClose hub wf by (auto simp: http_inv_def hubs_wf_simps)
  qed (use step wf assms(1) in \<open>auto simp: http_inv_def HubCollection_NewHub_def hubs_wf_simps Let_def
      split: if_splits sum.splits option.splits prod.splits\<close>)
qed

interpretation serve: machine "http_step cf wsw wsr kparse req" http_inv
  for cf :: WebsocksServerConfig and wsw :: "('c, 'net) wsjson_write" and wsr :: "('c, 'net) wsjson_read"
    and kparse :: "string \<Rightarrow> ksuid option" and req :: header
  by unfold_locales (rule http_step_inv)



section \<open>The end of a connection\<close>

text \<open>
  C8. When a read of the WebSocket fails, the deferred calls leave nothing of the connection behind:
  every proxy of the hub is closed, the hub is out of the collection, the other hubs are untouched,
  the WebSocket is closed, and the handler returns.
\<close>

theorem serve_ends_clean:
  assumes "server_wf (ss_sv s)" and "gm_get (ss_hc s) h = Some hub" and "hub_wf hub" and "err \<noteq> EOF"
    and "set order = set (gm_keys (hub_connPool hub))"
  shows "\<exists>s1 s2 s3 s4.
    ServeHTTP_step cf wsw wsr kparse req acc hid (Inl err) now timer order (ShRead h wc) s = Some (ShHubClose h wc, s1) \<and>
    ServeHTTP_step cf wsw wsr kparse req acc hid rcv now timer order (ShHubClose h wc) s1 = Some (ShRemove h wc, s2) \<and>
    ServeHTTP_step cf wsw wsr kparse req acc hid rcv now timer order (ShRemove h wc) s2 = Some (ShClose wc, s3) \<and>
    ServeHTTP_step cf wsw wsr kparse req acc hid rcv now timer order (ShClose wc) s3 = Some (ShReturn, s4) \<and>
    server_wf (ss_sv s4) \<and> wc \<in> set (ss_closed s4) \<and>
    (\<forall>k e. Hub_GetProxyById k hub = Some e \<longrightarrow> sv_est_closed (ss_sv s4) e) \<and>
    (\<forall>j. gm_get (ss_hc s4) j = (if j = h then None else gm_get (ss_hc s) j))"
proof -
  have "k \<in> set order" if "Hub_GetProxyById k hub = Some e" for k e
    using that assms(5) gm_get_None_keys [of "hub_connPool hub" k] by (auto simp: Hub_GetProxyById_def)
  moreover obtain hub' sv' where c: "Hub_Close order hub (ss_sv s) = Returns (hub', sv')" "server_wf sv'"
      "\<forall>k e. k \<in> set order \<longrightarrow> Hub_GetProxyById k hub = Some e \<longrightarrow> sv_est_closed sv' e"
    using Hub_Close_loop_result [OF assms(1), of hub order] assms(3) unfolding Hub_Close_def hub_wf_def by blast
  ultimately show ?thesis
    using assms(2,4) by (auto simp: HubCollection_RemoveProxy_def)
qed

theorem serve_ends_clean_witness:
  "\<exists>s1. ServeHTTP_step \<lparr>cf_EnableHttp = True, cf_EnableConnKey = False, cf_ConnKey = [], cf_EnableStatusPage = False\<rparr>
      (lanes_Write :: (unit, unit lanes) wsjson_write) (\<lambda>c net. (Inl EOF, net)) kparse0 [] (Inr ()) 7 (Inl StoppedError) 0 False [1]
      (ShRead 7 ()) \<lparr>ss_hc = [(7, \<lparr>hub_id = 7, hub_ws = (), hub_connPool = [(1, 0)]\<rparr>)], ss_sv = new_server,
        ss_net = (\<lambda>_. []), ss_code = None, ss_body = [], ss_closed = []\<rparr> = Some (ShHubClose 7 (), s1)"
  using serve_ends_clean [of "\<lparr>ss_hc = [(7, \<lparr>hub_id = 7, hub_ws = (), hub_connPool = [(1, 0)]\<rparr>)], ss_sv = new_server,
        ss_net = (\<lambda>_. []), ss_code = None, ss_body = [], ss_closed = []\<rparr> :: (unit, unit lanes) serve_state" 7
      "\<lparr>hub_id = 7, hub_ws = (), hub_connPool = [(1, 0)]\<rparr>" StoppedError "[1]"
      "\<lparr>cf_EnableHttp = True, cf_EnableConnKey = False, cf_ConnKey = [], cf_EnableStatusPage = False\<rparr>"
      "lanes_Write" "\<lambda>c net. (Inl EOF, net)" kparse0 "[]" "Inr ()" 7 0 False "()" "Inl EOF"]
  by (auto simp: gm_get_def hub_wf_def gm_wf_def gm_keys_def)

end
