(* ===== verification/Handles.thy ===== *)
theory Handles
  imports Client
begin

text \<open>
  The running client of \<open>client/client.go\<close>: \<open>StartClient\<close> starts one receive loop per WebSocket, the
  heartbeat and the accept loop; each of them, when it ends, closes everything once (\<open>sync.Once\<close>) and
  leaves the wait group; \<open>Wait\<close> returns when all of them have left. \<open>NotifyClose\<close> runs when the user
  interrupts.

  The main goroutine and the tasks are interleaved step by step. A task that runs can fail of itself
  at any time, and it ends once what it works on is closed: a receive loop when its WebSocket is
  closed, the heartbeat when it is cancelled or when its writes fail because the WebSockets are
  closed, the accept loop when the client is closed.
\<close>

section \<open>Model\<close>

datatype task_kind = KSocket nat | KBeat | KServe | KNotify

text \<open>The body of the \<open>once.Do\<close> call; the flag says whether \<open>cl.Close\<close> waits for the connections.\<close>

datatype once_pc = OcClient bool | OcWait | OcBeat | OcSockets

datatype task_pc = TkNotify | TkRun | TkOnce | TkBody once_pc | TkFinish | TkDone

datatype once_state = OnceFree | OnceBusy | OnceDone

datatype main_pc =
    MnAdd            \<comment> \<open>\<open>hdl.wg.Add(2)\<close>\<close>
  | MnSpawn nat      \<comment> \<open>\<open>hdl.wg.Add(1)\<close> and the receive loop of the next WebSocket\<close>
  | MnBeat           \<comment> \<open>\<open>hdl.hb = heartbeat\<close>\<close>
  | MnGoBeat
  | MnClient         \<comment> \<open>\<open>hdl.cl = wss.NewClient()\<close>\<close>
  | MnGoClient
  | MnOpen           \<comment> \<open>\<open>hdl.closed = false\<close>\<close>
  | MnWait           \<comment> \<open>\<open>hdl.wg.Wait()\<close>\<close>
  | MnReturn
  | MnExit           \<comment> \<open>\<open>os.Exit(0)\<close>\<close>

text \<open>
  \<open>hd_wsc\<close>: for each WebSocket whether it was closed; \<open>hd_hb\<close>: \<open>None\<close> while \<open>hdl.hb\<close> is nil, then whether
  the heartbeat was closed; \<open>hd_cl\<close>: \<open>None\<close> while \<open>hdl.cl\<close> is nil; \<open>hd_first\<close>: the variable
  \<open>firstInterrupt\<close> of \<open>Wait\<close>.
\<close>

record Handles =
  hd_wsc :: "bool list"
  hd_hb :: "bool option"
  hd_cl :: "Client option"
  hd_closed :: bool
  hd_wg :: nat
  hd_once :: once_state
  hd_main :: main_pc
  hd_first :: bool
  hd_tasks :: "(task_kind \<times> task_pc) list"

text \<open>The handles after \<open>CreateServerConn\<close> opened \<open>n\<close> WebSockets.\<close>

definition NewClientHandles :: "nat \<Rightarrow> Handles" where
  "NewClientHandles n =
     \<lparr>hd_wsc = replicate n False, hd_hb = None, hd_cl = None, hd_closed = True, hd_wg = 0,
      hd_once = OnceFree, hd_main = MnAdd, hd_first = True, hd_tasks = []\<rparr>"

definition go_task :: "task_kind \<Rightarrow> task_pc \<Rightarrow> Handles \<Rightarrow> Handles" where
  "go_task k pc s = s\<lparr>hd_tasks := hd_tasks s @ [(k, pc)]\<rparr>"

text \<open>\<open>StartClient\<close>, then \<open>Wait\<close>.\<close>

fun StartClient_step :: "Handles \<Rightarrow> main_pc \<Rightarrow> Handles option" where
  "StartClient_step s MnAdd = Some (s\<lparr>hd_wg := hd_wg s + 2, hd_main := MnSpawn 0\<rparr>)"
| "StartClient_step s (MnSpawn i) =
     Some (if i < length (hd_wsc s)
           then go_task (KSocket i) TkRun (s\<lparr>hd_wg := hd_wg s + 1, hd_main := MnSpawn (Suc i)\<rparr>)
           else s\<lparr>hd_main := MnBeat\<rparr>)"
| "StartClient_step s MnBeat = Some (s\<lparr>hd_hb := Some False, hd_main := MnGoBeat\<rparr>)"
| "StartClient_step s MnGoBeat = Some (go_task KBeat TkRun (s\<lparr>hd_main := MnClient\<rparr>))"
| "StartClient_step s MnClient = Some (s\<lparr>hd_cl := Some NewClient, hd_main := MnGoClient\<rparr>)"
| "StartClient_step s MnGoClient = Some (go_task KServe TkRun (s\<lparr>hd_main := MnOpen\<rparr>))"
| "StartClient_step s MnOpen = Some (s\<lparr>hd_closed := False, hd_main := MnWait\<rparr>)"
| "StartClient_step s MnWait = (if hd_wg s = 0 then Some (s\<lparr>hd_main := MnReturn\<rparr>) else None)"
| "StartClient_step s MnReturn = None"
| "StartClient_step s MnExit = None"

text \<open>What a running task works on is closed, so it ends.\<close>

fun task_ends :: "Handles \<Rightarrow> task_kind \<Rightarrow> bool" where
  "task_ends s (KSocket i) = (hd_wsc s ! i)"
| "task_ends s KBeat = (hd_hb s = Some True \<or> hd_wsc s \<noteq> [] \<and> last (hd_wsc s))"
| "task_ends s KServe = (case hd_cl s of None \<Rightarrow> False | Some cl \<Rightarrow> cl_closed cl)"
| "task_ends s KNotify = False"

definition set_task :: "nat \<Rightarrow> task_kind \<Rightarrow> task_pc \<Rightarrow> Handles \<Rightarrow> Handles" where
  "set_task i k pc s = s\<lparr>hd_tasks := (hd_tasks s)[i := (k, pc)]\<rparr>"

text \<open>
  One step of task \<open>i\<close>: the end of its work, \<open>once.Do\<close> with the body of \<open>closeAll\<close> (or of \<open>NotifyClose\<close>,
  which waits), and the deferred \<open>wg.Done\<close>.
\<close>

fun task_step :: "Handles \<Rightarrow> nat \<Rightarrow> task_kind \<Rightarrow> task_pc \<Rightarrow> Handles option" where
  "task_step s i k TkNotify =
     Some (if hd_closed s then set_task i k TkDone s else set_task i k TkOnce (s\<lparr>hd_closed := True\<rparr>))"
| "task_step s i k TkRun = (if task_ends s k then Some (set_task i k TkOnce s) else None)"
| "task_step s i k TkOnce =
     (case hd_once s of
        OnceFree \<Rightarrow> Some (set_task i k (TkBody (OcClient (k = KNotify))) (s\<lparr>hd_once := OnceBusy\<rparr>))
      | OnceBusy \<Rightarrow> None
      | OnceDone \<Rightarrow> Some (set_task i k TkFinish s))"
| "task_step s i k (TkBody (OcClient wait)) =
     (case hd_cl s of
        None \<Rightarrow> Some (set_task i k (TkBody OcBeat) s)
      | Some cl \<Rightarrow>
          (case Client_Close wait cl of
             Returns (cl', waits) \<Rightarrow>
               Some (set_task i k (TkBody (if waits then OcWait else OcBeat)) (s\<lparr>hd_cl := Some cl'\<rparr>))
           | _ \<Rightarrow> None))"
| "task_step s i k (TkBody OcWait) =
     (case hd_cl s of
        Some cl \<Rightarrow> if cl_active cl = 0 then Some (set_task i k (TkBody OcBeat) s) else None
      | None \<Rightarrow> None)"
| "task_step s i k (TkBody OcBeat) =
     Some (set_task i k (TkBody OcSockets) (s\<lparr>hd_hb := map_option (\<lambda>_. True) (hd_hb s)\<rparr>))"
| "task_step s i k (TkBody OcSockets) =
     Some (set_task i k TkFinish (s\<lparr>hd_wsc := map (\<lambda>_. True) (hd_wsc s), hd_once := OnceDone\<rparr>))"
| "task_step s i k TkFinish =
     Some (set_task i k TkDone (if k = KNotify then s else s\<lparr>hd_wg := hd_wg s - 1\<rparr>))"
| "task_step s i k TkDone = None"

text \<open>The number of active connections, which the wait group of the client counts, goes up and down.\<close>

definition set_active :: "(nat \<Rightarrow> nat) \<Rightarrow> Handles \<Rightarrow> Handles" where
  "set_active f s = s\<lparr>hd_cl := map_option (\<lambda>cl. cl\<lparr>cl_active := f (cl_active cl)\<rparr>) (hd_cl s)\<rparr>"

definition active :: "Handles \<Rightarrow> nat" where
  "active s = (case hd_cl s of None \<Rightarrow> 0 | Some cl \<Rightarrow> cl_active cl)"

text \<open>
  What the program does by itself: the main goroutine moves, a task moves, a connection comes to its
  end. What can befall it from outside: a task fails, the user interrupts (a second time: the process
  ends), a connection arrives.
\<close>

datatype hd_event = EvMain | EvTask nat | EvConnEnd | EvFail nat | EvInterrupt | EvConn

fun hd_act :: "hd_event \<Rightarrow> Handles \<Rightarrow> Handles option" where
  "hd_act EvMain s = StartClient_step s (hd_main s)"
| "hd_act (EvTask i) s =
     (if i < length (hd_tasks s)
      then (case hd_tasks s ! i of (k, pc) \<Rightarrow> task_step s i k pc) else None)"
| "hd_act EvConnEnd s = (if 0 < active s then Some (set_active (\<lambda>n. n - 1) s) else None)"
| "hd_act (EvFail i) s =
     (if i < length (hd_tasks s) \<and> snd (hd_tasks s ! i) = TkRun
      then Some (set_task i (fst (hd_tasks s ! i)) TkOnce s) else None)"
| "hd_act EvInterrupt s =
     (if hd_main s \<noteq> MnWait then None
      else if hd_first s then Some (go_task KNotify TkNotify (s\<lparr>hd_first := False\<rparr>))
      else Some (s\<lparr>hd_main := MnExit\<rparr>))"
| "hd_act EvConn s = (if hd_cl s = None then None else Some (set_active Suc s))"

fun own_event :: "hd_event \<Rightarrow> bool" where
  "own_event EvMain = True"
| "own_event (EvTask i) = True"
| "own_event EvConnEnd = True"
| "own_event _ = False"

text \<open>A process that has exited does nothing more.\<close>

definition hd_step :: "Handles \<Rightarrow> Handles \<Rightarrow> bool" where
  "hd_step s t \<longleftrightarrow> hd_main s \<noteq> MnExit \<and> (\<exists>e. hd_act e s = Some t)"

definition hd_own_step :: "Handles \<Rightarrow> Handles \<Rightarrow> bool" where
  "hd_own_step s t \<longleftrightarrow> hd_main s \<noteq> MnExit \<and> (\<exists>e. own_event e \<and> hd_act e s = Some t)"

section \<open>Invariants\<close>

text \<open>What the wait group counts: tasks that have not left it, and those not started yet.\<close>

fun main_due :: "main_pc \<Rightarrow> nat" where
  "main_due (MnSpawn i) = 2"
| "main_due MnBeat = 2"
| "main_due MnGoBeat = 2"
| "main_due MnClient = 1"
| "main_due MnGoClient = 1"
| "main_due _ = 0"

definition due :: "task_kind \<times> task_pc \<Rightarrow> nat" where
  "due p = (if fst p = KNotify \<or> snd p = TkDone then 0 else 1)"

definition in_body :: "task_kind \<times> task_pc \<Rightarrow> nat" where
  "in_body p = (case snd p of TkBody oc \<Rightarrow> 1 | _ \<Rightarrow> 0)"

definition task_ok :: "Handles \<Rightarrow> task_kind \<times> task_pc \<Rightarrow> bool" where
  "task_ok s p \<longleftrightarrow> (\<forall>i. fst p = KSocket i \<longrightarrow> i < length (hd_wsc s)) \<and>
     (fst p = KNotify \<longrightarrow> snd p \<noteq> TkRun) \<and> (snd p = TkNotify \<longrightarrow> fst p = KNotify) \<and> (snd p = TkBody OcWait \<longrightarrow> hd_cl s \<noteq> None)"
definition hd_inv :: "Handles \<Rightarrow> bool" where
  "hd_inv s \<longleftrightarrow>
     hd_wg s = main_due (hd_main s) + sum_list (map due (hd_tasks s)) \<and>
     sum_list (map in_body (hd_tasks s)) = (if hd_once s = OnceBusy then 1 else 0) \<and>
     (\<forall>p \<in> set (hd_tasks s). task_ok s p) \<and>
     (\<forall>cl. hd_cl s = Some cl \<longrightarrow> cl_stop_closed cl = cl_closed cl)"

lemma task_ok_simps [simp]:
  "task_ok (s\<lparr>hd_main := m\<rparr>) p = task_ok s p" "task_ok (s\<lparr>hd_first := b\<rparr>) p = task_ok s p"
  "task_ok (s\<lparr>hd_wg := n\<rparr>) p = task_ok s p" "task_ok (s\<lparr>hd_closed := b\<rparr>) p = task_ok s p"
  "task_ok (s\<lparr>hd_once := o'\<rparr>) p = task_ok s p" "task_ok (s\<lparr>hd_tasks := ts\<rparr>) p = task_ok s p"
  "task_ok (s\<lparr>hd_hb := h\<rparr>) p = task_ok s p"
  by (simp_all add: task_ok_def)

lemma hd_inv_new: "hd_inv (NewClientHandles n)"
  by (simp add: hd_inv_def NewClientHandles_def)

lemma set_task_sums:
  assumes "i < length (hd_tasks s)" and "hd_tasks s ! i = (k, pc)"
  shows "sum_list (map due ((hd_tasks s)[i := (k, pc')])) + due (k, pc) =
      sum_list (map due (hd_tasks s)) + due (k, pc')"
    and "sum_list (map in_body ((hd_tasks s)[i := (k, pc')])) + in_body (k, pc) =
      sum_list (map in_body (hd_tasks s)) + in_body (k, pc')"
  using sum_list_map_update [OF assms(1), of due "(k, pc')"]
    sum_list_map_update [OF assms(1), of in_body "(k, pc')"] assms(2) by simp_all

text \<open>A task moves; \<open>s1\<close> is the state with everything but its program counter changed.\<close>

lemma set_task_inv:
  assumes inv: "hd_inv s" and at: "i < length (hd_tasks s)" "hd_tasks s ! i = (k, pc)"
    and same: "hd_tasks s1 = hd_tasks s" "hd_main s1 = hd_main s" "length (hd_wsc s1) = length (hd_wsc s)"
      "hd_cl s1 = None \<longleftrightarrow> hd_cl s = None"
    and wg: "hd_wg s1 + due (k, pc) = hd_wg s + due (k, pc')"
    and once: "(if hd_once s1 = OnceBusy then 1 else 0) + in_body (k, pc) =
      (if hd_once s = OnceBusy then 1 else 0) + in_body (k, pc')"
    and ok: "task_ok s (k, pc')" and cl: "\<forall>cl. hd_cl s1 = Some cl \<longrightarrow> cl_stop_closed cl = cl_closed cl"
  shows "hd_inv (set_task i k pc' s1)"
proof -
  have "task_ok s p" if "p \<in> set ((hd_tasks s)[i := (k, pc')])" for p
    using that inv ok set_update_subset_insert [of "hd_tasks s" i "(k, pc')"] unfolding hd_inv_def by blast
  then have "\<forall>p \<in> set ((hd_tasks s)[i := (k, pc')]). task_ok (set_task i k pc' s1) p"
    using same by (simp add: task_ok_def set_task_def)
  with inv set_task_sums [OF at, of pc'] wg once cl same show ?thesis
    unfolding hd_inv_def set_task_def by auto
qed

lemma task_step_inv:
  assumes inv: "hd_inv s" and at: "i < length (hd_tasks s)" "hd_tasks s ! i = (k, pc)"
    and step: "task_step s i k pc = Some t"
  shows "hd_inv t"
proof -
  have ok: "task_ok s (k, pc)" using inv at nth_mem [OF at(1)] by (simp add: hd_inv_def)
  have cl: "\<forall>cl. hd_cl s = Some cl \<longrightarrow> cl_stop_closed cl = cl_closed cl" using inv by (simp add: hd_inv_def)
  have busy: "in_body (k, pc) = 1 \<Longrightarrow> hd_once s = OnceBusy"
    using inv set_task_sums(2) [OF at, of TkDone] by (auto simp: hd_inv_def in_body_def split: if_splits)
  note move = set_task_inv [OF inv at]
  show ?thesis
  proof (cases pc)
    case TkNotify
    then have d: "due (k, pc') = 0" "task_ok s (k, TkOnce)" "task_ok s (k, TkDone)" for pc'
      using ok by (auto simp: due_def task_ok_def)
    show ?thesis
    proof (cases "hd_closed s")
      case True
      with TkNotify step cl show ?thesis by (auto intro!: move simp: d in_body_def)
    next
      case False
      with TkNotify step cl show ?thesis by (auto intro!: move simp: d in_body_def)
    qed
  next
    case (TkBody oc)
    with step ok cl busy show ?thesis
      by (cases oc)
        (auto intro!: move simp: due_def in_body_def task_ok_def Client_Close_def
          split: option.splits if_splits)
  next
    case TkFinish
    have "k \<noteq> KNotify \<Longrightarrow> 0 < hd_wg s"
      using inv set_task_sums(1) [OF at, of TkDone] TkFinish by (simp add: hd_inv_def due_def)
    define s1 where "s1 = (if k = KNotify then s else s\<lparr>hd_wg := hd_wg s - 1\<rparr>)"
    have "hd_wg s1 + due (k, pc) = hd_wg s + due (k, TkDone)"
      using TkFinish \<open>k \<noteq> KNotify \<Longrightarrow> 0 < hd_wg s\<close> by (simp add: s1_def due_def)
    moreover have "t = set_task i k TkDone s1" using TkFinish step by (simp add: s1_def)
    moreover have "task_ok s (k, TkDone)" using ok by (simp add: task_ok_def)
    moreover have "hd_tasks s1 = hd_tasks s" "hd_main s1 = hd_main s" "hd_wsc s1 = hd_wsc s"
        "hd_cl s1 = hd_cl s" "hd_once s1 = hd_once s"
      by (simp_all add: s1_def)
    ultimately show ?thesis using TkFinish cl by (simp add: move in_body_def)
  qed (use step ok cl in \<open>auto intro!: move simp: due_def in_body_def task_ok_def
      split: if_splits once_state.splits\<close>)
qed

lemma task_starts [simp]:
  "due (k, TkRun) = (if k = KNotify then 0 else 1)" "in_body (k, TkRun) = 0"
  "due (KNotify, pc) = 0" "in_body (k, TkNotify) = 0"
  "task_ok s (KNotify, TkNotify)" "task_ok s (KBeat, TkRun)" "task_ok s (KServe, TkRun)"
  "task_ok s (KSocket i, TkRun) \<longleftrightarrow> i < length (hd_wsc s)"
  by (auto simp: due_def in_body_def task_ok_def)

lemma task_ok_cl: "task_ok s p \<Longrightarrow> task_ok (s\<lparr>hd_cl := Some cl\<rparr>) p"
  by (simp add: task_ok_def)

lemma main_inv:
  assumes "hd_inv s" and "StartClient_step s (hd_main s) = Some t"
  shows "hd_inv t"
  using assms
  by (cases "hd_main s") (auto simp: hd_inv_def go_task_def NewClient_def task_ok_cl split: if_splits)

lemma active_inv: "hd_inv s \<Longrightarrow> hd_inv (set_active f s)"
  by (cases "hd_cl s") (auto simp: hd_inv_def set_active_def task_ok_def)

lemma hd_inv_step:
  assumes inv: "hd_inv s" and step: "hd_act e s = Some t"
  shows "hd_inv t"
proof (cases e)
  case EvMain
  with inv step show ?thesis by (simp add: main_inv)
next
  case (EvTask i)
  with inv step show ?thesis by (auto intro: task_step_inv split: if_splits prod.splits)
next
  case (EvFail i)
  obtain k pc where at: "hd_tasks s ! i = (k, pc)" by (cases "hd_tasks s ! i")
  with EvFail step have i: "i < length (hd_tasks s)" and pc: "pc = TkRun" and t: "t = set_task i k TkOnce s"
    by (auto split: if_splits)
  have "task_ok s (k, pc)" using inv at nth_mem [OF i] by (simp add: hd_inv_def)
  with pc inv show ?thesis
    unfolding t by (intro set_task_inv [OF inv i at]) (auto simp: due_def in_body_def task_ok_def hd_inv_def)
next
  case EvInterrupt
  with inv step show ?thesis
    by (auto simp: hd_inv_def go_task_def split: if_splits)
next
  case EvConnEnd
  with inv step show ?thesis by (auto simp: active_inv split: if_splits)
next
  case EvConn
  with inv step show ?thesis by (auto simp: active_inv split: if_splits)
qed

text \<open>
  After a start that was not disturbed everything that has to be closed is known; from the first
  entry into \<open>once.Do\<close> on it gets closed in the order of the body.
\<close>

definition cl_down :: "Handles \<Rightarrow> bool" where
  "cl_down s \<longleftrightarrow> (\<exists>cl. hd_cl s = Some cl \<and> cl_closed cl)"

fun body_ok :: "Handles \<Rightarrow> task_pc \<Rightarrow> bool" where
  "body_ok s (TkBody OcWait) = cl_down s"
| "body_ok s (TkBody OcBeat) = cl_down s"
| "body_ok s (TkBody OcSockets) = (cl_down s \<and> hd_hb s = Some True)"
| "body_ok s _ = True"

definition all_down :: "Handles \<Rightarrow> bool" where
  "all_down s \<longleftrightarrow> cl_down s \<and> hd_hb s = Some True \<and> (\<forall>b \<in> set (hd_wsc s). b)"

definition hd_started :: "Handles \<Rightarrow> bool" where
  "hd_started s \<longleftrightarrow> hd_main s \<in> {MnWait, MnReturn, MnExit} \<and> hd_hb s \<noteq> None \<and> hd_cl s \<noteq> None \<and>
     (\<forall>p \<in> set (hd_tasks s). body_ok s (snd p)) \<and> (hd_once s = OnceDone \<longrightarrow> all_down s)"

lemma body_ok_mono:
  "body_ok s pc \<Longrightarrow> (cl_down s \<longrightarrow> cl_down t) \<Longrightarrow> (hd_hb s = Some True \<longrightarrow> hd_hb t = Some True) \<Longrightarrow> body_ok t pc"
  by (cases "(s, pc)" rule: body_ok.cases) auto

text \<open>A task moves; \<open>s1\<close> is the state with everything but its program counter changed.\<close>

lemma set_task_started:
  assumes st: "hd_started s" and same: "hd_tasks s1 = hd_tasks s" "hd_main s1 = hd_main s"
    and up: "hd_hb s1 \<noteq> None" "hd_cl s1 \<noteq> None" "cl_down s \<longrightarrow> cl_down s1"
      "hd_hb s = Some True \<longrightarrow> hd_hb s1 = Some True"
    and ok: "body_ok s1 pc'" and once: "hd_once s1 = OnceDone \<longrightarrow> all_down s1"
  shows "hd_started (set_task i k pc' s1)"
proof -
  let ?t = "set_task i k pc' s1"
  have t: "body_ok ?t pc \<longleftrightarrow> body_ok s1 pc" "all_down ?t \<longleftrightarrow> all_down s1" for pc
    by (cases "(s1, pc)" rule: body_ok.cases; simp add: set_task_def cl_down_def)
      (simp add: set_task_def all_down_def cl_down_def)
  have "body_ok s1 (snd p)" if "p \<in> set ((hd_tasks s)[i := (k, pc')])" for p
  proof -
    from that have "p = (k, pc') \<or> p \<in> set (hd_tasks s)"
      using set_update_subset_insert [of "hd_tasks s" i "(k, pc')"] by blast
    then show ?thesis
    proof
      assume "p \<in> set (hd_tasks s)"
      then have "body_ok s (snd p)" using st by (simp add: hd_started_def)
      then show ?thesis using up(3,4) by (rule body_ok_mono)
    qed (simp add: ok)
  qed
  with st same up once show ?thesis
    unfolding hd_started_def t by (simp add: set_task_def)
qed

lemma started_body:
  assumes st: "hd_started s" and at: "hd_tasks s ! i = (k, TkBody oc)" "i < length (hd_tasks s)"
    and step: "task_step s i k (TkBody oc) = Some t"
  shows "hd_started t"
proof -
  have now: "body_ok s (TkBody oc)" using st at nth_mem [of i "hd_tasks s"] by (force simp: hd_started_def)
  have st': "hd_hb s \<noteq> None" "hd_cl s \<noteq> None" "hd_once s = OnceDone \<longrightarrow> all_down s"
    using st by (simp_all add: hd_started_def)
  note move = set_task_started [OF st]
  show ?thesis
  proof (cases oc)
    case (OcClient wait)
    obtain cl where cl: "hd_cl s = Some cl" using st'(2) by blast
    obtain cl' waits where c: "Client_Close wait cl = Returns (cl', waits)"
      using step OcClient cl by (auto split: outcome.splits)
    then have "cl_closed cl'" by (auto simp: Client_Close_def split: if_splits)
    moreover have "t = set_task i k (TkBody (if waits then OcWait else OcBeat)) (s\<lparr>hd_cl := Some cl'\<rparr>)"
      using step OcClient cl c by simp
    ultimately show ?thesis
      using st' cl by (simp only:) (rule move; auto simp: cl_down_def all_down_def)
  next
    case OcWait
    with step have "t = set_task i k (TkBody OcBeat) s" by (auto split: option.splits if_splits)
    then show ?thesis using OcWait st' now by (simp only:) (rule move; simp)
  next
    case OcBeat
    with step
    have "t = set_task i k (TkBody OcSockets) (s\<lparr>hd_hb := map_option (\<lambda>_. True) (hd_hb s)\<rparr>)" by simp
    then show ?thesis
      using OcBeat st' now by (simp only:) (rule move; auto simp: cl_down_def all_down_def)
  next
    case OcSockets
    with step
    have "t = set_task i k TkFinish (s\<lparr>hd_wsc := map (\<lambda>_. True) (hd_wsc s), hd_once := OnceDone\<rparr>)" by simp
    then show ?thesis
      using OcSockets st' now by (simp only:) (rule move; auto simp: cl_down_def all_down_def)
  qed
qed

lemma started_task:
  assumes st: "hd_started s" and at: "hd_tasks s ! i = (k, pc)" "i < length (hd_tasks s)"
    and step: "task_step s i k pc = Some t"
  shows "hd_started t"
proof -
  have st': "hd_hb s \<noteq> None" "hd_cl s \<noteq> None" "hd_once s = OnceDone \<longrightarrow> all_down s"
    using st by (simp_all add: hd_started_def)
  note move = set_task_started [OF st]
  show ?thesis
  proof (cases pc)
    case (TkBody oc)
    with step at show ?thesis by (auto intro: started_body [OF st])
  next
    case TkNotify
    with step have "t = (if hd_closed s then set_task i k TkDone s else set_task i k TkOnce (s\<lparr>hd_closed := True\<rparr>))"
      by simp
    then show ?thesis
      using st' by (cases "hd_closed s"; simp only: if_True if_False)
        (rule move; simp add: cl_down_def all_down_def)+
  next
    case TkOnce
    show ?thesis
    proof (cases "hd_once s")
      case OnceFree
      with TkOnce step
      have "t = set_task i k (TkBody (OcClient (k = KNotify))) (s\<lparr>hd_once := OnceBusy\<rparr>)" by simp
      then show ?thesis using st' by (simp only:) (rule move; simp add: cl_down_def)
    next
      case OnceDone
      with TkOnce step have "t = set_task i k TkFinish s" by simp
      then show ?thesis using st' by (simp only:) (rule move; simp)
    qed (use TkOnce step in simp)
  next
    case TkFinish
    define s1 where "s1 = (if k = KNotify then s else s\<lparr>hd_wg := hd_wg s - 1\<rparr>)"
    have "hd_tasks s1 = hd_tasks s" "hd_main s1 = hd_main s" "hd_hb s1 = hd_hb s" "hd_cl s1 = hd_cl s"
        "hd_once s1 = hd_once s" "hd_wsc s1 = hd_wsc s" "t = set_task i k TkDone s1"
      using TkFinish step by (simp_all add: s1_def)
    then show ?thesis using st' by (simp only:) (rule move; auto simp: cl_down_def all_down_def)
  next
    case TkRun
    with step have "t = set_task i k TkOnce s" by (simp split: if_splits)
    then show ?thesis using st' by (simp only:) (rule move; simp)
  qed (use step in simp)
qed

end
