(* ===== verification/Handles_Live.thy ===== *)
theory Handles_Live
  imports Handles
begin

text \<open>
  Shutting the client down: once any task has ended after an undisturbed start, the program by itself
  always comes to the point where \<open>Wait\<close> returns; a task that ends while \<open>StartClient\<close> is still running
  can prevent that.
\<close>

section \<open>Preservation\<close>

lemma started_cong:
  assumes st: "hd_started s" and "hd_main t \<in> {MnWait, MnReturn, MnExit}" and "hd_hb t = hd_hb s"
    and cl: "cl_down t = cl_down s" "hd_cl t \<noteq> None" and "hd_once t = hd_once s" "hd_wsc t = hd_wsc s"
    and new: "\<And>p. p \<in> set (hd_tasks t) \<Longrightarrow> p \<in> set (hd_tasks s) \<or> body_ok t (snd p)"
  shows "hd_started t"
proof -
  have "body_ok t (snd p)" if "p \<in> set (hd_tasks t)" for p
    using new [OF that] st assms(3) cl(1) body_ok_mono [of s "snd p" t] by (auto simp: hd_started_def)
  with assms show ?thesis by (auto simp: hd_started_def all_down_def)
qed

lemma active_started: "hd_started s \<Longrightarrow> hd_started (set_active f s)"
  by (rule started_cong) (auto simp: hd_started_def cl_down_def set_active_def)

lemma hd_started_step:
  assumes st: "hd_started s" and step: "hd_act e s = Some t"
  shows "hd_started t"
proof (cases e)
  case EvMain
  then have "t = s\<lparr>hd_main := MnReturn\<rparr>"
    using st step by (cases "hd_main s") (simp_all add: hd_started_def split: if_splits)
  with st show ?thesis by (intro started_cong [OF st]) (simp_all add: hd_started_def cl_down_def)
next
  case (EvTask i)
  with st step show ?thesis by (auto intro: started_task split: if_splits prod.splits)
next
  case (EvFail i)
  then obtain k where "t = set_task i k TkOnce s" using step by (auto split: if_splits)
  with st show ?thesis by (simp only:) (rule set_task_started [OF st]; simp add: hd_started_def)
next
  case EvInterrupt
  then have "t = go_task KNotify TkNotify (s\<lparr>hd_first := False\<rparr>) \<or> t = s\<lparr>hd_main := MnExit\<rparr>"
    using step by (auto split: if_splits)
  with st show ?thesis
    by (intro started_cong [OF st]) (auto simp: hd_started_def cl_down_def go_task_def)
next
  case EvConnEnd
  with st step show ?thesis by (auto intro: active_started split: if_splits)
next
  case EvConn
  with st step show ?thesis by (auto intro: active_started split: if_splits)
qed

text \<open>The one-time closing, once entered, is never left to be entered again.\<close>

lemma once_entered_step:
  assumes "hd_once s \<noteq> OnceFree" and "hd_act e s = Some t"
  shows "hd_once t \<noteq> OnceFree"
proof (cases e)
  case EvMain
  with assms show ?thesis by (cases "hd_main s") (auto simp: go_task_def split: if_splits)
next
  case (EvTask i)
  obtain k pc where at: "hd_tasks s ! i = (k, pc)" by (cases "hd_tasks s ! i")
  show ?thesis
  proof (cases pc)
    case (TkBody oc)
    with assms EvTask at show ?thesis
      by (cases oc) (auto simp: set_task_def split: if_splits option.splits outcome.splits)
  qed (use assms EvTask at in \<open>auto simp: set_task_def split: if_splits once_state.splits\<close>)
qed (use assms in \<open>auto simp: set_task_def set_active_def go_task_def split: if_splits\<close>)

section \<open>Shutting down ends\<close>

fun task_weight :: "task_kind \<times> task_pc \<Rightarrow> nat" where
  "task_weight (k, TkNotify) = 8"
| "task_weight (k, TkRun) = 8"
| "task_weight (k, TkOnce) = 7"
| "task_weight (k, TkBody (OcClient w)) = 6"
| "task_weight (k, TkBody OcWait) = 5"
| "task_weight (k, TkBody OcBeat) = 4"
| "task_weight (k, TkBody OcSockets) = 3"
| "task_weight (k, TkFinish) = 2"
| "task_weight (k, TkDone) = 0"

definition hd_weight :: "Handles \<Rightarrow> nat" where
  "hd_weight s = (if hd_main s = MnWait then 1 else 0) + sum_list (map task_weight (hd_tasks s)) + active s"

lemma task_step_weight:
  assumes at: "i < length (hd_tasks s)" "hd_tasks s ! i = (k, pc)" and step: "task_step s i k pc = Some t"
  shows "hd_weight t < hd_weight s"
proof -
  have upd: "sum_list (map task_weight ((hd_tasks s)[i := (k, pc')])) + task_weight (k, pc) =
      sum_list (map task_weight (hd_tasks s)) + task_weight (k, pc')" for pc'
    using sum_list_map_update [OF at(1), of task_weight "(k, pc')"] at(2) by simp
  have less: "sum_list (map task_weight ((hd_tasks s)[i := (k, pc')])) < sum_list (map task_weight (hd_tasks s))"
    if "task_weight (k, pc') < task_weight (k, pc)" for pc'
    using upd [of pc'] that by linarith
  have w: "hd_weight (set_task i k pc' s1) < hd_weight s"
    if "task_weight (k, pc') < task_weight (k, pc)" "hd_tasks s1 = hd_tasks s" "hd_main s1 = hd_main s"
      "active s1 = active s" for pc' s1
    using less [OF that(1)] that(2-4) by (simp add: hd_weight_def set_task_def active_def)
  show ?thesis
  proof (cases pc)
    case (TkBody oc)
    with step show ?thesis
      by (cases oc) (auto intro!: w simp: active_def Client_Close_def split: option.splits if_splits)
  next
    case TkFinish
    with step have "t = set_task i k TkDone (if k = KNotify then s else s\<lparr>hd_wg := hd_wg s - 1\<rparr>)" by simp
    moreover define s1 where "s1 = (if k = KNotify then s else s\<lparr>hd_wg := hd_wg s - 1\<rparr>)"
    moreover have "hd_tasks s1 = hd_tasks s" "hd_main s1 = hd_main s" "active s1 = active s"
      by (simp_all add: s1_def active_def)
    ultimately show ?thesis using TkFinish by (simp add: w)
  qed (use step in \<open>auto intro!: w simp: active_def split: if_splits once_state.splits\<close>)
qed

lemma hd_weight_less:
  assumes "hd_main s \<in> {MnWait, MnReturn}" and "own_event e" and "hd_act e s = Some t"
  shows "hd_weight t < hd_weight s"
proof (cases e)
  case EvMain
  with assms show ?thesis by (auto simp: hd_weight_def active_def split: if_splits)
next
  case (EvTask i)
  with assms(3) show ?thesis by (auto intro: task_step_weight split: if_splits prod.splits)
next
  case EvConnEnd
  with assms(3) show ?thesis
    by (auto simp: hd_weight_def active_def set_active_def split: if_splits option.splits)
qed (use assms(2) in auto)

text \<open>
  The states from which the program goes down: started without disturbance, and some task has entered
  the closing.
\<close>

definition going_down :: "Handles \<Rightarrow> bool" where
  "going_down s \<longleftrightarrow> hd_inv s \<and> hd_started s \<and> hd_once s \<noteq> OnceFree"

interpretation shutdown: terminating_machine hd_own_step going_down hd_weight
proof
  fix s t
  assume s: "going_down s" and "hd_own_step s t"
  then obtain e where e: "hd_main s \<noteq> MnExit" "own_event e" "hd_act e s = Some t"
    unfolding hd_own_step_def by blast
  with s show "going_down t"
    unfolding going_down_def using hd_inv_step hd_started_step once_entered_step by blast
  have "hd_main s \<in> {MnWait, MnReturn}" using s e(1) by (auto simp: going_down_def hd_started_def)
  then show "hd_weight t < hd_weight s" using hd_weight_less e(2,3) by blast
qed

text \<open>Nothing the program can do is left: then \<open>Wait\<close> has returned.\<close>

lemma down_task_moves:
  assumes down: "going_down s" and i: "i < length (hd_tasks s)" and "hd_tasks s ! i = (k, pc)"
    and "pc \<noteq> TkDone" and active: "active s = 0" and "hd_once s = OnceBusy \<longrightarrow> in_body (k, pc) = 1"
  shows "\<exists>t. task_step s i k pc = Some t"
proof -
  have ok: "task_ok s (k, pc)" "\<forall>cl. hd_cl s = Some cl \<longrightarrow> cl_stop_closed cl = cl_closed cl"
    using down assms(3) nth_mem [OF i] by (simp_all add: going_down_def hd_inv_def)
  show ?thesis
  proof (cases pc)
    case TkRun
    then have "hd_once s = OnceDone"
      using assms(6) down by (cases "hd_once s") (auto simp: going_down_def in_body_def)
    then have d: "all_down s" using down by (simp add: going_down_def hd_started_def)
    have "task_ends s k"
      using d ok(1) TkRun by (cases k) (auto simp: all_down_def cl_down_def task_ok_def)
    then show ?thesis using TkRun by simp
  next
    case TkOnce
    then show ?thesis
      using assms(6) down by (cases "hd_once s") (auto simp: going_down_def in_body_def)
  next
    case (TkBody oc)
    with ok active show ?thesis
      by (cases oc) (auto simp: task_ok_def active_def Client_Close_def split: option.splits)
  qed (use assms(4) in simp_all)
qed

lemma down_stuck:
  assumes down: "going_down s" and "hd_main s \<noteq> MnExit" and stuck: "\<forall>t. \<not> hd_own_step s t"
  shows "hd_main s = MnReturn"
proof -
  have no: "hd_act e s = None" if "own_event e" for e
    using stuck that assms(2) unfolding hd_own_step_def by (metis not_Some_eq)
  have active: "active s = 0" using no [of EvConnEnd] by (simp split: if_splits)
  have stays: "task_step s i k pc = None" if "i < length (hd_tasks s)" "hd_tasks s ! i = (k, pc)" for i k pc
    using no [of "EvTask i"] that by simp
  have "hd_once s \<noteq> OnceBusy"
  proof
    assume busy: "hd_once s = OnceBusy"
    then have "sum_list (map in_body (hd_tasks s)) = 1" using down by (simp add: going_down_def hd_inv_def)
    then obtain p where "p \<in> set (hd_tasks s)" "in_body p \<noteq> 0"
      by (metis (no_types, lifting) map_eq_conv sum_list_0 zero_neq_one)
    moreover obtain k pc where p: "p = (k, pc)" by (cases p)
    ultimately obtain i where at: "i < length (hd_tasks s)" "hd_tasks s ! i = (k, pc)"
      by (metis in_set_conv_nth)
    have "in_body (k, pc) = 1" "pc \<noteq> TkDone"
      using \<open>in_body p \<noteq> 0\<close> p by (auto simp: in_body_def split: task_pc.splits)
    then show False using down_task_moves [OF down at _ active] stays [OF at] by auto
  qed
  then have "pc = TkDone" if "i < length (hd_tasks s)" "hd_tasks s ! i = (k, pc)" for i k pc
    using down_task_moves [OF down that _ active] stays [OF that] by auto
  then have "due p = 0" if "p \<in> set (hd_tasks s)" for p
    using that by (cases p) (auto simp: in_set_conv_nth due_def)
  then have "sum_list (map due (hd_tasks s)) = 0" by (simp add: map_eq_conv cong: map_cong)
  moreover have "hd_main s = MnWait \<or> hd_main s = MnReturn"
    using down assms(2) by (auto simp: going_down_def hd_started_def)
  ultimately show ?thesis
    using down no [of EvMain] by (auto simp: going_down_def hd_inv_def)
qed

section \<open>Where the start has got to\<close>

fun has_hb :: "main_pc \<Rightarrow> bool" where
  "has_hb MnAdd = False" | "has_hb (MnSpawn i) = False" | "has_hb MnBeat = False" | "has_hb _ = True"

fun has_cl :: "main_pc \<Rightarrow> bool" where
  "has_cl MnGoClient = True" | "has_cl MnOpen = True" | "has_cl MnWait = True"
| "has_cl MnReturn = True" | "has_cl MnExit = True" | "has_cl _ = False"

definition hd_pos :: "Handles \<Rightarrow> bool" where
  "hd_pos s \<longleftrightarrow> (has_hb (hd_main s) \<longrightarrow> hd_hb s \<noteq> None) \<and> (has_cl (hd_main s) \<longrightarrow> hd_cl s \<noteq> None)"

lemma task_step_pos:
  assumes "task_step s i k pc = Some t"
  shows "hd_main t = hd_main s \<and> (hd_hb t = None \<longleftrightarrow> hd_hb s = None) \<and> (hd_cl t = None \<longleftrightarrow> hd_cl s = None)"
proof (cases pc)
  case (TkBody oc)
  with assms show ?thesis
    by (cases oc) (auto simp: set_task_def split: option.splits outcome.splits if_splits)
qed (use assms in \<open>auto simp: set_task_def split: if_splits once_state.splits\<close>)

lemma hd_pos_step:
  assumes "hd_pos s" and "hd_act e s = Some t"
  shows "hd_pos t"
proof (cases e)
  case EvMain
  with assms show ?thesis by (cases "hd_main s") (auto simp: hd_pos_def go_task_def split: if_splits)
next
  case (EvTask i)
  with assms show ?thesis by (auto simp: hd_pos_def dest!: task_step_pos split: if_splits prod.splits)
qed (use assms in \<open>auto simp: hd_pos_def set_task_def set_active_def go_task_def split: if_splits\<close>)

lemma started_reached:
  assumes "reaches hd_step (NewClientHandles n) s"
  shows "hd_inv s \<and> hd_pos s"
  using assms
proof (induction "NewClientHandles n" s rule: reaches.induct)
  case reaches_refl
  have "hd_pos (NewClientHandles n)" by (simp add: hd_pos_def NewClientHandles_def)
  then show ?case using hd_inv_new by blast
next
  case (reaches_step s t)
  then show ?case unfolding hd_step_def using hd_inv_step hd_pos_step by blast
qed

lemma undisturbed_started:
  assumes "hd_inv s" and "hd_pos s" and "hd_main s = MnWait" and "hd_once s = OnceFree"
  shows "hd_started s"
proof -
  have "in_body p = 0" if "p \<in> set (hd_tasks s)" for p
    using assms(1,4) that by (auto simp: hd_inv_def sum_list_eq_0_iff)
  then have "body_ok s (snd p)" if "p \<in> set (hd_tasks s)" for p
    using that by (cases "(s, snd p)" rule: body_ok.cases) (fastforce simp: in_body_def)+
  with assms(2-4) show ?thesis by (simp add: hd_started_def hd_pos_def)
qed

lemma going_down_reached:
  assumes "hd_inv s" and "hd_started s" and "reaches hd_step s t" and "hd_once t \<noteq> OnceFree"
  shows "going_down t"
proof -
  have "hd_inv t \<and> hd_started t"
    using assms(3,1,2)
    by (induction rule: reaches.induct) (auto simp: hd_step_def intro: hd_inv_step hd_started_step)
  with assms(4) show ?thesis by (simp add: going_down_def)
qed

lemma own_step_lives: "hd_own_step s t \<Longrightarrow> hd_main t \<noteq> MnExit"
proof -
  assume "hd_own_step s t"
  then obtain e where e: "hd_main s \<noteq> MnExit" "own_event e" "hd_act e s = Some t"
    unfolding hd_own_step_def by blast
  show ?thesis
  proof (cases e)
    case EvMain
    with e show ?thesis by (cases "hd_main s") (auto simp: go_task_def split: if_splits)
  next
    case (EvTask i)
    with e show ?thesis by (auto dest!: task_step_pos split: if_splits prod.splits)
  qed (use e in \<open>auto simp: set_active_def split: if_splits\<close>)
qed

text \<open>
  C6. Once the start is complete, the end of any task (a WebSocket, the heartbeat, the accept loop, or
  the user's interrupt) brings the whole client down: as soon as some goroutine has entered the
  closing, every run of the program's own steps is bounded, and where it can go no further \<open>Wait\<close> has
  returned. An interrupt waits for the active connections first.
\<close>

theorem client_shuts_down:
  assumes "reaches hd_step (NewClientHandles n) s" and "hd_main s = MnWait" and "hd_once s = OnceFree"
    and "reaches hd_step s t" and "hd_once t \<noteq> OnceFree" and "hd_main t \<noteq> MnExit"
    and "(hd_own_step ^^ m) t u"
  shows "m \<le> hd_weight t \<and> ((\<forall>v. \<not> hd_own_step u v) \<longrightarrow> hd_main u = MnReturn)"
proof -
  have "going_down t"
    using going_down_reached assms(4,5) undisturbed_started started_reached [OF assms(1)] assms(2,3) by blast
  then have "m + hd_weight u \<le> hd_weight t \<and> going_down u"
    using shutdown.run_length assms(7) by blast
  moreover have "hd_main u \<noteq> MnExit"
  proof (cases m)
    case 0
    with assms(6,7) show ?thesis by simp
  next
    case (Suc k)
    with assms(7) own_step_lives show ?thesis by auto
  qed
  ultimately show ?thesis using down_stuck by auto
qed

section \<open>Schedules\<close>

definition hd_do :: "hd_event \<Rightarrow> Handles \<Rightarrow> Handles option" where
  "hd_do e s = (if hd_main s = MnExit then None else hd_act e s)"

lemma hd_run: "run_events hd_do es s = Some t \<Longrightarrow> reaches hd_step s t"
proof (rule run_events_reaches [where act = hd_do and step = hd_step])
  show "hd_do e s = Some t \<Longrightarrow> hd_step s t" for e s t
    by (auto simp: hd_do_def hd_step_def split: if_splits)
qed

lemma hd_own_run:
  "run_events hd_do es s = Some t \<Longrightarrow> list_all own_event es \<Longrightarrow> (hd_own_step ^^ length es) s t"
proof (induction es arbitrary: s)
  case Nil
  then show ?case by simp
next
  case (Cons e es)
  then obtain u where "hd_do e s = Some u" "run_events hd_do es u = Some t" by (auto simp: bind_eq_Some_conv)
  moreover from this have "hd_own_step s u"
    using Cons.prems(2) by (auto simp: hd_own_step_def hd_do_def split: if_splits)
  ultimately have "hd_own_step s u" "(hd_own_step ^^ length es) u t" using Cons by simp_all
  then show ?case by (simp add: relpowp_Suc_I2 del: relpowp.simps)
qed

lemmas hd_eval = hd_do_def NewClientHandles_def go_task_def set_task_def NewClient_def Client_Close_def
  active_def

theorem client_shuts_down_witness:
  "\<exists>s t u. reaches hd_step (NewClientHandles 1) s \<and> hd_main s = MnWait \<and> hd_once s = OnceFree \<and>
     reaches hd_step s t \<and> hd_once t \<noteq> OnceFree \<and> (hd_own_step ^^ 11) t u \<and> 11 \<le> hd_weight t \<and>
     hd_main u = MnReturn"
proof -
  let ?s = "run_events hd_do (replicate 8 EvMain) (NewClientHandles 1)"
  have s: "?s = Some (the ?s)" by (simp add: hd_eval numeral_eq_Suc)
  have s': "hd_main (the ?s) = MnWait" "hd_once (the ?s) = OnceFree" by (simp_all add: hd_eval numeral_eq_Suc)
  let ?t = "run_events hd_do [EvFail 0, EvTask 0] (the ?s)"
  have t: "?t = Some (the ?t)" by (simp add: hd_eval numeral_eq_Suc)
  have t': "hd_once (the ?t) \<noteq> OnceFree" "hd_main (the ?t) \<noteq> MnExit" by (simp_all add: hd_eval numeral_eq_Suc)
  let ?es = "[EvTask 0, EvTask 0, EvTask 0, EvTask 0, EvTask 1, EvTask 1, EvTask 1, EvTask 2, EvTask 2, EvTask 2, EvMain]"
  let ?u = "run_events hd_do ?es (the ?t)"
  have u: "?u = Some (the ?u)" "hd_main (the ?u) = MnReturn" by (simp_all add: hd_eval numeral_eq_Suc)
  have len: "length ?es = 11" and es: "list_all own_event ?es" by simp_all
  have own: "(hd_own_step ^^ 11) (the ?t) (the ?u)" using hd_own_run [OF u(1) es] unfolding len .
  note runs = hd_run [OF s] hd_run [OF t]
  show ?thesis
    using client_shuts_down [OF runs(1) s' runs(2) t' own] runs s' t'(1) own u(2) by blast
qed

text \<open>
  C38. A WebSocket that fails while \<open>StartClient\<close> is still running can leave the client hanging: the closing
  runs once, before \<open>hdl.cl\<close> is set, so the accept loop started afterwards is never closed. From then
  on the program can do nothing by itself, \<open>Wait\<close> does not return, and the client goes on accepting
  connections with all its WebSockets closed.
\<close>

theorem early_failure_hangs:
  "\<exists>s cl. reaches hd_step (NewClientHandles 1) s \<and> hd_main s = MnWait \<and> hd_once s = OnceDone \<and>
     hd_wsc s = [True] \<and> hd_cl s = Some cl \<and> \<not> cl_closed cl \<and> (\<forall>t. \<not> hd_own_step s t)"
proof -
  let ?es = "[EvMain, EvMain, EvFail 0, EvTask 0, EvTask 0, EvTask 0, EvTask 0, EvTask 0] @ replicate 6 EvMain
    @ [EvTask 1, EvTask 1, EvTask 1]"
  define h where "h = \<lparr>hd_wsc = [True], hd_hb = Some False, hd_cl = Some NewClient, hd_closed = False,
      hd_wg = 1, hd_once = OnceDone, hd_main = MnWait, hd_first = True,
      hd_tasks = [(KSocket 0, TkDone), (KBeat, TkDone), (KServe, TkRun)]\<rparr>"
  have run: "run_events hd_do ?es (NewClientHandles 1) = Some h"
    by (simp add: hd_eval h_def numeral_eq_Suc)
  have "\<not> hd_own_step h t" for t
  proof
    assume "hd_own_step h t"
    then obtain e where "own_event e" "hd_act e h = Some t" unfolding hd_own_step_def by blast
    then show False
      by (cases e) (auto simp: h_def active_def NewClient_def less_Suc_eq split: if_splits)
  qed
  then show ?thesis
    using hd_run [OF run] by (intro exI [of _ h] exI [of _ NewClient]) (simp add: h_def NewClient_def)
qed

end
