(* ===== verification/Heart_Beat.thy ===== *)
theory Heart_Beat
  imports Client
begin

text \<open>
  The heartbeat of the client (\<open>wss/heart_beat.go\<close>). \<open>Start\<close> loops over a select of two events, the
  cancellation of its context and a tick of the 15-second ticker; which of them happens is the
  environment's choice. A run is given by the list of events it sees.
\<close>

section \<open>Model\<close>

record 'c HeartBeat =
  hb_wsc :: "'c WebSocketClient list"
  hb_cancelled :: bool
  hb_isClosed :: bool

definition NewHeartBeat :: "'c WebSocketClient list \<Rightarrow> 'c HeartBeat" where
  "NewHeartBeat wsc = \<lparr>hb_wsc = wsc, hb_cancelled = False, hb_isClosed = False\<rparr>"

definition HeartBeat_Close :: "'c HeartBeat \<Rightarrow> 'c HeartBeat option" where
  "HeartBeat_Close hb =
     (if hb_isClosed hb then Some hb else Some (hb\<lparr>hb_isClosed := True, hb_cancelled := True\<rparr>))"

interpretation heartbeat_close: idempotent_close HeartBeat_Close hb_isClosed
  by unfold_locales (auto simp: HeartBeat_Close_def split: if_splits)

text \<open>The loop over the WebSockets: the error variable is assigned by every write.\<close>

fun beat_all ::
  "('c, 'net) wsjson_write \<Rightarrow> (ksuid \<Rightarrow> string) \<Rightarrow> 'c WebSocketClient list \<Rightarrow> go_error option \<Rightarrow> 'net \<Rightarrow>
     go_error option \<times> 'net" where
  "beat_all wsw kstr [] err net = (err, net)"
| "beat_all wsw kstr (w # ws) err net =
     (case wsw (wc_conn w) (enc_message kstr (beat_message kstr)) net of
        (err', net') \<Rightarrow> beat_all wsw kstr ws err' net')"

datatype hb_event = HbDone | HbTick

text \<open>\<open>None\<close>: still waiting in the select; otherwise what \<open>Start\<close> returned. The second part is the network.\<close>

fun HeartBeat_Start ::
  "('c, 'net) wsjson_write \<Rightarrow> (ksuid \<Rightarrow> string) \<Rightarrow> 'c HeartBeat \<Rightarrow> hb_event list \<Rightarrow> 'net \<Rightarrow>
     go_error option option \<times> 'net" where
  "HeartBeat_Start wsw kstr hb [] net = (None, net)"
| "HeartBeat_Start wsw kstr hb (HbDone # evs) net = (Some None, net)"
| "HeartBeat_Start wsw kstr hb (HbTick # evs) net =
     (case beat_all wsw kstr (hb_wsc hb) None net of
        (Some err, net') \<Rightarrow> (Some (Some err), net')
      | (None, net') \<Rightarrow> HeartBeat_Start wsw kstr hb evs net')"

section \<open>Facts\<close>

lemma beat_all_append:
  "beat_all wsw kstr (ws @ [w]) err net =
     wsw (wc_conn w) (enc_message kstr (beat_message kstr)) (snd (beat_all wsw kstr ws err net))"
  by (induction ws arbitrary: err net) (auto split: prod.splits)

text \<open>On every working WebSocket each round sends exactly one heartbeat.\<close>

lemma beat_all_frames:
  assumes "ws_network wsw frames" and "\<forall>w \<in> set ws. \<forall>v net. fst (wsw (wc_conn w) v net) = None"
    and "\<forall>c c' v net. c' \<noteq> c \<longrightarrow> frames c' (snd (wsw c v net)) = frames c' net"
    and "distinct (map wc_conn ws)" and "c \<in> wc_conn ` set ws"
  shows "frames c (snd (beat_all wsw kstr ws err net)) = frames c net @ [enc_message kstr (beat_message kstr)]"
  using assms(2,4,5)
proof (induction ws arbitrary: err net)
  case Nil
  then show ?case by simp
next
  case (Cons w ws)
  let ?m = "enc_message kstr (beat_message kstr)"
  obtain net' where w: "wsw (wc_conn w) ?m net = (None, net')"
    using Cons.prems(1) by (metis fst_conv list.set_intros(1) prod.collapse)
  have other: "frames c' (snd (beat_all wsw kstr xs e n)) = frames c' n"
    if "c' \<notin> wc_conn ` set xs" for c' xs e n
    using that
  proof (induction xs arbitrary: e n)
    case (Cons x xs)
    obtain e1 n1 where x: "wsw (wc_conn x) ?m n = (e1, n1)" by fastforce
    then have "frames c' n1 = frames c' n" using Cons.prems assms(3) by (metis image_insert insertI1 list.set(2) snd_conv)
    with Cons x show ?case by simp
  qed simp
  show ?case
  proof (cases "c = wc_conn w")
    case True
    then have "frames c net' = frames c net @ [?m]"
      using w assms(1) by (auto dest: ws_network.write_ok)
    moreover have "c \<notin> wc_conn ` set ws" using Cons.prems(2) True by auto
    ultimately show ?thesis using w other by simp
  next
    case False
    then have "frames c net' = frames c net" using w assms(3) by (metis snd_conv)
    moreover have "c \<in> wc_conn ` set ws" using Cons.prems(3) False by auto
    ultimately show ?thesis using Cons w by simp
  qed
qed

text \<open>
  The heartbeat reports only the last WebSocket: as long as writes to the last one succeed, \<open>Start\<close>
  never returns an error, however many of the other WebSockets fail; it ends only when its context
  is cancelled. An error of the last one ends it at the next tick.
\<close>

theorem heartbeat_sees_last_only:
  assumes "hb_wsc hb = ws @ [w]" and "\<forall>v net. fst (wsw (wc_conn w) v net) = e"
  shows "fst (HeartBeat_Start wsw kstr hb evs net) =
    (case e of
       None \<Rightarrow> if HbDone \<in> set evs then Some None else None
     | Some err \<Rightarrow> (case evs of [] \<Rightarrow> None | HbDone # _ \<Rightarrow> Some None | HbTick # _ \<Rightarrow> Some (Some err)))"
proof -
  have round: "\<exists>net'. beat_all wsw kstr (hb_wsc hb) None net = (e, net')" for net
    using assms by (metis beat_all_append prod.collapse)
  show ?thesis
  proof (cases e)
    case None
    then show ?thesis
    proof (induction evs arbitrary: net)
      case (Cons ev evs)
      with round [of net] show ?case by (cases ev) auto
    qed simp
  next
    case (Some err)
    with round [of net] show ?thesis by (cases evs; cases "hd evs") auto
  qed
qed

theorem heartbeat_sees_last_only_witness:
  "fst (HeartBeat_Start (\<lambda>c v net. (if c = 0 then Some EOF else None, net)) kstr0
     (NewHeartBeat [\<lparr>wc_conn = 0, wc_proxies = [], wc_cancel = None\<rparr>,
                    \<lparr>wc_conn = 1 :: nat, wc_proxies = [], wc_cancel = None\<rparr>])
     [HbTick, HbTick, HbTick] ()) = None"
  using heartbeat_sees_last_only [of "NewHeartBeat [\<lparr>wc_conn = 0, wc_proxies = [], wc_cancel = None\<rparr>,
        \<lparr>wc_conn = 1, wc_proxies = [], wc_cancel = None\<rparr>]"
      "[\<lparr>wc_conn = 0, wc_proxies = [], wc_cancel = None\<rparr>]" "\<lparr>wc_conn = 1, wc_proxies = [], wc_cancel = None\<rparr>"
      "\<lambda>c v net. (if c = 0 then Some EOF else None, net)" None kstr0 "[HbTick, HbTick, HbTick]" "()"]
  by (simp add: NewHeartBeat_def)

end
