(* ===== verification/Term_View.thy ===== *)
theory Term_View
  imports Conn_Records Go_Net
begin

text \<open>
  The connection table of an interactive client (\<open>wss/term_view\<close>): \<open>Writer\<close> keeps the table at the
  bottom of the terminal and erases it before every output, \<open>ProgressLog\<close> lays the table out and is
  the output of the logger.

  The layout is Go's \<open>text/tabwriter\<close> with the parameters of the code (padding of 5 blanks, left
  aligned): text is split into lines and tab-terminated cells; a column is as wide as its widest cell
  in a block of adjacent lines. Cells are counted in bytes; vertical tabs, form feeds and escape bytes
  are not treated. Strings are written to the device \<open>'d\<close> by \<open>dev_Write\<close>, an argument; \<open>tty\<close> says
  whether the device is a terminal.
\<close>

type_synonym 'd dev_write = "string \<Rightarrow> 'd \<Rightarrow> (nat \<times> go_error option) \<times> 'd"

definition newline :: char where
  "newline = CHR 0x0A"

definition tab :: char where
  "tab = CHR 0x09"

definition ESC :: char where
  "ESC = CHR 0x1B"

section \<open>Writer\<close>

record Writer =
  tw_buf :: string
  tw_lineCount :: nat

definition NewWriter :: Writer where
  "NewWriter = \<lparr>tw_buf = [], tw_lineCount = 0\<rparr>"

text \<open>One line up, and erase it.\<close>

definition clear_seq :: string where
  "clear_seq = [ESC] @ ''[1A'' @ [ESC] @ ''[2K''"

definition clearLines :: "'d dev_write \<Rightarrow> nat \<Rightarrow> 'd \<Rightarrow> 'd" where
  "clearLines dev_Write lines d = snd (dev_Write (concat (replicate lines clear_seq)) d)"

definition ClearLines :: "bool \<Rightarrow> 'd dev_write \<Rightarrow> Writer \<Rightarrow> 'd \<Rightarrow> 'd" where
  "ClearLines tty dev_Write w d = (if tty then clearLines dev_Write (tw_lineCount w) d else d)"

definition NormalWrite ::
  "bool \<Rightarrow> 'd dev_write \<Rightarrow> string \<Rightarrow> Writer \<Rightarrow> 'd \<Rightarrow> (nat \<times> go_error option) \<times> 'd" where
  "NormalWrite tty dev_Write buf w d = dev_Write buf (ClearLines tty dev_Write w d)"

definition Writer_Write :: "string \<Rightarrow> Writer \<Rightarrow> (nat \<times> go_error option) \<times> Writer" where
  "Writer_Write buf w = ((length buf, None), w\<lparr>tw_buf := tw_buf w @ buf\<rparr>)"

definition count_lines :: "string \<Rightarrow> nat" where
  "count_lines s = length (filter (\<lambda>c. c = newline) s)"

text \<open>\<open>onLinesCleared\<close>: the callback, \<open>None\<close> for nil.\<close>

definition Writer_Flush ::
  "bool \<Rightarrow> 'd dev_write \<Rightarrow> ('d \<Rightarrow> go_error option \<times> 'd) option \<Rightarrow> Writer \<Rightarrow> 'd \<Rightarrow>
     go_error option \<times> Writer \<times> 'd" where
  "Writer_Flush tty dev_Write onLinesCleared w d =
     (if tw_buf w = [] then (None, w, d)
      else (let d1 = ClearLines tty dev_Write w d
            in case (case onLinesCleared of None \<Rightarrow> (None, d1) | Some f \<Rightarrow> f d1) of
                 (Some err, d2) \<Rightarrow> (Some err, w, d2)
               | (None, d2) \<Rightarrow>
                   (case dev_Write (tw_buf w) d2 of
                      ((n, err), d3) \<Rightarrow>
                        (err, w\<lparr>tw_buf := [], tw_lineCount := count_lines (tw_buf w)\<rparr>, d3))))"

section \<open>Tables\<close>

text \<open>A line of the table as its cells; the last one is what follows the last tab.\<close>

type_synonym tab_row = "string list"

definition row_cells :: "string \<Rightarrow> tab_row" where
  "row_cells line = Split tab line"

definition has_cell :: "nat \<Rightarrow> tab_row \<Rightarrow> bool" where
  "has_cell j row \<longleftrightarrow> Suc j < length row"

definition padding :: nat where
  "padding = 5"

text \<open>Width of column \<open>j\<close> in the block of lines around line \<open>i\<close>.\<close>

definition col_width :: "tab_row list \<Rightarrow> nat \<Rightarrow> nat \<Rightarrow> nat" where
  "col_width rows i j =
     foldr max
       (map (\<lambda>row. length (row ! j) + padding)
         (takeWhile (has_cell j) (rev (take i rows)) @ takeWhile (has_cell j) (drop i rows))) 0"

definition pad_cell :: "tab_row list \<Rightarrow> nat \<Rightarrow> nat \<Rightarrow> string \<Rightarrow> string" where
  "pad_cell rows i j c =
     (if has_cell j (rows ! i) then c @ replicate (col_width rows i j - length c) CHR '' '' else c)"

definition tab_line :: "tab_row list \<Rightarrow> nat \<Rightarrow> string" where
  "tab_line rows i = concat (map (\<lambda>j. pad_cell rows i j (rows ! i ! j)) [0..<length (rows ! i)])"

text \<open>The text after the last newline is a line, too, and is not ended.\<close>

definition tabwriter :: "string \<Rightarrow> string" where
  "tabwriter text =
     (let rows = map row_cells (Split newline text)
      in concat (map (\<lambda>i. tab_line rows i @ (if Suc i < length rows then [newline] else []))
           [0..<length rows]))"

section \<open>ProgressLog\<close>

definition uint_string :: "64 word \<Rightarrow> string" where
  "uint_string n = Itoa (unat n)"

text \<open>
  The loop over the addresses: \<open>left\<close> rows of the terminal are left. Results: the lines, the rows
  left, the number of records shown.
\<close>

fun record_lines :: "int \<Rightarrow> (string \<times> 64 word) list \<Rightarrow> string list \<times> int \<times> nat" where
  "record_lines left [] = ([], left, 0)"
| "record_lines left ((addr, n) # rest) =
     (if left \<le> 2 then ([], left, 0)
      else (case record_lines (left - 1) rest of
              (ls, left', k) \<Rightarrow> ((addr @ [tab] @ uint_string n @ [tab]) # ls, left', Suc k)))"

text \<open>\<open>order\<close>: the addresses in the order of this iteration over the map.\<close>

definition table_lines :: "int \<Rightarrow> (string \<times> 64 word) list \<Rightarrow> ConnRecord \<Rightarrow> string list" where
  "table_lines terminalRows order cr =
     (''TARGETs'' @ [tab] @ ''CONNECTIONs'' @ [tab]) #
     (let left0 = terminalRows - 1
      in if 2 \<le> left0
         then (case record_lines left0 order of
                 (ls, left, shown) \<Rightarrow>
                   (let hidden = int (gm_len (cr_Addresses cr)) - int shown
                    in ls @
                       (if hidden = 0
                        then (''TOTAL'' @ [tab] @ uint_string (cr_ConnSize cr) @ [tab]) #
                             (if 2 < left
                              then [''QueueLen '' @ Itoa (cr_QueueHubLen cr) @ [tab] @ ''LinkLen ''
                                      @ Itoa (cr_LinkHubLen cr) @ [tab]]
                              else [])
                        else [''TOTAL'' @ [tab] @ uint_string (cr_ConnSize cr) @ [tab] @ ''(''
                                @ Itoa (nat hidden) @ '' record(s) hidden)'' @ [tab]])))
         else [])"

definition lines_text :: "string list \<Rightarrow> string" where
  "lines_text ls = concat (map (\<lambda>l. l @ [newline]) ls)"

text \<open>
  \<open>SetLogBuffer\<close>. \<open>getsize\<close>: the number of rows of the terminal, or the error of asking for it, which is
  logged; \<open>relog\<close> is what logging does at this point.
\<close>

definition SetLogBuffer ::
  "(go_error \<Rightarrow> Writer \<times> 'd \<Rightarrow> (Writer \<times> 'd) outcome) \<Rightarrow> go_error + int \<Rightarrow> (string \<times> 64 word) list \<Rightarrow> ConnRecord \<Rightarrow>
     Writer \<times> 'd \<Rightarrow> (Writer \<times> 'd) outcome" where
  "SetLogBuffer relog getsize order cr p =
     (case getsize of
        Inl err \<Rightarrow> relog err p
      | Inr terminalRows \<Rightarrow>
          Returns (snd (Writer_Write (tabwriter (lines_text (table_lines terminalRows order cr))) (fst p)), snd p))"

text \<open>
  \<open>ProgressLog.Write\<close>, the output of the logger: it takes the mutex of the record. A log call from
  within it would wait for the logger, which is busy with this very call.
\<close>

definition plog_Write ::
  "bool \<Rightarrow> 'd dev_write \<Rightarrow> go_error + int \<Rightarrow> (string \<times> 64 word) list \<Rightarrow> string \<Rightarrow> ConnRecord \<Rightarrow>
     Writer \<times> 'd \<Rightarrow> (Writer \<times> 'd) outcome" where
  "plog_Write tty dev_Write getsize order buf cr p =
     (if cr_locked cr then Blocks
      else bind_outcome (SetLogBuffer (\<lambda>_ _. Blocks) getsize order cr p)
        (\<lambda>(w, d). case Writer_Flush tty dev_Write
                         (Some (\<lambda>d. case dev_Write buf d of ((n, err), d') \<Rightarrow> (err, d'))) w d of
                    (err, w', d') \<Rightarrow> Returns (w', d')))"

text \<open>
  The callback \<open>OnChange\<close> that \<open>StartClient\<close> installs on a terminal. \<open>entry\<close>: the logger's text for an
  error.
\<close>

definition plog_OnChange ::
  "bool \<Rightarrow> 'd dev_write \<Rightarrow> go_error + int \<Rightarrow> (string \<times> 64 word) list \<Rightarrow> (go_error \<Rightarrow> string) \<Rightarrow>
     (Writer \<times> 'd) on_change" where
  "plog_OnChange tty dev_Write getsize order entry =
     Some (\<lambda>status cr p.
       bind_outcome
         (SetLogBuffer (\<lambda>err. plog_Write tty dev_Write getsize order (entry err) cr) getsize order cr p)
         (\<lambda>(w, d). case Writer_Flush tty dev_Write None w d of (err, w', d') \<Rightarrow> Returns (w', d')))"

text \<open>The callback otherwise: \<open>trace\<close> logs a text and an address.\<close>

definition log_OnChange :: "(string \<Rightarrow> string \<Rightarrow> 'w \<Rightarrow> 'w) \<Rightarrow> 'w on_change" where
  "log_OnChange trace =
     Some (\<lambda>status cr w. Returns
       (trace (if cs_IsNew status then ''new proxy connection'' else ''close proxy connection'')
         (cs_Address status) w))"

lemma log_OnChange_calm: "calm (log_OnChange trace)"
  by (simp add: calm_def log_OnChange_def)

end
