(* ===== verification/Term_Props.thy ===== *)
theory Term_Props
  imports Term_View
begin

text \<open>
  What the interactive client shows. The size of the connection table is exact and always leaves room
  for the line of the cursor. On an ANSI terminal, whatever is logged and however often the table
  changes, the screen holds the log followed by one table, the last one. When the size of the
  terminal cannot be read, an update of the record never returns: it logs while it holds the mutex
  that the log output needs.
\<close>

section \<open>Size of the table\<close>

lemma record_lines_spec:
  assumes "record_lines left order = (ls, left', k)"
  shows "k = min (length order) (nat (left - 2)) \<and> length ls = k \<and> left' = left - int k"
  using assms
proof (induction order arbitrary: left ls left' k)
  case Nil
  then show ?case by auto
next
  case (Cons a order)
  obtain addr n where a: "a = (addr, n)" by (cases a)
  obtain ls1 left1 k1 where r: "record_lines (left - 1) order = (ls1, left1, k1)"
    by (metis prod_cases3)
  have ih: "k1 = min (length order) (nat (left - 3))" "length ls1 = k1" "left1 = left - 1 - int k1"
    using Cons.IH [OF r] by simp_all
  show ?case
  proof (cases "left \<le> 2")
    case True
    with Cons.prems a show ?thesis by auto
  next
    case False
    then have "ls = (addr @ [tab] @ uint_string n @ [tab]) # ls1" "left' = left1" "k = Suc k1"
      using Cons.prems a r by simp_all
    moreover have "nat (left - 2) = Suc (nat (left - 3))" using False by linarith
    ultimately show ?thesis using ih by simp
  qed
qed

lemma length_table_lines:
  assumes "length order = gm_len (cr_Addresses cr)"
  shows "length (table_lines terminalRows order cr) =
     (if terminalRows < 3 then 1
      else nat (min (terminalRows - 1) (int (gm_len (cr_Addresses cr)) + 3)))"
proof (cases "terminalRows < 3")
  case True
  then show ?thesis by (simp add: table_lines_def)
next
  case False
  define m where "m = nat (terminalRows - 3)"
  have rows: "terminalRows = 3 + int m" using False by (simp add: m_def)
  obtain ls left k where r: "record_lines (2 + int m) order = (ls, left, k)"
    by (metis prod_cases3)
  have "k = min (length order) m" "length ls = k" "left = 2 + int m - int k"
    using record_lines_spec [OF r] by simp_all
  with assms show ?thesis by (auto simp: table_lines_def rows r min_def)
qed

lemma count_lines_append [simp]: "count_lines (s @ t) = count_lines s + count_lines t"
  by (simp add: count_lines_def)

lemma count_lines_free: "newline \<notin> set s \<Longrightarrow> count_lines s = 0"
  by (auto simp: count_lines_def filter_empty_conv)

lemma Split_sep_free: "sep \<notin> set l \<Longrightarrow> Split sep (l @ sep # s) = l # Split sep s"
  by (induction l) auto

lemma Split_lines_text:
  assumes "\<forall>l\<in>set ls. newline \<notin> set l"
  shows "Split newline (lines_text ls) = ls @ [[]]"
  using assms by (induction ls) (simp_all add: lines_text_def Split_sep_free)

section \<open>The layout\<close>

definition row_view :: "string list \<Rightarrow> string list" where
  "row_view ls = (let rows = map row_cells ls in map (tab_line rows) [0..<length rows])"

text \<open>The lines of the table as they are laid out.\<close>

definition table_view :: "int \<Rightarrow> (string \<times> 64 word) list \<Rightarrow> ConnRecord \<Rightarrow> string list" where
  "table_view terminalRows order cr = row_view (table_lines terminalRows order cr)"

lemma length_table_view [simp]:
  "length (table_view terminalRows order cr) = length (table_lines terminalRows order cr)"
  by (simp add: table_view_def row_view_def)

lemma takeWhile_append_stop: "\<not> P x \<Longrightarrow> takeWhile P (xs @ [x]) = takeWhile P xs"
  by (induction xs) auto

lemma tab_line_snoc:
  assumes "i < length rows" and "length r \<le> 1"
  shows "tab_line (rows @ [r]) i = tab_line rows i"
proof -
  have "col_width (rows @ [r]) i j = col_width rows i j" for j
    using assms by (simp add: col_width_def has_cell_def takeWhile_append_stop)
  then have "col_width (rows @ [r]) i = col_width rows i" by auto
  with assms show ?thesis by (simp add: tab_line_def pad_cell_def nth_append cong: if_cong)
qed

lemma tabwriter_lines_text:
  assumes "\<forall>l\<in>set ls. newline \<notin> set l"
  shows "tabwriter (lines_text ls) = lines_text (row_view ls)"
proof -
  let ?rows = "map row_cells ls"
  have "tab_line (?rows @ [[[]]]) i = tab_line ?rows i" if "i < length ls" for i
    using that by (simp add: tab_line_snoc)
  then have "map (\<lambda>i. tab_line (?rows @ [[[]]]) i @ (if i < length ls then [newline] else [])) [0..<length ls]
      = map (\<lambda>i. tab_line ?rows i @ [newline]) [0..<length ls]" by simp
  moreover have "tab_line (?rows @ [[[]]]) (length ls) = []"
    by (simp add: tab_line_def pad_cell_def has_cell_def nth_append)
  moreover have "tabwriter (lines_text ls) =
      concat (map (\<lambda>i. tab_line (?rows @ [[[]]]) i @ (if i < length ls then [newline] else []))
        [0..<length ls]) @ tab_line (?rows @ [[[]]]) (length ls)"
    using assms by (simp add: tabwriter_def Split_lines_text Let_def row_cells_def [of "[]"])
  ultimately show ?thesis
    by (simp only: lines_text_def row_view_def Let_def map_map comp_def length_map append_Nil2)
qed

text \<open>Text that moves the cursor to the right only.\<close>

definition printable :: "string \<Rightarrow> bool" where
  "printable s \<longleftrightarrow> (\<forall>c\<in>set s. 32 \<le> (of_char c :: nat) \<and> (of_char c :: nat) \<noteq> 127)"

lemma printable_simps [simp]:
  "printable []" "printable (s @ t) \<longleftrightarrow> printable s \<and> printable t"
  "printable (c # s) \<longleftrightarrow> 32 \<le> (of_char c :: nat) \<and> (of_char c :: nat) \<noteq> 127 \<and> printable s"
  "printable (concat ss) \<longleftrightarrow> (\<forall>s\<in>set ss. printable s)"
  by (auto simp: printable_def)

lemma printable_not: "printable s \<Longrightarrow> newline \<notin> set s \<and> ESC \<notin> set s \<and> tab \<notin> set s"
  by (force simp: printable_def newline_def ESC_def tab_def)

lemma printable_Itoa [simp]: "printable (Itoa n)"
proof (induction n rule: Itoa.induct)
  case (1 n)
  have "printable [digit_char k]" if "k < 10" for k using that by (simp add: digit_char_def)
  with 1 show ?case by (subst Itoa.simps) simp
qed

lemma Split_set: "cell \<in> set (Split sep s) \<Longrightarrow> set cell \<subseteq> set s - {sep}"
proof (induction s arbitrary: cell)
  case Nil
  then show ?case by simp
next
  case (Cons c s)
  obtain w ws where sp: "Split sep s = w # ws"
    using Split_not_Nil [of sep s] by (cases "Split sep s") auto
  then have "\<forall>x\<in>set (w # ws). set x \<subseteq> set s - {sep}" using Cons.IH by metis
  with Cons.prems sp show ?case by (auto split: if_splits)
qed

lemma row_cells_printable:
  assumes "\<forall>c\<in>set l. c = tab \<or> printable [c]" and "cell \<in> set (row_cells l)"
  shows "printable cell"
  using assms Split_set [of cell tab l] by (fastforce simp: row_cells_def printable_def)

lemma row_view_printable:
  assumes "\<forall>l\<in>set ls. \<forall>c\<in>set l. c = tab \<or> printable [c]" and "v \<in> set (row_view ls)"
  shows "printable v"
proof -
  obtain i where i: "i < length ls" "v = tab_line (map row_cells ls) i"
    using assms(2) by (auto simp: row_view_def)
  have "printable (row_cells (ls ! i) ! j)" if "j < length (row_cells (ls ! i))" for j
    using row_cells_printable [of "ls ! i" "row_cells (ls ! i) ! j"] assms(1) nth_mem [OF i(1)]
      nth_mem [OF that] by blast
  moreover have "printable (replicate n CHR '' '')" for n by (simp add: printable_def)
  ultimately show ?thesis using i by (auto simp: tab_line_def pad_cell_def)
qed

text \<open>Lines of the table hold the addresses, digits, blanks, letters and tabs.\<close>

definition addrs_printable :: "(string \<times> 64 word) list \<Rightarrow> bool" where
  "addrs_printable order \<longleftrightarrow> (\<forall>(a, n)\<in>set order. printable a)"

definition tabbed :: "string \<Rightarrow> bool" where
  "tabbed l \<longleftrightarrow> (\<forall>c\<in>set l. c = tab \<or> printable [c])"

lemma tabbed_simps [simp]:
  "tabbed []" "tabbed (s @ t) \<longleftrightarrow> tabbed s \<and> tabbed t"
  "tabbed (c # s) \<longleftrightarrow> (c = tab \<or> printable [c]) \<and> tabbed s"
  by (auto simp: tabbed_def)

lemma printable_tabbed: "printable s \<Longrightarrow> tabbed s"
  by (simp add: printable_def tabbed_def)

lemma tabbed_Itoa [simp]: "tabbed (Itoa n)" "tabbed (uint_string w)"
  by (simp_all add: printable_tabbed uint_string_def)

lemma record_lines_tabbed:
  assumes "record_lines left order = (ls, left', k)" and "addrs_printable order"
  shows "\<forall>l\<in>set ls. tabbed l"
  using assms
  by (induction left order arbitrary: ls left' k rule: record_lines.induct)
    (auto simp: addrs_printable_def printable_tabbed split: if_splits prod.splits)

lemma table_lines_tabbed:
  assumes "addrs_printable order" and "l \<in> set (table_lines terminalRows order cr)"
  shows "tabbed l"
proof -
  obtain ls left k where r: "record_lines (terminalRows - 1) order = (ls, left, k)"
    by (metis prod_cases3)
  have "\<forall>l\<in>set ls. tabbed l" by (rule record_lines_tabbed [OF r assms(1)])
  with assms(2) show ?thesis
    unfolding table_lines_def Let_def r prod.case set_simps
    by (auto split: if_splits)
qed

lemma table_view_printable:
  assumes "addrs_printable order" and "v \<in> set (table_view terminalRows order cr)"
  shows "printable v"
proof (rule row_view_printable)
  show "\<forall>l\<in>set (table_lines terminalRows order cr). \<forall>c\<in>set l. c = tab \<or> printable [c]"
    using table_lines_tabbed [OF assms(1)] unfolding tabbed_def by blast
  show "v \<in> set (row_view (table_lines terminalRows order cr))"
    using assms(2) by (simp add: table_view_def)
qed

lemma tabbed_no_newline: "tabbed l \<Longrightarrow> newline \<notin> set l"
proof
  assume "tabbed l" and "newline \<in> set l"
  then have "newline = tab \<or> printable [newline]" unfolding tabbed_def by blast
  then show False by (simp add: newline_def tab_def)
qed

lemma tabwriter_table:
  assumes "addrs_printable order"
  shows "tabwriter (lines_text (table_lines terminalRows order cr)) = lines_text (table_view terminalRows order cr)"
  unfolding table_view_def
  by (intro tabwriter_lines_text ballI tabbed_no_newline table_lines_tabbed [OF assms])

lemma count_lines_text:
  assumes "\<forall>l\<in>set ls. newline \<notin> set l"
  shows "count_lines (lines_text ls) = length ls"
  using assms by (induction ls) (simp_all add: lines_text_def count_lines_free, simp_all add: count_lines_def)

section \<open>The screen\<close>

text \<open>
  A terminal: lines, and the position of the cursor. It prints characters where the cursor is,
  goes to the start of the next line on a newline, and knows the two control sequences the writer
  uses, cursor up and erase line. It is wide enough for every line and scrolls without loss.
\<close>

record screen =
  sc_line :: "nat \<Rightarrow> string"
  sc_row :: nat
  sc_col :: nat

definition put :: "char \<Rightarrow> screen \<Rightarrow> screen" where
  "put c sc =
     (let l = sc_line sc (sc_row sc); k = sc_col sc
      in sc\<lparr>sc_line := (sc_line sc)(sc_row sc :=
              take k l @ replicate (k - length l) CHR '' '' @ [c] @ drop (Suc k) l),
            sc_col := Suc k\<rparr>)"

definition line_feed :: "screen \<Rightarrow> screen" where
  "line_feed sc = sc\<lparr>sc_row := Suc (sc_row sc), sc_col := 0\<rparr>"

definition cursor_up :: "screen \<Rightarrow> screen" where
  "cursor_up sc = sc\<lparr>sc_row := sc_row sc - 1\<rparr>"

definition erase_line :: "screen \<Rightarrow> screen" where
  "erase_line sc = sc\<lparr>sc_line := (sc_line sc)(sc_row sc := [])\<rparr>"

function feed :: "string \<Rightarrow> screen \<Rightarrow> screen" where
  "feed s sc =
     (if s = [] then sc
      else if take 4 s = [ESC] @ ''[1A'' then feed (drop 4 s) (cursor_up sc)
      else if take 4 s = [ESC] @ ''[2K'' then feed (drop 4 s) (erase_line sc)
      else if hd s = newline then feed (tl s) (line_feed sc)
      else feed (tl s) (put (hd s) sc))"
  by auto
termination
  by (relation "measure (length \<circ> fst)") auto

declare feed.simps [simp del]

definition term_dev :: "screen dev_write" where
  "term_dev s sc = ((length s, None), feed s sc)"

lemma feed_Nil [simp]: "feed [] sc = sc"
  by (simp add: feed.simps)

lemma feed_clear: "feed (clear_seq @ s) sc = feed s (erase_line (cursor_up sc))"
  by (subst feed.simps, simp add: clear_seq_def, subst feed.simps, simp)

lemma feed_char:
  assumes "c \<noteq> ESC"
  shows "feed (c # s) sc = feed s (if c = newline then line_feed sc else put c sc)"
  using assms by (subst feed.simps) simp

text \<open>A screen showing the lines \<open>ls\<close>, with the cursor below the last one.\<close>

definition shows_lines :: "string list \<Rightarrow> screen" where
  "shows_lines ls = \<lparr>sc_line = (\<lambda>i. if i < length ls then ls ! i else []), sc_row = length ls, sc_col = 0\<rparr>"

lemma feed_word:
  assumes "printable l" and "sc_line sc (sc_row sc) = p" and "sc_col sc = length p"
  shows "feed (l @ s) sc =
    feed s (sc\<lparr>sc_line := (sc_line sc)(sc_row sc := p @ l), sc_col := length (p @ l)\<rparr>)"
  using assms
proof (induction l arbitrary: sc p)
  case Nil
  then have "sc\<lparr>sc_line := (sc_line sc)(sc_row sc := p), sc_col := length p\<rparr> = sc" by (cases sc) auto
  then show ?case by (simp only: append_Nil append_Nil2)
next
  case (Cons c l)
  have "c \<noteq> ESC" "c \<noteq> newline" using printable_not [OF Cons.prems(1)] by auto
  define sc1 where "sc1 = put c sc"
  have sc1: "sc1 = sc\<lparr>sc_line := (sc_line sc)(sc_row sc := p @ [c]), sc_col := length (p @ [c])\<rparr>"
    using Cons.prems by (simp add: sc1_def put_def Let_def)
  have "feed (l @ s) sc1 =
      feed s (sc1\<lparr>sc_line := (sc_line sc1)(sc_row sc1 := (p @ [c]) @ l), sc_col := length ((p @ [c]) @ l)\<rparr>)"
    using Cons.prems by (intro Cons.IH) (simp_all add: sc1)
  moreover have "feed ((c # l) @ s) sc = feed (l @ s) sc1"
    using \<open>c \<noteq> ESC\<close> \<open>c \<noteq> newline\<close> by (simp add: feed_char sc1_def)
  ultimately show ?case by (simp add: sc1 del: fun_upd_apply)
qed

lemma feed_lines:
  assumes "\<forall>l\<in>set ls. printable l"
  shows "feed (lines_text ls @ s) (shows_lines h) = feed s (shows_lines (h @ ls))"
  using assms
proof (induction ls arbitrary: h)
  case Nil
  show ?case by (simp add: lines_text_def)
next
  case (Cons l ls)
  have "feed (lines_text (l # ls) @ s) (shows_lines h) =
      feed (l @ newline # lines_text ls @ s) (shows_lines h)" by (simp add: lines_text_def)
  also have "\<dots> = feed (newline # lines_text ls @ s)
      ((shows_lines h)\<lparr>sc_line := (sc_line (shows_lines h))(length h := l), sc_col := length l\<rparr>)"
    using Cons.prems by (subst feed_word [of _ _ "[]"]) (simp_all add: shows_lines_def)
  also have "\<dots> = feed (lines_text ls @ s) (shows_lines (h @ [l]))"
  proof -
    have "(sc_line (shows_lines h))(length h := l) = sc_line (shows_lines (h @ [l]))"
      by (auto simp: shows_lines_def nth_append fun_eq_iff)
    then show ?thesis
      by (simp add: feed_char line_feed_def ESC_def newline_def) (simp add: shows_lines_def)
  qed
  also have "\<dots> = feed s (shows_lines (h @ l # ls))" using Cons by simp
  finally show ?case .
qed

lemma feed_clears: "feed (concat (replicate (length T) clear_seq)) (shows_lines (h @ T)) = shows_lines h"
proof (induction T rule: rev_induct)
  case Nil
  show ?case by simp
next
  case (snoc t T)
  have "erase_line (cursor_up (shows_lines (h @ T @ [t]))) = shows_lines (h @ T)"
    by (auto simp: shows_lines_def erase_line_def cursor_up_def fun_eq_iff nth_append)
  with snoc show ?case by (simp add: feed_clear)
qed

section \<open>Log and table\<close>

lemma Flush_on_screen:
  assumes "\<forall>l\<in>set T. printable l" and "\<forall>l\<in>set T'. printable l" and "\<forall>l\<in>set ls. printable l" and "T' \<noteq> []"
    and "tw_lineCount w = length T" and "tw_buf w = lines_text T'"
    and "f = None \<and> ls = [] \<or> f = Some (\<lambda>d. case term_dev (lines_text ls) d of ((n, err), d') \<Rightarrow> (err, d'))"
  shows "Writer_Flush True term_dev f w (shows_lines (h @ T)) =
    (None, \<lparr>tw_buf = [], tw_lineCount = length T'\<rparr>, shows_lines (h @ ls @ T'))"
proof -
  have "count_lines (lines_text T') = length T'" "lines_text T' \<noteq> []"
    using assms(2,4) printable_not by (auto simp: count_lines_text) (auto simp: lines_text_def)
  moreover have "feed (lines_text xs) (shows_lines g) = shows_lines (g @ xs)"
    if "\<forall>l\<in>set xs. printable l" for xs g
    using feed_lines [OF that, of "[]" g] by simp
  ultimately show ?thesis using assms
    by (cases w) (auto simp: Writer_Flush_def ClearLines_def clearLines_def term_dev_def feed_clears Let_def)
qed

text \<open>What happens on the terminal: a log message, as lines, or an update of the record.\<close>

datatype term_event =
  Logged "string list" "int" "(string \<times> 64 word) list" ConnRecord
| Changed "int" "(string \<times> 64 word) list" ConnRecord ConnStatus

primrec event_ok :: "term_event \<Rightarrow> bool" where
  "event_ok (Logged ls rows order cr) \<longleftrightarrow>
     (\<forall>l\<in>set ls. printable l) \<and> addrs_printable order \<and> \<not> cr_locked cr"
| "event_ok (Changed rows order cr status) \<longleftrightarrow> addrs_printable order"

primrec term_act :: "term_event \<Rightarrow> Writer \<times> screen \<Rightarrow> (Writer \<times> screen) outcome" where
  "term_act (Logged ls rows order cr) p =
     plog_Write True term_dev (Inr rows) order (lines_text ls) cr p"
| "term_act (Changed rows order cr status) p =
     the (plog_OnChange True term_dev (Inr rows) order Error) status cr p"

primrec term_run :: "term_event list \<Rightarrow> Writer \<times> screen \<Rightarrow> (Writer \<times> screen) outcome" where
  "term_run [] p = Returns p"
| "term_run (e # es) p = bind_outcome (term_act e p) (term_run es)"

primrec logged :: "term_event \<Rightarrow> string list" where
  "logged (Logged ls rows order cr) = ls"
| "logged (Changed rows order cr status) = []"

primrec view :: "term_event \<Rightarrow> string list" where
  "view (Logged ls rows order cr) = table_view rows order cr"
| "view (Changed rows order cr status) = table_view rows order cr"

lemma table_view_ne: "table_view rows order cr \<noteq> []"
  by (simp add: table_view_def row_view_def table_lines_def Let_def)

lemma view_printable: "event_ok e \<Longrightarrow> \<forall>l\<in>set (view e). printable l"
  using table_view_printable by (cases e) auto

lemma term_act_shows:
  assumes "event_ok e" and "\<forall>l\<in>set T. printable l"
  shows "term_act e (\<lparr>tw_buf = [], tw_lineCount = length T\<rparr>, shows_lines (h @ T)) =
    Returns (\<lparr>tw_buf = [], tw_lineCount = length (view e)\<rparr>, shows_lines (h @ logged e @ view e))"
proof -
  have v: "\<forall>l\<in>set (view e). printable l" by (rule view_printable [OF assms(1)])
  show ?thesis
  proof (cases e)
    case (Logged ls rows order cr)
    then show ?thesis
      using assms v Flush_on_screen [OF assms(2) v, where ls = ls, OF _ _ _ _ disjI2 [OF refl]]
      by (simp add: plog_Write_def SetLogBuffer_def Writer_Write_def tabwriter_table table_view_ne)
  next
    case (Changed rows order cr status)
    then show ?thesis
      using assms v Flush_on_screen [OF assms(2) v, where ls = "[]", OF _ _ _ _ disjI1]
      by (simp add: plog_OnChange_def SetLogBuffer_def Writer_Write_def tabwriter_table table_view_ne)
  qed
qed

lemma term_run_shows:
  assumes "\<forall>e\<in>set es. event_ok e" and "\<forall>l\<in>set T. printable l"
  shows "term_run es (\<lparr>tw_buf = [], tw_lineCount = length T\<rparr>, shows_lines (h @ T)) =
    (let T' = (if es = [] then T else view (last es))
     in Returns (\<lparr>tw_buf = [], tw_lineCount = length T'\<rparr>, shows_lines (h @ concat (map logged es) @ T')))"
  using assms
proof (induction es arbitrary: h T)
  case Nil
  then show ?case by simp
next
  case (Cons e es)
  then have e: "event_ok e" and es: "\<forall>e\<in>set es. event_ok e" by auto
  show ?case
    using Cons.IH [OF es view_printable [OF e], of "h @ logged e"] term_act_shows [OF e Cons.prems(2)]
    by (simp add: Let_def)
qed

section \<open>Properties\<close>

text \<open>
  The table takes exactly as many lines as it needs and the terminal has: the heading alone on fewer
  than three rows, otherwise one line per address and three more, but never the last row, which is
  left to the cursor.
\<close>

theorem table_size:
  assumes "mset order = mset (cr_Addresses cr)" and "addrs_printable order"
  shows "\<exists>w'. SetLogBuffer relog (Inr terminalRows) order cr (NewWriter, d) = Returns (w', d) \<and>
    count_lines (tw_buf w') =
      (if terminalRows < 3 then 1
       else nat (min (terminalRows - 1) (int (gm_len (cr_Addresses cr)) + 3)))"
proof -
  have "length order = gm_len (cr_Addresses cr)"
    using assms(1) by (metis gm_len_def size_mset)
  moreover have "count_lines (lines_text (table_view terminalRows order cr)) =
      length (table_lines terminalRows order cr)"
    using table_view_printable [OF assms(2)] printable_not by (simp add: count_lines_text)
  ultimately show ?thesis
    using assms by (simp add: SetLogBuffer_def Writer_Write_def NewWriter_def tabwriter_table length_table_lines)
qed

theorem table_size_witness:
  "\<exists>w'. SetLogBuffer (\<lambda>_ _. Blocks) (Inr 4) [(''a:1'', 1), (''b:2'', 2)]
     (NewConnRecord\<lparr>cr_Addresses := [(''b:2'', 2), (''a:1'', 1)]\<rparr>) (NewWriter, ()) = Returns (w', ()) \<and>
    count_lines (tw_buf w') = 3"
  using table_size [of "[(''a:1'', 1), (''b:2'', 2)]"
      "NewConnRecord\<lparr>cr_Addresses := [(''b:2'', 2), (''a:1'', 1)]\<rparr>" "\<lambda>_ _. Blocks" 4 "()"]
  by (simp add: addrs_printable_def gm_len_def)



text \<open>
  C39. On a terminal the log output takes the mutex of the record. An update whose callback cannot read the
  size of the terminal logs that, and an update that finds an impossible size logs a fatal error;
  both do so while they hold the mutex, and never return.
\<close>

theorem tty_update_deadlocks:
  "ConnRecord_Update (plog_OnChange tty dev_Write (Inl err) order entry)
       (plog_Write tty dev_Write getsize order' msg) qlen llen status cr p = Blocks \<and>
   ConnRecord_Update OnChange (plog_Write tty dev_Write getsize order' msg) qlen llen
       \<lparr>cs_Address = a, cs_IsNew = False, cs_Type = t\<rparr> NewConnRecord p = Blocks"
proof
  have "cr_locked (fst (count_status status (cr\<lparr>cr_locked := True\<rparr>)))"
    by (auto simp: count_status_def Let_def split: option.splits)
  then show "ConnRecord_Update (plog_OnChange tty dev_Write (Inl err) order entry)
       (plog_Write tty dev_Write getsize order' msg) qlen llen status cr p = Blocks"
    by (auto simp: ConnRecord_Update_def plog_OnChange_def SetLogBuffer_def plog_Write_def Let_def
        split: prod.splits bool.splits)
qed (simp add: ConnRecord_Update_def plog_Write_def count_status_def NewConnRecord_def Let_def gm_get_def)

end
