(* ===== verification/Connect.thy ===== *)
theory Connect
  imports Client Version_Neg Http_Header
begin

text \<open>
  Connecting to the server: the options and plugins of package \<open>client\<close> (\<open>client/client_plugin.go\<close>),
  \<open>Handles.CreateServerConn\<close> and \<open>Handles.NegotiateVersion\<close> (\<open>client/client.go\<close>).

  Plugins are code of other packages: functions stored in the record \<open>Plugins\<close>. \<open>url.Parse\<close> and the
  WebSocket dial are arguments; the dial gets the number of the attempt, the settings of the HTTP
  transport, the headers and the printed address.
\<close>

section \<open>Plugins\<close>

text \<open>A parsed URL: its scheme and what \<open>URL.String\<close> prints after it.\<close>

record url =
  url_Scheme :: string
  url_Rest :: string

definition url_String :: "url \<Rightarrow> string" where
  "url_String u = (if url_Scheme u = [] then [] else url_Scheme u @ '':'') @ url_Rest u"

text \<open>
  The settings of the \<open>http.Transport\<close>. \<open>tr_InsecureSkipVerify\<close>: \<open>None\<close> while \<open>TLSClientConfig\<close> is nil.
\<close>

record http_transport =
  tr_ProxyFromEnvironment :: bool
  tr_DialTimeout :: duration
  tr_DialKeepAlive :: duration
  tr_DualStack :: bool
  tr_ForceAttemptHTTP2 :: bool
  tr_MaxIdleConns :: int
  tr_IdleConnTimeout :: duration
  tr_TLSHandshakeTimeout :: duration
  tr_ExpectContinueTimeout :: duration
  tr_InsecureSkipVerify :: "bool option"

definition NewHttpClient :: http_transport where
  "NewHttpClient =
     \<lparr>tr_ProxyFromEnvironment = True, tr_DialTimeout = 30 * Second, tr_DialKeepAlive = 30 * Second,
      tr_DualStack = True, tr_ForceAttemptHTTP2 = True, tr_MaxIdleConns = 100,
      tr_IdleConnTimeout = 90 * Second, tr_TLSHandshakeTimeout = 10 * Second,
      tr_ExpectContinueTimeout = 1 * Second, tr_InsecureSkipVerify = None\<rparr>"

record Options =
  op_LocalSocks5Addr :: string
  op_RemoteUrl :: url
  op_RemoteHeaders :: header
  op_ConnectNum :: int
  op_ConnectionKey :: string
  op_SkipTLSVerify :: bool

record Plugins =
  pl_OptionPlugin :: "(Options \<Rightarrow> go_error option) option"
  pl_RequestPlugin :: "(http_transport \<times> url \<times> header \<Rightarrow> go_error option \<times> http_transport \<times> url \<times> header) option"
  pl_VersionPlugin :: "(VersionNeg \<Rightarrow> go_error option) option"

definition ErrPluginOccupied :: go_error where
  "ErrPluginOccupied = Errorf ''the plugin is occupied by another plugin''"

definition HasOptionPlugin :: "Plugins \<Rightarrow> bool" where
  "HasOptionPlugin p \<longleftrightarrow> pl_OptionPlugin p \<noteq> None"

definition HasRequestPlugin :: "Plugins \<Rightarrow> bool" where
  "HasRequestPlugin p \<longleftrightarrow> pl_RequestPlugin p \<noteq> None"

definition HasVersionPlugin :: "Plugins \<Rightarrow> bool" where
  "HasVersionPlugin p \<longleftrightarrow> pl_VersionPlugin p \<noteq> None"

definition AddPluginOption :: "(Options \<Rightarrow> go_error option) \<Rightarrow> Plugins \<Rightarrow> go_error option \<times> Plugins" where
  "AddPluginOption f p =
     (if pl_OptionPlugin p \<noteq> None then (Some ErrPluginOccupied, p)
      else (None, p\<lparr>pl_OptionPlugin := Some f\<rparr>))"

definition AddPluginRequest ::
  "(http_transport \<times> url \<times> header \<Rightarrow> go_error option \<times> http_transport \<times> url \<times> header) \<Rightarrow> Plugins \<Rightarrow> go_error option \<times> Plugins" where
  "AddPluginRequest f p =
     (if pl_RequestPlugin p \<noteq> None then (Some ErrPluginOccupied, p)
      else (None, p\<lparr>pl_RequestPlugin := Some f\<rparr>))"

definition AddPluginVersion :: "(VersionNeg \<Rightarrow> go_error option) \<Rightarrow> Plugins \<Rightarrow> go_error option \<times> Plugins" where
  "AddPluginVersion f p =
     (if pl_VersionPlugin p \<noteq> None then (Some ErrPluginOccupied, p)
      else (None, p\<lparr>pl_VersionPlugin := Some f\<rparr>))"

definition no_plugins :: Plugins where
  "no_plugins = \<lparr>pl_OptionPlugin = None, pl_RequestPlugin = None, pl_VersionPlugin = None\<rparr>"

section \<open>CreateServerConn\<close>

type_synonym 'c ws_dial = "nat \<Rightarrow> http_transport \<Rightarrow> header \<Rightarrow> string \<Rightarrow> go_error + 'c"

text \<open>
  The loop over \<open>ConnectNum\<close>: attempts \<open>i, i + 1, \<dots>\<close>, \<open>k\<close> of them left. The second component are the
  connections opened, also when the call fails.
\<close>

fun dial_loop ::
  "'c ws_dial \<Rightarrow> http_transport \<Rightarrow> header \<Rightarrow> string \<Rightarrow> nat \<Rightarrow> nat \<Rightarrow> 'c WebSocketClient list \<Rightarrow>
     (go_error + 'c WebSocketClient list) \<times> 'c WebSocketClient list" where
  "dial_loop Dial tr h addr i 0 wsc = (Inr wsc, wsc)"
| "dial_loop Dial tr h addr i (Suc k) wsc =
     (case NewWebSocketClient (Dial i tr h) addr of
        Inl err \<Rightarrow> (Inl (Errorf (''establishing connection error: '' @ Error err)), wsc)
      | Inr w \<Rightarrow> dial_loop Dial tr h addr (Suc i) k (wsc @ [w]))"

definition CreateServerConn ::
  "Plugins \<Rightarrow> 'c ws_dial \<Rightarrow> Options \<Rightarrow>
     ((go_error + 'c WebSocketClient list) \<times> 'c WebSocketClient list) \<times> Options" where
  "CreateServerConn plugins Dial c =
     (let c1 = (if op_ConnectionKey c \<noteq> []
                then c\<lparr>op_RemoteHeaders := header_Set ''Key'' (op_ConnectionKey c) (op_RemoteHeaders c)\<rparr>
                else c);
          tr0 = (if url_Scheme (op_RemoteUrl c1) = ''wss'' \<and> op_SkipTLSVerify c1
                 then NewHttpClient\<lparr>tr_InsecureSkipVerify := Some True\<rparr> else NewHttpClient);
          checked = (case pl_OptionPlugin plugins of None \<Rightarrow> None | Some f \<Rightarrow> f c1)
      in case checked of
           Some err \<Rightarrow> ((Inl err, []), c1)
         | None \<Rightarrow>
             (case (case pl_RequestPlugin plugins of
                      None \<Rightarrow> (None, tr0, op_RemoteUrl c1, op_RemoteHeaders c1)
                    | Some f \<Rightarrow> f (tr0, op_RemoteUrl c1, op_RemoteHeaders c1)) of
                (err, tr, u, h) \<Rightarrow>
                  (let c2 = c1\<lparr>op_RemoteUrl := u, op_RemoteHeaders := h\<rparr>
                   in case err of
                        Some e \<Rightarrow> ((Inl e, []), c2)
                      | None \<Rightarrow> (dial_loop Dial tr h (url_String u) 0 (nat (op_ConnectNum c2)) [], c2))))"

section \<open>NegotiateVersion\<close>

text \<open>The exchange on the connections after the first, whose results are dropped.\<close>

fun exchange_rest ::
  "('c, 'net) wsjson_write \<Rightarrow> ('c, 'net) wsjson_read \<Rightarrow> 'c WebSocketClient list \<Rightarrow> 'net \<Rightarrow> 'net" where
  "exchange_rest wsw wsr [] net = net"
| "exchange_rest wsw wsr (w # ws) net =
     exchange_rest wsw wsr ws (snd (ExchangeVersion wsw wsr (wc_conn w) net))"

definition incompatible :: go_error where
  "incompatible = Errorf ''incompatible protocol version of client and server''"

text \<open>Without a WebSocket the index \<open>hdl.wsc[0]\<close> is out of range.\<close>

definition NegotiateVersion ::
  "Plugins \<Rightarrow> (string \<Rightarrow> go_error + url) \<Rightarrow> ('c, 'net) wsjson_write \<Rightarrow> ('c, 'net) wsjson_read \<Rightarrow>
     'c WebSocketClient list \<Rightarrow> string \<Rightarrow> 'net \<Rightarrow> (go_error option \<times> 'net) outcome" where
  "NegotiateVersion plugins url_Parse wsw wsr wsc remoteUrl net =
     (case wsc of
        [] \<Rightarrow> Panics
      | w # ws \<Rightarrow>
          (case ExchangeVersion wsw wsr (wc_conn w) net of
             (Inl err, net1) \<Rightarrow> Returns (Some err, net1)
           | (Inr version, net1) \<Rightarrow>
               (let net2 = exchange_rest wsw wsr ws net1
                in case pl_VersionPlugin plugins of
                     Some f \<Rightarrow> Returns (f version, net2)
                   | None \<Rightarrow>
                       if vn_CompVersion version > VersionCode \<or> VersionCode > vn_VersionCode version
                       then Returns (Some incompatible, net2)
                       else if vn_EnableStatusPage version
                       then (case url_Parse (remoteUrl @ ''/status'') of
                               Inl err \<Rightarrow> Returns (Some err, net2)
                             | Inr endpoint \<Rightarrow> Returns (None, net2))
                       else Returns (None, net2))))"

section \<open>Facts\<close>

lemma dial_loop_ok:
  assumes "\<forall>j. \<exists>c. Dial j tr h addr = Inr c"
  shows "\<exists>ws. dial_loop Dial tr h addr i k wsc = (Inr (wsc @ ws), wsc @ ws) \<and> length ws = k"
proof (induction k arbitrary: i wsc)
  case 0
  show ?case by simp
next
  case (Suc k)
  obtain c where c: "Dial i tr h addr = Inr c" using assms by blast
  define w where "w = \<lparr>wc_conn = c, wc_proxies = [], wc_cancel = None\<rparr>"
  obtain ws where ws: "dial_loop Dial tr h addr (Suc i) k (wsc @ [w]) = (Inr ((wsc @ [w]) @ ws), (wsc @ [w]) @ ws)"
      "length ws = k"
    using Suc.IH by blast
  with c show ?case
    by (intro exI [of _ "w # ws"]) (simp add: NewWebSocketClient_def w_def)
qed

text \<open>
  C26. The client accepts a server exactly when the server's compatible version is not above the
  client's protocol version and the server's version is not below it; the document the server sent
  decodes to the versions it was made from. The client's own server is always accepted.
\<close>

theorem negotiate_accepts_iff:
  assumes "wsw (wc_conn w) (enc_VersionNeg client_version) net = (None, net1)"
    and "wsr (wc_conn w) net1 = (Inr (enc_VersionNeg v), net2)"
    and "vn_EnableStatusPage v \<longrightarrow> (\<exists>u. url_Parse (remote @ ''/status'') = Inr u)"
  shows "\<exists>r net3. NegotiateVersion no_plugins url_Parse wsw wsr (w # ws) remote net = Returns (r, net3) \<and>
    (r = None \<longleftrightarrow> vn_CompVersion v \<le> 4 \<and> 4 \<le> vn_VersionCode v) \<and>
    (v = server_version b \<longrightarrow> r = None)"
proof -
  have "ExchangeVersion wsw wsr (wc_conn w) net = (Inr v, net2)"
    using assms(1,2) by (simp add: ExchangeVersion_def read_VersionNeg_def dec_enc_VersionNeg)
  then show ?thesis
    using assms(3)
    by (auto simp: NegotiateVersion_def no_plugins_def Let_def incompatible_def version_consts
        server_version_def not_less split: sum.splits)
qed

theorem negotiate_accepts_iff_witness:
  "\<exists>r net3. NegotiateVersion no_plugins (\<lambda>s. Inl EOF) duplex_Write duplex_Read
      [\<lparr>wc_conn = ClientEnd, wc_proxies = [], wc_cancel = None\<rparr>] ''ws://h''
      \<lparr>to_server = [], to_client = [enc_VersionNeg (server_version False)]\<rparr> = Returns (r, net3) \<and> r = None"
  using negotiate_accepts_iff [of duplex_Write "\<lparr>wc_conn = ClientEnd, wc_proxies = [], wc_cancel = None\<rparr>"
      "\<lparr>to_server = [], to_client = [enc_VersionNeg (server_version False)]\<rparr>" _ duplex_Read
      "server_version False" _ "\<lambda>s. Inl EOF" "''ws://h''" "[]" False]
  by (simp add: server_version_def)

end
