(* ===== verification/Web_Status.thy ===== *)
theory Web_Status
  imports Server Version_Neg Go_Net
begin

text \<open>
  The status page: the JSON endpoint of the server (\<open>wss/status/status.go\<close>) and what the browser page
  computes from its answer (\<open>status-web/src/StatisticsBoard.tsx\<close>, \<open>status-web/src/InfoBoard.tsx\<close>). The
  layout of the page is not modelled, only the texts it computes.
\<close>

section \<open>The endpoint\<close>

record status_Version =
  sn_VersionStr :: string
  sn_VersionCode :: int
  sn_ComVersion :: int

record status_Info =
  si_Version :: status_Version
  si_ServerBaseUrl :: string
  si_Socks5Enable :: bool
  si_Socks5DisableReason :: string
  si_HttpsEnable :: bool
  si_HttpsDisableReason :: string
  si_SSLEnable :: bool
  si_SSLDisableReason :: string
  si_ConnKeyEnable :: bool
  si_ConnKeyDisableReason :: string

text \<open>\<open>UpTime\<close> is a \<open>float64\<close> that holds a whole number of seconds.\<close>

record status_Statistics =
  sx_UpTime :: int
  sx_Clients :: nat
  sx_Proxies :: nat
  sx_QueueLen :: nat
  sx_LinkLen :: nat

record status_Status =
  su_Info :: status_Info
  su_Statistics :: status_Statistics

record 'c handleStatus =
  hs_enableHttp :: bool
  hs_enableConnKey :: bool
  hs_hc :: "'c HubCollection"
  hs_setupTime :: instant
  hs_serverBaseUrl :: string

definition NewStatusHandle :: "instant \<Rightarrow> 'c HubCollection \<Rightarrow> bool \<Rightarrow> bool \<Rightarrow> string \<Rightarrow> 'c handleStatus" where
  "NewStatusHandle now hc enableHttp enableConnKey wsBaseUrl =
     \<lparr>hs_enableHttp = enableHttp, hs_enableConnKey = enableConnKey, hs_hc = hc, hs_setupTime = now,
      hs_serverBaseUrl = wsBaseUrl\<rparr>"

text \<open>\<open>Duration.Truncate(time.Second)\<close>, towards zero, in seconds.\<close>

definition whole_seconds :: "duration \<Rightarrow> int" where
  "whole_seconds d = (if d < 0 then - ((- d) div Second) else d div Second)"

definition status_of :: "instant \<Rightarrow> 'c server \<Rightarrow> 'c handleStatus \<Rightarrow> status_Status" where
  "status_of now sv s =
     (let (clients, proxies) = HubCollection_GetConnCount (hs_hc s);
          (ql, ll) = StaticServer sv
      in \<lparr>su_Info =
            \<lparr>si_Version = \<lparr>sn_VersionStr = CoreVersion, sn_VersionCode = uint VersionCode,
               sn_ComVersion = uint CompVersion\<rparr>,
             si_ServerBaseUrl = hs_serverBaseUrl s, si_Socks5Enable = True, si_Socks5DisableReason = [],
             si_HttpsEnable = hs_enableHttp s,
             si_HttpsDisableReason = (if hs_enableHttp s then [] else ''disabled''),
             si_SSLEnable = False, si_SSLDisableReason = ''not support'',
             si_ConnKeyEnable = hs_enableConnKey s,
             si_ConnKeyDisableReason = (if hs_enableConnKey s then [] else ''disabled'')\<rparr>,
          su_Statistics =
            \<lparr>sx_UpTime = whole_seconds (now - hs_setupTime s), sx_Clients = clients, sx_Proxies = proxies,
             sx_QueueLen = ql, sx_LinkLen = ll\<rparr>\<rparr>)"

definition enc_Status :: "status_Status \<Rightarrow> json" where
  "enc_Status st =
     (let i = su_Info st; x = su_Statistics st; v = si_Version i
      in JObj
        [(''info'', JObj
           [(''version'', JObj
              [(''version_str'', JStr (sn_VersionStr v)), (''version_code'', JNum (sn_VersionCode v)),
               (''compatible_version'', JNum (sn_ComVersion v))]),
            (''server_base_url'', JStr (si_ServerBaseUrl i)),
            (''socks5_enabled'', JBool (si_Socks5Enable i)),
            (''socks5_disabled_reason'', JStr (si_Socks5DisableReason i)),
            (''http_enabled'', JBool (si_HttpsEnable i)),
            (''http_disabled_reason'', JStr (si_HttpsDisableReason i)),
            (''ssl_enabled'', JBool (si_SSLEnable i)),
            (''ssl_disabled_reason'', JStr (si_SSLDisableReason i)),
            (''conn_key_enable'', JBool (si_ConnKeyEnable i)),
            (''conn_key_disabled_reason'', JStr (si_ConnKeyDisableReason i))]),
         (''statistics'', JObj
           [(''up_time'', JNum (sx_UpTime x)), (''clients'', JNum (int (sx_Clients x))),
            (''proxies'', JNum (int (sx_Proxies x))), (''queue_len'', JNum (int (sx_QueueLen x))),
            (''link_len'', JNum (int (sx_LinkLen x)))])])"

text \<open>The response: headers, code (\<open>written\<close>: the body could be written) and body.\<close>

record response =
  rs_header :: "(string \<times> string) list"
  rs_code :: nat
  rs_body :: "json option"

definition status_ServeHTTP :: "bool \<Rightarrow> instant \<Rightarrow> 'c server \<Rightarrow> 'c handleStatus \<Rightarrow> response" where
  "status_ServeHTTP written now sv s =
     \<lparr>rs_header = [(''Access-Control-Allow-Origin'', ''*''), (''Access-Control-Allow-Headers'', ''Content-Type''),
        (''Content-Type'', ''application/json'')],
      rs_code = (if written then 200 else 500),
      rs_body = (if written then Some (enc_Status (status_of now sv s)) else None)\<rparr>"

section \<open>The page\<close>

text \<open>A property of a parsed document.\<close>

fun js_prop :: "string \<Rightarrow> json \<Rightarrow> json" where
  "js_prop k (JObj kvs) = (case map_of kvs k of None \<Rightarrow> JNull | Some v \<Rightarrow> v)"
| "js_prop k _ = JNull"

fun truthy :: "json \<Rightarrow> bool" where
  "truthy (JBool b) = b"
| "truthy (JStr s) = (s \<noteq> [])"
| "truthy (JNum n) = (n \<noteq> 0)"
| "truthy JNull = False"
| "truthy _ = True"

fun text_of :: "json \<Rightarrow> string" where
  "text_of (JStr s) = s"
| "text_of _ = []"

definition upTimeString :: "nat \<Rightarrow> string" where
  "upTimeString t =
     (let seconds = t mod 60; t1 = t div 60; minutes = t1 mod 60; t2 = t1 div 60;
          hours = t2 mod 24; days = t2 div 24;
          re = Itoa seconds @ '' second(s)''
      in if minutes = 0 then re
         else (let re = Itoa minutes @ '' minute(s) '' @ re
               in if hours = 0 then re
                  else (let re = Itoa hours @ '' hour(s) '' @ re
                        in if days = 0 then re else Itoa days @ '' day(s) '' @ re)))"

text \<open>\<open>StatusItem\<close>: the text next to the title.\<close>

definition StatusItem :: "bool \<Rightarrow> string \<Rightarrow> string" where
  "StatusItem enable disableReason = (if enable then ''enabled'' else disableReason)"

text \<open>\<open>protocol\<close> and \<open>host\<close> of \<open>window.location\<close>.\<close>

definition server_addr :: "string \<Rightarrow> string \<Rightarrow> json \<Rightarrow> string" where
  "server_addr protocol host info =
     (let server_protocol = (if truthy (js_prop ''ssl_enabled'' info) then ''wss''
                             else if protocol = ''https'' then ''wss'' else ''ws'');
          server_path = (if js_prop ''server_base_url'' info = JStr ''/'' then []
                         else text_of (js_prop ''server_base_url'' info))
      in server_protocol @ ''://'' @ host @ server_path)"

section \<open>Facts\<close>

lemma foldl_sum: "foldl (\<lambda>n p. n + f p) a xs = a + sum_list (map f xs)" for f :: "'a \<Rightarrow> nat"
  by (induction xs arbitrary: a) (simp_all add: ac_simps)

text \<open>
  The statistics of the status document are those of the server: the page reads the number of
  registered hubs, the total size of their pools, and the whole seconds since the start.
\<close>

theorem status_counts:
  assumes "gm_wf (hs_hc s)" and "hs_setupTime s \<le> now"
  shows "js_prop ''clients'' (js_prop ''statistics'' (enc_Status (status_of now sv s))) =
      JNum (int (card (dom (gm_get (hs_hc s))))) \<and>
    js_prop ''proxies'' (js_prop ''statistics'' (enc_Status (status_of now sv s))) =
      JNum (int (\<Sum>p \<leftarrow> hs_hc s. Hub_GetConnectorSize (snd p))) \<and>
    js_prop ''up_time'' (js_prop ''statistics'' (enc_Status (status_of now sv s))) =
      JNum ((now - hs_setupTime s) div Second)"
  using assms
  by (simp add: enc_Status_def status_of_def Let_def HubCollection_GetConnCount_def StaticServer_def
      foldl_sum gm_len_card whole_seconds_def)

theorem status_counts_witness:
  "js_prop ''clients'' (js_prop ''statistics'' (enc_Status (status_of 5000000000 new_server
      (NewStatusHandle 0 [(7, \<lparr>hub_id = 7, hub_ws = (), hub_connPool = [(1, 0)]\<rparr>)] True False ''/'')))) = JNum 1 \<and>
   js_prop ''up_time'' (js_prop ''statistics'' (enc_Status (status_of 5000000000 new_server
      (NewStatusHandle 0 [(7, \<lparr>hub_id = 7, hub_ws = (), hub_connPool = [(1, 0)]\<rparr>)] True False ''/'')))) = JNum 5"
  using status_counts [of "NewStatusHandle 0 [(7, \<lparr>hub_id = 7, hub_ws = (), hub_connPool = [(1, 0)]\<rparr>)] True False ''/''"
      5000000000 new_server]
  by (simp add: NewStatusHandle_def gm_wf_def dom_gm_get gm_keys_def Second_def)

text \<open>
  An uptime in the first minute of an hour loses its hours and days: the page shows only the
  seconds, because the function returns as soon as the number of minutes is zero.
\<close>

theorem uptime_loses_hours:
  assumes "s < 60"
  shows "upTimeString (3600 * h + s) = Itoa s @ '' second(s)''"
proof -
  have e: "3600 * h + s = s + 60 * (60 * h)" by simp
  have "(3600 * h + s) mod 60 = s" "(3600 * h + s) div 60 = 60 * h"
    unfolding e mod_mult_self2 using assms by simp_all
  then show ?thesis by (simp add: upTimeString_def Let_def)
qed

theorem uptime_loses_hours_witness: "upTimeString 90007 = Itoa 7 @ '' second(s)''"
  using uptime_loses_hours [of 7 25] by simp

text \<open>
  The server address on the page always has the scheme \<open>ws\<close>, also when the server is reached by
  TLS: the endpoint always reports SSL as disabled, and \<open>window.location.protocol\<close>, which ends in a
  colon, never equals \<open>https\<close>.
\<close>

theorem page_address_always_ws:
  assumes "last protocol = CHR '':''"
  shows "server_addr protocol host (js_prop ''info'' (enc_Status (status_of now sv s))) =
    ''ws://'' @ host @ (if hs_serverBaseUrl s = ''/'' then [] else hs_serverBaseUrl s)"
proof -
  have "protocol \<noteq> ''https''" using assms by auto
  then show ?thesis
    by (simp add: server_addr_def enc_Status_def status_of_def Let_def split: prod.split)
qed

theorem page_address_always_ws_witness:
  "server_addr ''https:'' ''example.com'' (js_prop ''info'' (enc_Status (status_of 0 new_server
     (NewStatusHandle 0 [] True True ''/'')))) = ''ws://example.com''"
  using page_address_always_ws [of "''https:''" "''example.com''" 0 new_server "NewStatusHandle 0 [] True True ''/''"]
  by (simp add: NewStatusHandle_def)

end
