(* ===== verification/Serve_Mux.thy ===== *)
theory Serve_Mux
  imports Go_Net
begin

text \<open>
  \<open>http.ServeMux\<close> of Go's standard library, as the server uses it (patterns without a host, and the
  matching rules in force for a module of Go 1.13): \<open>Handle\<close> panics on an empty pattern and on one that
  is registered; a request path is cleaned first, a path whose pattern with a final slash is
  registered is redirected there, and otherwise the handler registered for the path, or that of the
  longest pattern with a final slash which is a prefix of it, serves the request.
\<close>

section \<open>Clean paths\<close>

definition HasSuffix :: "string \<Rightarrow> string \<Rightarrow> bool" where
  "HasSuffix s suffix \<longleftrightarrow> HasPrefix (rev s) (rev suffix)"

text \<open>The elements of a rooted path, without empty ones and dots; two dots take back the last one.\<close>

fun clean_elements :: "string list \<Rightarrow> string list \<Rightarrow> string list" where
  "clean_elements acc [] = rev acc"
| "clean_elements acc (e # es) =
     (if e = [] \<or> e = ''.'' then clean_elements acc es
      else if e = ''..'' then clean_elements (tl acc) es
      else clean_elements (e # acc) es)"

fun join_slash :: "string list \<Rightarrow> string" where
  "join_slash [] = []"
| "join_slash [e] = e"
| "join_slash (e # f # es) = e @ ''/'' @ join_slash (f # es)"

definition path_Clean :: "string \<Rightarrow> string" where
  "path_Clean p = ''/'' @ join_slash (clean_elements [] (Split CHR ''/'' p))"

definition cleanPath :: "string \<Rightarrow> string" where
  "cleanPath p =
     (if p = [] then ''/''
      else (let p1 = (if hd p \<noteq> CHR ''/'' then ''/'' @ p else p);
                np = path_Clean p1
            in if last p1 = CHR ''/'' \<and> np \<noteq> ''/'' then np @ ''/'' else np))"

section \<open>The mux\<close>

type_synonym 'h mux = "(string, 'h) gomap"

definition mux_Handle :: "string \<Rightarrow> 'h \<Rightarrow> 'h mux \<Rightarrow> 'h mux outcome" where
  "mux_Handle pattern h m =
     (if pattern = [] \<or> gm_get m pattern \<noteq> None then Panics else Returns (gm_put pattern h m))"

definition longest :: "string list \<Rightarrow> string option" where
  "longest ps =
     foldr (\<lambda>p best. case best of None \<Rightarrow> Some p | Some q \<Rightarrow> Some (if length q < length p then p else q)) ps None"

definition mux_match :: "string \<Rightarrow> 'h mux \<Rightarrow> 'h option" where
  "mux_match path m =
     (case gm_get m path of
        Some h \<Rightarrow> Some h
      | None \<Rightarrow>
          (case longest (filter (\<lambda>p. HasSuffix p ''/'' \<and> HasPrefix path p) (map fst m)) of
             None \<Rightarrow> None
           | Some p \<Rightarrow> gm_get m p))"

definition should_redirect :: "string \<Rightarrow> 'h mux \<Rightarrow> bool" where
  "should_redirect path m \<longleftrightarrow>
     gm_get m path = None \<and> path \<noteq> [] \<and> gm_get m (path @ ''/'') \<noteq> None \<and> last path \<noteq> CHR ''/''"

datatype 'h route = Redirect string | Served 'h | NotFound

definition mux_Handler :: "string \<Rightarrow> 'h mux \<Rightarrow> 'h route" where
  "mux_Handler url_path m =
     (let path = cleanPath url_path
      in if should_redirect path m then Redirect (path @ ''/'')
         else if path \<noteq> url_path then Redirect path
         else (case mux_match path m of None \<Rightarrow> NotFound | Some h \<Rightarrow> Served h))"

section \<open>Matching\<close>

lemma HasSuffix_iff: "HasSuffix s p \<longleftrightarrow> (\<exists>r. s = r @ p)"
  by (simp add: HasSuffix_def HasPrefix_iff) (metis rev_append rev_rev_ident)

lemma longer_prefix:
  assumes "HasPrefix path p" and "HasPrefix path q" and "length p = length q"
  shows "p = q"
  using assms by (auto simp: HasPrefix_iff)

lemma longest_cases: "longest ps = None \<and> ps = [] \<or> (\<exists>p\<in>set ps. longest ps = Some p \<and> (\<forall>q\<in>set ps. length q \<le> length p))"
  by (induction ps) (auto simp: longest_def split: option.splits)

lemma longest_unique:
  assumes "p \<in> set ps" and "\<forall>q\<in>set ps. q \<noteq> p \<longrightarrow> length q < length p"
  shows "longest ps = Some p"
  using longest_cases [of ps] assms by (metis empty_iff leD list.set(1))

text \<open>The longest pattern that fits wins.\<close>

lemma mux_match_longest:
  assumes "gm_get m p = Some h" and "HasSuffix p ''/''" and "HasPrefix path p"
    and "\<forall>q\<in>set (map fst m). q \<noteq> p \<longrightarrow> HasPrefix path q \<longrightarrow> length q < length p"
  shows "mux_match path m = Some h"
proof -
  have p: "p \<in> set (map fst m)" using assms(1) by (force simp: gm_get_def dest: map_of_SomeD)
  have "longest (filter (\<lambda>p. HasSuffix p ''/'' \<and> HasPrefix path p) (map fst m)) = Some p"
    using assms p by (intro longest_unique) auto
  moreover have "path = p" if "gm_get m path = Some h'" for h'
  proof -
    have "path \<in> set (map fst m)" using that by (force simp: gm_get_def dest: map_of_SomeD)
    then show ?thesis using assms(3,4) by (fastforce simp: HasPrefix_iff)
  qed
  ultimately show ?thesis using assms(1) by (auto simp: mux_match_def split: option.splits)
qed

section \<open>Clean paths are fixed points\<close>

text \<open>\<open>clean_element\<close>: an element that survives.\<close>

definition clean_element :: "string \<Rightarrow> bool" where
  "clean_element e \<longleftrightarrow> e \<noteq> [] \<and> e \<noteq> ''.'' \<and> e \<noteq> ''..'' \<and> CHR ''/'' \<notin> set e"

lemma clean_elements_clean:
  "\<forall>e\<in>set es. clean_element e \<Longrightarrow> clean_elements acc es = rev acc @ es"
  by (induction es arbitrary: acc) (auto simp: clean_element_def)

lemma Split_prepend: "sep \<notin> set e \<Longrightarrow> Split sep (e @ sep # s) = e # Split sep s"
  by (induction e) auto

lemma Split_single: "sep \<notin> set e \<Longrightarrow> Split sep e = [e]"
  by (induction e) auto

lemma Split_elements_free:
  "e \<in> set (Split sep s) \<Longrightarrow> sep \<notin> set e"
proof (induction s arbitrary: e)
  case Nil
  then show ?case by simp
next
  case (Cons c s)
  obtain w ws where sp: "Split sep s = w # ws"
    using Split_not_Nil [of sep s] by (cases "Split sep s") auto
  with Cons.IH have "\<forall>x\<in>set (w # ws). sep \<notin> set x" by metis
  with Cons.prems sp show ?case by (auto split: if_splits)
qed

lemma Split_join: "es \<noteq> [] \<Longrightarrow> \<forall>e\<in>set es. CHR ''/'' \<notin> set e \<Longrightarrow> Split CHR ''/'' (join_slash es) = es"
  by (induction es rule: join_slash.induct) (simp_all add: Split_single Split_prepend)

lemma clean_elements_result:
  assumes "\<forall>e\<in>set es. CHR ''/'' \<notin> set e" and "\<forall>e\<in>set acc. clean_element e"
  shows "\<forall>e\<in>set (clean_elements acc es). clean_element e"
  using assms
proof (induction es arbitrary: acc)
  case Nil
  then show ?case by simp
next
  case (Cons e es)
  have es: "\<forall>e\<in>set es. CHR ''/'' \<notin> set e" and e: "CHR ''/'' \<notin> set e" using Cons.prems(1) by simp_all
  consider (skip) "e = [] \<or> e = ''.''" | (up) "e = ''..''" | (keep) "e \<noteq> []" "e \<noteq> ''.''" "e \<noteq> ''..''" by blast
  then show ?case
  proof cases
    case skip
    with Cons.IH [OF es Cons.prems(2)] show ?thesis by simp
  next
    case up
    have "\<forall>x\<in>set (tl acc). clean_element x" using Cons.prems(2) by (cases acc) simp_all
    from Cons.IH [OF es this] up show ?thesis by simp
  next
    case keep
    then have "\<forall>x\<in>set (e # acc). clean_element x" using e Cons.prems(2) by (simp add: clean_element_def)
    from Cons.IH [OF es this] keep show ?thesis by simp
  qed
qed

lemma path_Clean_idem: "path_Clean (path_Clean p) = path_Clean p"
proof -
  define es where "es = clean_elements [] (Split CHR ''/'' p)"
  have clean: "\<forall>e\<in>set es. clean_element e"
    unfolding es_def by (intro clean_elements_result) (auto dest: Split_elements_free)
  have "clean_elements [] (Split CHR ''/'' (''/'' @ join_slash es)) = es"
  proof (cases "es = []")
    case True
    then show ?thesis by simp
  next
    case False
    then have "Split CHR ''/'' (''/'' @ join_slash es) = [] # es"
      using clean by (simp add: Split_join clean_element_def)
    then show ?thesis using clean by (simp add: clean_elements_clean)
  qed
  then show ?thesis by (simp add: path_Clean_def es_def)
qed

end
