(* ===== verification/Commands.thy ===== *)
theory Commands
  imports Connect Serve_WS Web_Status Handles Serve_Mux
begin

text \<open>
  The three commands of the program: \<open>wssocks client\<close> (\<open>cmd/client/client.go\<close>), \<open>wssocks server\<close>
  (\<open>cmd/server/server.go\<close>) and \<open>wssocks version\<close> (\<open>version/version.go\<close>), from the flags to the call of the
  component that does the work. The parsing of flags, \<open>url.Parse\<close>, the dial, the source of random
  bytes and the bundled file system are arguments.
\<close>

section \<open>Strings\<close>

text \<open>\<open>strings.IndexByte\<close>; \<open>None\<close> is \<open>-1\<close>.\<close>

fun IndexByte :: "string \<Rightarrow> char \<Rightarrow> nat option" where
  "IndexByte [] b = None"
| "IndexByte (c # s) b = (if c = b then Some 0 else map_option Suc (IndexByte s b))"

lemma IndexByte_append: "b \<notin> set k \<Longrightarrow> IndexByte (k @ b # v) b = Some (length k)"
  by (induction k) auto

lemma IndexByte_None: "b \<notin> set s \<Longrightarrow> IndexByte s b = None"
  by (induction s) auto

text \<open>\<open>hex.EncodeToString\<close> and \<open>strings.ToUpper\<close> on ASCII text.\<close>

definition hex_byte :: "8 word \<Rightarrow> string" where
  "hex_byte b = [digit_char (unat b div 16), digit_char (unat b mod 16)]"

definition hex_EncodeToString :: "8 word list \<Rightarrow> string" where
  "hex_EncodeToString bs = concat (map hex_byte bs)"

definition ToUpper :: "string \<Rightarrow> string" where
  "ToUpper s = map to_upper s"

section \<open>Client\<close>

definition listFlags_Set :: "string \<Rightarrow> string list \<Rightarrow> string list" where
  "listFlags_Set v l = l @ [v]"

record client_cmd =
  cm_address :: string
  cm_remote :: string
  cm_remoteUrl :: "url option"
  cm_headers :: "string list"
  cm_connectNum :: int
  cm_remoteHeaders :: header
  cm_key :: string
  cm_skipTLSVerify :: bool

text \<open>The flags' defaults.\<close>

definition new_client_cmd :: client_cmd where
  "new_client_cmd =
     \<lparr>cm_address = '':1080'', cm_remote = [], cm_remoteUrl = None, cm_headers = [], cm_connectNum = 4,
      cm_remoteHeaders = [], cm_key = [], cm_skipTLSVerify = False\<rparr>"

fun parse_headers :: "string list \<Rightarrow> header \<Rightarrow> go_error + header" where
  "parse_headers [] h = Inr h"
| "parse_headers (hdr # rest) h =
     (case IndexByte hdr CHR ''='' of
        None \<Rightarrow> Inl (Errorf (''bad http header in websocket request: '' @ hdr))
      | Some index \<Rightarrow>
          if index + 1 = length hdr
          then Inl (Errorf (''bad http header in websocket request: '' @ hdr))
          else parse_headers rest (header_Add (take index hdr) (drop (index + 1) hdr) h))"

definition client_PreRun :: "(string \<Rightarrow> go_error + url) \<Rightarrow> client_cmd \<Rightarrow> go_error + client_cmd" where
  "client_PreRun url_Parse c =
     (if cm_remote c = [] then Inl (Errorf ''empty remote address'')
      else case url_Parse (cm_remote c) of
             Inl err \<Rightarrow> Inl err
           | Inr u \<Rightarrow>
               (let c1 = c\<lparr>cm_remoteUrl := Some u,
                           cm_connectNum := (if cm_connectNum c < 1 then 1 else cm_connectNum c)\<rparr>
                in case parse_headers (cm_headers c1) [] of
                     Inl err \<Rightarrow> Inl err
                   | Inr h \<Rightarrow> Inr (c1\<lparr>cm_remoteHeaders := h\<rparr>)))"

definition client_options :: "url \<Rightarrow> client_cmd \<Rightarrow> Options" where
  "client_options u c =
     \<lparr>op_LocalSocks5Addr = cm_address c, op_RemoteUrl = u, op_RemoteHeaders = cm_remoteHeaders c,
      op_ConnectNum = cm_connectNum c, op_ConnectionKey = cm_key c,
      op_SkipTLSVerify = cm_skipTLSVerify c\<rparr>"

text \<open>
  \<open>client.Run\<close> up to \<open>StartClient\<close>: an error with the WebSockets closed by the deferred function, or
  the handles the client starts on and their WebSockets. A nil \<open>remoteUrl\<close> panics.
\<close>

definition client_Run ::
  "Plugins \<Rightarrow> (string \<Rightarrow> go_error + url) \<Rightarrow> 'c ws_dial \<Rightarrow> ('c, 'net) wsjson_write \<Rightarrow> ('c, 'net) wsjson_read \<Rightarrow>
     client_cmd \<Rightarrow> 'net \<Rightarrow>
     ((go_error \<times> 'c WebSocketClient list) + (Handles \<times> 'c WebSocketClient list)) outcome" where
  "client_Run plugins url_Parse Dial wsw wsr c net =
     (case cm_remoteUrl c of
        None \<Rightarrow> Panics
      | Some u \<Rightarrow>
          (case fst (fst (CreateServerConn plugins Dial (client_options u c))) of
             Inl err \<Rightarrow> Returns (Inl (err, []))
           | Inr wsc \<Rightarrow>
               bind_outcome (NegotiateVersion plugins url_Parse wsw wsr wsc (cm_remote c) net)
                 (\<lambda>(err, net'). case err of
                    Some e \<Rightarrow> Returns (Inl (e, wsc))
                  | None \<Rightarrow> Returns (Inr (NewClientHandles (length wsc), wsc)))))"

section \<open>Server\<close>

record server_cmd =
  sm_address :: string
  sm_wsBasePath :: string
  sm_http :: bool
  sm_authEnable :: bool
  sm_authKey :: string
  sm_tls :: bool
  sm_tlsCertFile :: string
  sm_tlsKeyFile :: string
  sm_status :: bool

definition new_server_cmd :: server_cmd where
  "new_server_cmd =
     \<lparr>sm_address = '':1088'', sm_wsBasePath = ''/'', sm_http = True, sm_authEnable = False, sm_authKey = [],
      sm_tls = False, sm_tlsCertFile = [], sm_tlsKeyFile = [], sm_status = False\<rparr>"

text \<open>\<open>rand_Read n\<close>: \<open>n\<close> random bytes, or an error.\<close>

definition genRandBytes :: "(nat \<Rightarrow> go_error + 8 word list) \<Rightarrow> nat \<Rightarrow> go_error + 8 word list" where
  "genRandBytes rand_Read n = (case rand_Read n of Inl err \<Rightarrow> Inl err | Inr b \<Rightarrow> Inr b)"

definition complete_path :: "string \<Rightarrow> string" where
  "complete_path path =
     (let p0 = (if path = [] then ''/'' else path);
          p1 = (if \<not> HasPrefix p0 ''/'' then ''/'' @ p0 else p0)
      in if \<not> HasSuffix p1 ''/'' then p1 @ ''/'' else p1)"

definition server_PreRun :: "(nat \<Rightarrow> go_error + 8 word list) \<Rightarrow> server_cmd \<Rightarrow> go_error + server_cmd" where
  "server_PreRun rand_Read s =
     (case (if sm_authEnable s \<and> sm_authKey s = []
            then (case genRandBytes rand_Read 12 of
                    Inl err \<Rightarrow> Inl err
                  | Inr b \<Rightarrow> Inr (s\<lparr>sm_authKey := ToUpper (hex_EncodeToString b)\<rparr>))
            else Inr s) of
        Inl err \<Rightarrow> Inl err
      | Inr s1 \<Rightarrow> Inr (s1\<lparr>sm_wsBasePath := complete_path (sm_wsBasePath s1)\<rparr>))"

text \<open>What is registered with the mux.\<close>

datatype 'c handler = WsHandler "'c ServerWS" | FileHandler | StatusHandler "'c handleStatus"

definition server_config :: "server_cmd \<Rightarrow> WebsocksServerConfig" where
  "server_config s =
     \<lparr>cf_EnableHttp = sm_http s, cf_EnableConnKey = sm_authEnable s, cf_ConnKey = sm_authKey s,
      cf_EnableStatusPage = sm_status s\<rparr>"

text \<open>
  \<open>server.Run\<close> up to the call of \<open>ListenAndServe\<close> (\<open>ListenAndServeTLS\<close> with the two files): an error
  that ends the process, or what is served where, and the address that is logged.
\<close>

record 'c serving =
  sg_mux :: "'c handler mux"
  sg_address :: string
  sg_tls :: "(string \<times> string) option"
  sg_logged :: string

definition server_Run :: "(unit \<Rightarrow> go_error + unit) \<Rightarrow> instant \<Rightarrow> server_cmd \<Rightarrow> (go_error + 'c serving) outcome" where
  "server_Run fs_New now s =
     (let hc = NewHubCollection;
          listen = (\<lambda>m. Returns (Inr
            \<lparr>sg_mux = m, sg_address = sm_address s,
             sg_tls = (if sm_tls s then Some (sm_tlsCertFile s, sm_tlsKeyFile s) else None),
             sg_logged = (if sm_wsBasePath s = ''/'' then sm_address s else sm_address s @ sm_wsBasePath s)\<rparr>))
      in bind_outcome (mux_Handle (sm_wsBasePath s) (WsHandler (NewServeWS hc (server_config s))) [])
           (\<lambda>m. if sm_status s
                then (case fs_New () of
                        Inl err \<Rightarrow> Returns (Inl err)
                      | Inr statikFS \<Rightarrow>
                          bind_outcome (mux_Handle ''/status/'' FileHandler m)
                            (\<lambda>m. bind_outcome
                              (mux_Handle ''/api/status/''
                                (StatusHandler (NewStatusHandle now hc (sm_http s) (sm_authEnable s) (sm_wsBasePath s))) m)
                              listen))
                else listen m))"

section \<open>Version\<close>

definition version_Run :: "string \<Rightarrow> string \<Rightarrow> string \<Rightarrow> string" where
  "version_Run buildHash buildTime buildGoVersion =
     ''version: '' @ CoreVersion @ ''.'' @ [CHR 0x0A]
     @ ''protocol version: '' @ Itoa (unat VersionCode) @ [CHR 0x0A]
     @ ''commit: '' @ buildHash @ [CHR 0x0A]
     @ ''build time: '' @ buildTime @ [CHR 0x0A]
     @ ''build by: '' @ buildGoVersion @ [CHR 0x0A]
     @ ''Author: genshen<genshenchu@gmail.com>'' @ [CHR 0x0A]
     @ ''github: https://github.com/genshen/wssocks'' @ [CHR 0x0A]"

end
