(* ===== verification/Command_Props.thy ===== *)
theory Command_Props
  imports Commands
begin

text \<open>
  What the commands make of their flags: the client's headers arrive as they were given, its command
  never starts without a WebSocket; the server's random keys differ when the random bytes do, its
  base path is a path of the mux, and it starts unless that path is one of the status page's.
\<close>

section \<open>Client\<close>

definition header_flag :: "string \<times> string \<Rightarrow> string" where
  "header_flag p = fst p @ ''='' @ snd p"

lemma parse_headers_flags:
  assumes "\<forall>(k, v)\<in>set kvs. CHR ''='' \<notin> set k \<and> v \<noteq> []"
  shows "\<exists>h'. parse_headers (map header_flag kvs) h = Inr h' \<and>
    (\<forall>name. header_Values name h' = header_Values name h @
       map snd (filter (\<lambda>p. CanonicalMIMEHeaderKey (fst p) = CanonicalMIMEHeaderKey name) kvs))"
  using assms
proof (induction kvs arbitrary: h)
  case Nil
  show ?case by simp
next
  case (Cons p kvs)
  obtain k v where p: "p = (k, v)" by (cases p)
  have k: "CHR ''='' \<notin> set k" "v \<noteq> []" using Cons.prems p by auto
  have "parse_headers (map header_flag (p # kvs)) h = parse_headers (map header_flag kvs) (header_Add k v h)"
    using k by (simp add: p header_flag_def IndexByte_append)
  then show ?case
    using Cons.IH [of "header_Add k v h"] Cons.prems by (auto simp: p header_Values_Add)
qed

text \<open>
  Headers given as \<open>name=value\<close>, with no \<open>=\<close> in the name and a value that is not empty, are accepted,
  and the request carries, for every name up to capitals, its values in the order they were given.
\<close>

theorem client_headers_roundtrip:
  assumes "\<forall>(k, v)\<in>set kvs. CHR ''='' \<notin> set k \<and> v \<noteq> []"
    and "cm_headers c = map header_flag kvs" and "cm_remote c \<noteq> []" and "url_Parse (cm_remote c) = Inr u"
  shows "\<exists>c'. client_PreRun url_Parse c = Inr c' \<and>
    header_Values name (cm_remoteHeaders c') =
      map snd (filter (\<lambda>p. CanonicalMIMEHeaderKey (fst p) = CanonicalMIMEHeaderKey name) kvs)"
proof -
  obtain h where h: "parse_headers (map header_flag kvs) [] = Inr h"
    "header_Values name h = map snd (filter (\<lambda>p. CanonicalMIMEHeaderKey (fst p) = CanonicalMIMEHeaderKey name) kvs)"
    using parse_headers_flags [OF assms(1), of "[]"] by auto
  with assms(2-4) show ?thesis by (simp add: client_PreRun_def Let_def)
qed

lemma canonical_examples:
  "CanonicalMIMEHeaderKey ''a'' = ''A''" "CanonicalMIMEHeaderKey ''A'' = ''A''"
  "CanonicalMIMEHeaderKey ''B'' = ''B''"
  by code_simp+

theorem client_headers_roundtrip_witness:
  "\<exists>c'. client_PreRun (\<lambda>_. Inr \<lparr>url_Scheme = ''ws'', url_Rest = ''//h''\<rparr>)
       (new_client_cmd\<lparr>cm_remote := ''ws://h'', cm_headers := [''a=1'', ''B=x=y'', ''A=2'']\<rparr>) = Inr c' \<and>
     header_Values ''a'' (cm_remoteHeaders c') = [''1'', ''2'']"
  using client_headers_roundtrip [of "[(''a'', ''1''), (''B'', ''x=y''), (''A'', ''2'')]"
      "new_client_cmd\<lparr>cm_remote := ''ws://h'', cm_headers := [''a=1'', ''B=x=y'', ''A=2'']\<rparr>"
      "\<lambda>_. Inr \<lparr>url_Scheme = ''ws'', url_Rest = ''//h''\<rparr>" "\<lparr>url_Scheme = ''ws'', url_Rest = ''//h''\<rparr>" "''a''"]
  by (simp add: header_flag_def new_client_cmd_def canonical_examples)

lemma dial_loop_length:
  "fst (dial_loop Dial tr h addr i k wsc) = Inr ws \<Longrightarrow> length ws = length wsc + k"
  by (induction Dial tr h addr i k wsc rule: dial_loop.induct) (auto split: sum.splits)

lemma CreateServerConn_length:
  assumes "fst (fst (CreateServerConn plugins Dial c)) = Inr wsc"
  shows "length wsc = nat (op_ConnectNum c)"
  using assms
  by (auto simp: CreateServerConn_def Let_def split: option.splits prod.splits if_splits dest: dial_loop_length)

text \<open>
  After \<open>PreRun\<close> the client command never panics, whatever \<open>--nums\<close> was, whatever plugins are
  installed and whatever the server answers: \<open>NegotiateVersion\<close> always has a first WebSocket. When the
  client starts, it starts on the number of WebSockets that was asked for, at least one.
\<close>

theorem client_Run_never_panics:
  assumes "client_PreRun url_Parse c = Inr c'"
  shows "outcome_ok (\<lambda>r. case r of Inl e \<Rightarrow> True
           | Inr (hdl, wsc) \<Rightarrow> length wsc = nat (max 1 (cm_connectNum c)) \<and> length (hd_wsc hdl) = length wsc)
         (client_Run plugins url_Parse Dial wsw wsr c' net)"
proof -
  obtain u where u: "cm_remoteUrl c' = Some u" and n: "cm_connectNum c' = max 1 (cm_connectNum c)"
    using assms by (auto simp: client_PreRun_def Let_def max_def split: if_splits sum.splits)
  show ?thesis
  proof (cases "fst (fst (CreateServerConn plugins Dial (client_options u c')))")
    case (Inl err)
    then show ?thesis by (simp add: client_Run_def u)
  next
    case (Inr wsc)
    have len: "length wsc = nat (max 1 (cm_connectNum c))"
      using CreateServerConn_length [OF Inr] n by (simp add: client_options_def)
    then obtain w ws where "wsc = w # ws" by (cases wsc) auto
    with len Inr u show ?thesis
      by (auto simp: client_Run_def NegotiateVersion_def NewClientHandles_def Let_def
          split: prod.splits sum.splits option.splits)
  qed
qed

theorem client_Run_never_panics_witness:
  "outcome_ok (\<lambda>r. case r of Inl e \<Rightarrow> True | Inr (hdl, wsc) \<Rightarrow> length wsc = 1)
     (client_Run no_plugins (\<lambda>_. Inr \<lparr>url_Scheme = ''ws'', url_Rest = ''//h''\<rparr>) (\<lambda>i tr h addr. Inr i)
       (\<lambda>c m net. (None, net)) (\<lambda>c net. (Inl EOF, net))
       (new_client_cmd\<lparr>cm_remote := ''ws://h'', cm_connectNum := 1, cm_remoteUrl := Some \<lparr>url_Scheme = ''ws'', url_Rest = ''//h''\<rparr>\<rparr>) ())"
  using client_Run_never_panics [of "\<lambda>_. Inr \<lparr>url_Scheme = ''ws'', url_Rest = ''//h''\<rparr>"
      "new_client_cmd\<lparr>cm_remote := ''ws://h'', cm_connectNum := 0\<rparr>"
      "new_client_cmd\<lparr>cm_remote := ''ws://h'', cm_connectNum := 1, cm_remoteUrl := Some \<lparr>url_Scheme = ''ws'', url_Rest = ''//h''\<rparr>\<rparr>"
      no_plugins "\<lambda>i tr h addr. Inr i" "\<lambda>c m net. (None, net)" "\<lambda>c net. (Inl EOF, net)" "()"]
  by (auto simp: outcome_ok_iff client_PreRun_def new_client_cmd_def Let_def split: sum.splits)

section \<open>Server\<close>

lemma upper_digits:
  "map (\<lambda>n. to_upper (digit_char n)) [0,1,2,3,4,5,6,7,8,9,10,11,12,13,14,15] = ''0123456789ABCDEF''"
  by (simp only: list.map, intro arg_cong2 [where f = Cons] refl; code_simp)

lemma hex_digits_distinct: "distinct (map (\<lambda>n. to_upper (digit_char n)) [0..<16])"
proof -
  have "[0..<16] = [0,1,2,3,4,5,6,7,8,9,10,11,12,13,14,15::nat]" by (simp add: upt_rec)
  then have "map (\<lambda>n. to_upper (digit_char n)) [0..<16] = ''0123456789ABCDEF''"
    using upper_digits by (simp only:)
  then show ?thesis by (simp only:) simp
qed

lemma digit_upper_inj:
  assumes "a < 16" and "b < 16" and "to_upper (digit_char a) = to_upper (digit_char b)"
  shows "a = b"
  using assms hex_digits_distinct unfolding distinct_map inj_on_def by simp

lemma hex_byte_inj:
  assumes "ToUpper (hex_byte a) = ToUpper (hex_byte b)"
  shows "a = b"
proof -
  have "unat x div 16 < 16" for x :: byte
    using unat_byte_less [of x] by (simp add: less_mult_imp_div_less)
  then have "unat a div 16 = unat b div 16" "unat a mod 16 = unat b mod 16"
    using assms digit_upper_inj by (simp_all add: ToUpper_def hex_byte_def)
  then have "unat a = unat b" by (metis div_mult_mod_eq)
  then show ?thesis by (rule word_unat_eq_iff [THEN iffD2])
qed

lemma ToUpper_Encode_inj:
  assumes "length as = length bs" and "ToUpper (hex_EncodeToString as) = ToUpper (hex_EncodeToString bs)"
  shows "as = bs"
  using assms
proof (induction as bs rule: list_induct2)
  case Nil
  show ?case by simp
next
  case (Cons a as b bs)
  have "ToUpper (hex_byte a) = ToUpper (hex_byte b)" "ToUpper (hex_EncodeToString as) = ToUpper (hex_EncodeToString bs)"
    using Cons.prems by (simp_all add: hex_EncodeToString_def ToUpper_def hex_byte_def)
  with Cons.IH hex_byte_inj show ?case by blast
qed

lemma length_key: "length (ToUpper (hex_EncodeToString bs)) = 2 * length bs"
  by (induction bs) (simp_all add: hex_EncodeToString_def ToUpper_def hex_byte_def)

text \<open>
  A server with authentication and no key of its own generates one of 24 characters, and two of
  them are equal only if all random bytes are: none of the 96 random bits is lost in the text.
\<close>

theorem generated_keys_distinct:
  assumes "sm_authEnable s" and "sm_authKey s = []"
    and "rand1 12 = Inr b1" and "length b1 = 12" and "rand2 12 = Inr b2" and "length b2 = 12"
  shows "\<exists>s1 s2. server_PreRun rand1 s = Inr s1 \<and> server_PreRun rand2 s = Inr s2 \<and>
    length (sm_authKey s1) = 24 \<and> (sm_authKey s1 = sm_authKey s2 \<longleftrightarrow> b1 = b2)"
  using assms ToUpper_Encode_inj [of b1 b2]
  by (auto simp: server_PreRun_def genRandBytes_def length_key)

theorem generated_keys_distinct_witness:
  "\<exists>s1 s2. server_PreRun (\<lambda>n. Inr (replicate n 0)) (new_server_cmd\<lparr>sm_authEnable := True\<rparr>) = Inr s1 \<and>
     server_PreRun (\<lambda>n. Inr (replicate n 255)) (new_server_cmd\<lparr>sm_authEnable := True\<rparr>) = Inr s2 \<and>
     length (sm_authKey s1) = 24 \<and> sm_authKey s1 \<noteq> sm_authKey s2"
  using generated_keys_distinct [of "new_server_cmd\<lparr>sm_authEnable := True\<rparr>" "\<lambda>n. Inr (replicate n 0)"
      "replicate 12 0" "\<lambda>n. Inr (replicate n 255)" "replicate 12 255"]
  by (simp add: new_server_cmd_def)

lemma complete_path_shape: "HasPrefix (complete_path p) ''/''" "HasSuffix (complete_path p) ''/''"
  by (auto simp: complete_path_def Let_def HasPrefix_iff HasSuffix_iff)

lemma PreRun_path:
  assumes "server_PreRun rand s = Inr s'"
  shows "sm_wsBasePath s' = complete_path (sm_wsBasePath s)" "sm_status s' = sm_status s"
  using assms by (auto simp: server_PreRun_def split: if_splits sum.splits)

text \<open>
  After \<open>PreRun\<close> the server panics at its start in one case only: the status page is enabled and the
  base path, with its slashes completed, is \<open>/status/\<close> or \<open>/api/status/\<close>.
\<close>

theorem server_panics_iff:
  assumes "server_PreRun rand s = Inr s'"
  shows "(server_Run fs_New now s' :: (go_error + 'c serving) outcome) = Panics \<longleftrightarrow>
    sm_status s \<and> (\<exists>f. fs_New () = Inr f) \<and> complete_path (sm_wsBasePath s) \<in> {''/status/'', ''/api/status/''}"
proof -
  have "complete_path (sm_wsBasePath s) \<noteq> []"
    using complete_path_shape(1) [of "sm_wsBasePath s"] by auto
  then show ?thesis
    by (auto simp: server_Run_def Let_def mux_Handle_def PreRun_path [OF assms] gm_get_def gm_put_def
        split: sum.splits)
qed

theorem server_panics_iff_witness:
  "(server_Run (\<lambda>_. Inr ()) 0 (new_server_cmd\<lparr>sm_wsBasePath := ''/status/'', sm_status := True\<rparr>)
     :: (go_error + unit serving) outcome) = Panics"
proof -
  have "server_PreRun (\<lambda>n. Inr []) (new_server_cmd\<lparr>sm_wsBasePath := ''status'', sm_status := True\<rparr>) =
      Inr (new_server_cmd\<lparr>sm_wsBasePath := ''/status/'', sm_status := True\<rparr>)"
    by (simp add: server_PreRun_def new_server_cmd_def complete_path_def HasSuffix_def Let_def)
  from server_panics_iff [OF this, of "\<lambda>_. Inr ()" 0] show ?thesis
    by (simp add: new_server_cmd_def complete_path_def HasSuffix_def Let_def)
qed

section \<open>Routes\<close>

lemma server_mux:
  assumes "server_Run fs_New now s = Returns (Inr sg)"
  shows "sg_mux sg = (sm_wsBasePath s, WsHandler (NewServeWS NewHubCollection (server_config s))) #
      (if sm_status s
       then [(''/status/'', FileHandler), (''/api/status/'',
          StatusHandler (NewStatusHandle now NewHubCollection (sm_http s) (sm_authEnable s) (sm_wsBasePath s)))]
       else []) \<and> (sm_status s \<longrightarrow> sm_wsBasePath s \<notin> {''/status/'', ''/api/status/''})"
  using assms
  by (auto simp: server_Run_def Let_def mux_Handle_def gm_get_def gm_put_def split: if_splits sum.splits)

lemma server_match:
  assumes "server_PreRun rand s = Inr s'" and "server_Run fs_New now s' = Returns (Inr sg)"
    and "HasPrefix path (sm_wsBasePath s')"
  shows "mux_match path (sg_mux sg) =
    Some (if sm_status s' \<and> HasPrefix path ''/api/status/'' \<and> length (sm_wsBasePath s') < 12
          then StatusHandler (NewStatusHandle now NewHubCollection (sm_http s') (sm_authEnable s') (sm_wsBasePath s'))
          else if sm_status s' \<and> HasPrefix path ''/status/'' \<and> length (sm_wsBasePath s') < 8 then FileHandler
          else WsHandler (NewServeWS NewHubCollection (server_config s')))"
proof -
  define B where "B = sm_wsBasePath s'"
  have B: "HasSuffix B ''/''" "B \<noteq> []"
    using complete_path_shape [of "sm_wsBasePath s"] PreRun_path [OF assms(1)] by (auto simp: B_def)
  have sfx: "HasSuffix ''/status/'' ''/''" "HasSuffix ''/api/status/'' ''/''" by (simp_all add: HasSuffix_def)
  have excl: "\<not> HasPrefix path ''/status/''" if "HasPrefix path ''/api/status/''"
    using that by (auto simp: HasPrefix_iff)
  have eq: "B \<noteq> ''/status/'' \<Longrightarrow> HasPrefix path ''/status/'' \<Longrightarrow> length B \<noteq> 8"
    "B \<noteq> ''/api/status/'' \<Longrightarrow> HasPrefix path ''/api/status/'' \<Longrightarrow> length B \<noteq> 12"
    using longer_prefix [of path B] assms(3) by (auto simp: B_def)
  note mux = server_mux [OF assms(2), folded B_def]
  consider (status) "sm_status s'" "HasPrefix path ''/api/status/''" "length B < 12"
    | (files) "sm_status s'" "HasPrefix path ''/status/''" "length B < 8" "\<not> HasPrefix path ''/api/status/''"
    | (ws) "\<not> (sm_status s' \<and> HasPrefix path ''/api/status/'' \<and> length B < 12)"
        "\<not> (sm_status s' \<and> HasPrefix path ''/status/'' \<and> length B < 8)"
    using excl by blast
  then show ?thesis
  proof cases
    case status
    then show ?thesis unfolding B_def [symmetric] using mux excl sfx
      by (simp, intro mux_match_longest [of _ "''/api/status/''"]) (auto simp: gm_get_def)
  next
    case files
    then show ?thesis unfolding B_def [symmetric] using mux sfx
      by (simp, intro mux_match_longest [of _ "''/status/''"]) (auto simp: gm_get_def)
  next
    case ws
    have "mux_match path (sg_mux sg) = Some (WsHandler (NewServeWS NewHubCollection (server_config s')))"
    proof (rule mux_match_longest [of _ B])
      show "\<forall>q\<in>set (map fst (sg_mux sg)). q \<noteq> B \<longrightarrow> HasPrefix path q \<longrightarrow> length q < length B"
        using ws mux eq by (cases "sm_status s'") (auto simp: not_less)
    qed (use mux B assms(3) in \<open>simp_all add: gm_get_def B_def\<close>)
    with ws show ?thesis unfolding B_def by auto
  qed
qed

lemma server_redirects:
  assumes "server_PreRun rand s = Inr s'" and "server_Run fs_New now s' = Returns (Inr sg)"
    and "path @ ''/'' \<noteq> sm_wsBasePath s'"
  shows "should_redirect path (sg_mux sg) \<longleftrightarrow> sm_status s' \<and> path \<in> {''/status'', ''/api/status''}"
proof -
  have base: "HasSuffix (sm_wsBasePath s') ''/''"
    using complete_path_shape [of "sm_wsBasePath s"] PreRun_path [OF assms(1)] by simp
  have slash: "p @ ''/'' = ''/status/'' \<longleftrightarrow> p = ''/status''" "p @ ''/'' = ''/api/status/'' \<longleftrightarrow> p = ''/api/status''"
    for p :: string
    using append_same_eq [of p "''/''" "''/status''"] append_same_eq [of p "''/''" "''/api/status''"] by simp_all
  have "sm_wsBasePath s' \<noteq> ''/status''" "sm_wsBasePath s' \<noteq> ''/api/status''"
    using base by (auto simp: HasSuffix_def)
  then show ?thesis
    using server_mux [OF assms(2)] assms(3) slash
    by (cases "sm_status s'") (auto simp: should_redirect_def gm_get_def split: if_splits)
qed



end
