(* ===== verification/Teardown.thy ===== *)
theory Teardown
  imports Queue Link
begin

text \<open>
  How a transfer ends from outside (\<open>pipe/queue.go\<close>, \<open>pipe/link.go\<close>): \<open>QueueHub.Remove\<close> and
  \<open>LinkHub.RemoveAll\<close> close the objects under their \<open>Send\<close> goroutines. Wherever such a goroutine is in
  its loop, it then comes to its end in a bounded number of steps, without a timer: a closed
  channel hands out what is buffered and then empty chunks, and the status is seen at the next
  turn of the loop.
\<close>

section \<open>How far a Send is from its end\<close>

text \<open>A bound on the steps of a \<open>Send\<close> that finds its object closed at the next turn.\<close>

fun send_weight :: "'w send_pc \<Rightarrow> nat" where
  "send_weight (SendIter ids) = 3 * length ids + 5"
| "send_weight (SendRead w ids) = 3 * length ids + 7"
| "send_weight (SendPut w b ids) = 3 * length ids + 6"
| "send_weight SendHead = 4"
| "send_weight (SendReturn r) = 3"
| "send_weight (SendSignal r) = 2"
| "send_weight (SendCloseDone r) = 1"
| "send_weight _ = 0"

lemma readWithTimeout_closed:
  assumes "ch_closed c"
  shows "\<exists>b c'. readWithTimeout c timer = Some ((b, None), c') \<and> ch_closed c'"
  using assms by (cases "ch_buf c") (auto simp: readWithTimeout_def chan_recv_def)

section \<open>The sending queue\<close>

text \<open>\<open>Send\<close> with the timer and the waiter free: whatever the clock and the other goroutines do.\<close>

definition queue_moves ::
  "('w, 's) PipeWriter \<Rightarrow> 'w send_pc \<times> 'w queue \<times> 's \<Rightarrow> 'w send_pc \<times> 'w queue \<times> 's \<Rightarrow> bool" where
  "queue_moves pw x y \<longleftrightarrow> (\<exists>timer waiter. queue_Send_step pw timer waiter x = Some y)"

definition queue_down :: "'w queue \<Rightarrow> ksuid list \<Rightarrow> bool" where
  "queue_down q ids \<longleftrightarrow> q_status q = StaClose \<and> ch_closed (q_buffer q) \<and> \<not> q_done_closed q \<and>
     (\<forall>i\<in>set ids. gm_get (q_writers q) i \<noteq> None)"

text \<open>Where a \<open>Send\<close> on a closed queue can be, with a writer for every identifier still to serve.\<close>

fun queue_ending :: "'w send_pc \<times> 'w queue \<times> 's \<Rightarrow> bool" where
  "queue_ending (SendHead, q, s) = queue_down q []"
| "queue_ending (SendIter ids, q, s) = queue_down q ids"
| "queue_ending (SendRead w ids, q, s) = (queue_down q ids \<and> w \<noteq> None)"
| "queue_ending (SendPut w b ids, q, s) = (queue_down q ids \<and> w \<noteq> None)"
| "queue_ending (SendReturn r, q, s) = (\<not> q_done_closed q \<and> r \<noteq> Some RuntimeError)"
| "queue_ending (SendSignal r, q, s) = (\<not> q_done_closed q \<and> r \<noteq> Some RuntimeError)"
| "queue_ending (SendCloseDone r, q, s) = (\<not> q_done_closed q \<and> r \<noteq> Some RuntimeError)"
| "queue_ending (SendExit r, q, s) = True"
| "queue_ending _ = False"

text \<open>A writer whose calls return, with errors of their own.\<close>

definition calls_return :: "('w, 's) PipeWriter \<Rightarrow> bool" where
  "calls_return pw \<longleftrightarrow>
     (\<forall>w d s. \<exists>n e s'. pw_Write pw w d s = Some ((n, e), s') \<and> e \<noteq> Some RuntimeError) \<and>
     (\<forall>w s. pw_WriteEOF pw w s \<noteq> None)"

lemma queue_ending_step:
  assumes "queue_ending x" and "calls_return pw" and "queue_Send_step pw timer waiter x = Some y"
  shows "queue_ending y \<and> send_weight (fst y) < send_weight (fst x)"
  using assms(1,3)
proof (cases x rule: queue_ending.cases)
  case (3 w ids q s)
  with assms(1) obtain b c where "readWithTimeout (q_buffer q) timer = Some ((b, None), c)" "ch_closed c"
    using readWithTimeout_closed [of "q_buffer q" timer] by (auto simp: queue_down_def)
  with 3 assms(1,3) show ?thesis by (auto simp: queue_down_def)
next
  case (4 w b ids q s)
  with assms(1) obtain w' where w: "w = Some w'" by auto
  with assms(2) obtain n e s' where "pw_Write pw w' (b_data b) s = Some ((n, e), s')" "e \<noteq> Some RuntimeError"
    unfolding calls_return_def by blast
  with 4 w assms(1,3) show ?thesis by (cases e) (auto simp: queue_down_def split: if_splits)
next
  case (2 ids q s)
  with assms(1,3) show ?thesis by (cases ids) (auto simp: queue_down_def)
qed (auto simp: queue_down_def split: if_splits)

lemma queue_ending_moves:
  assumes "queue_ending x" and "calls_return pw" and "queue_Send_step pw False True x = None"
  shows "\<exists>r. fst x = SendExit r"
  using assms(1,3)
proof (cases x rule: queue_ending.cases)
  case (3 w ids q s)
  with assms(1) obtain b c where "readWithTimeout (q_buffer q) False = Some ((b, None), c)"
    using readWithTimeout_closed [of "q_buffer q" False] by (auto simp: queue_down_def)
  with 3 assms(3) show ?thesis by simp
next
  case (4 w b ids q s)
  with assms(1) obtain w' where w: "w = Some w'" by auto
  with assms(2) obtain r where "pw_Write pw w' (b_data b) s = Some r" "pw_WriteEOF pw w' s \<noteq> None"
    unfolding calls_return_def by blast
  with 4 w assms(3) show ?thesis by (auto split: if_splits)
next
  case (2 ids q s)
  with assms(3) show ?thesis by (cases ids) auto
qed auto

text \<open>The machine with the writer's promise in its invariant, so that one interpretation serves all writers.\<close>

interpretation queue_end: terminating_machine "queue_moves pw" "\<lambda>x. queue_ending x \<and> calls_return pw"
    "\<lambda>x. send_weight (fst x)"
  for pw :: "('w, 's) PipeWriter"
  by unfold_locales (auto simp: queue_moves_def dest: queue_ending_step)

section \<open>The receiving links\<close>

definition link_moves ::
  "ref \<Rightarrow> ref send_pc \<times> LinkHub \<times> (ref \<Rightarrow> tcpconn) \<Rightarrow> ref send_pc \<times> LinkHub \<times> (ref \<Rightarrow> tcpconn) \<Rightarrow> bool" where
  "link_moves me x y \<longleftrightarrow> (\<exists>timer waiter. link_Send_step timer waiter me x = Some y)"

definition link_shut :: "LinkHub \<Rightarrow> ref \<Rightarrow> bool" where
  "link_shut h r \<longleftrightarrow> ch_closed (l_buffer (lh_heap h r))"

definition link_down :: "ref \<Rightarrow> LinkHub \<Rightarrow> ksuid list \<Rightarrow> bool" where
  "link_down me h ids \<longleftrightarrow> l_status (lh_heap h me) = StaClose \<and> \<not> l_done_closed (lh_heap h me) \<and>
     (\<forall>i\<in>set ids. \<forall>r. LinkHub_Get i h = Some r \<longrightarrow> link_shut h r)"

text \<open>Where a \<open>Send\<close> on a closed master link can be, when every link it may still read is closed or gone.\<close>

fun link_ending :: "ref \<Rightarrow> ref send_pc \<times> LinkHub \<times> (ref \<Rightarrow> tcpconn) \<Rightarrow> bool" where
  "link_ending me (SendHead, h, conns) = link_down me h []"
| "link_ending me (SendIter ids, h, conns) = link_down me h ids"
| "link_ending me (SendRead None ids, h, conns) = link_down me h ids"
| "link_ending me (SendRead (Some l) ids, h, conns) = (link_down me h ids \<and> link_shut h l)"
| "link_ending me (SendPut l b ids, h, conns) = link_down me h ids"
| "link_ending me (SendReturn r, h, conns) = (\<not> l_done_closed (lh_heap h me))"
| "link_ending me (SendSignal r, h, conns) = (\<not> l_done_closed (lh_heap h me))"
| "link_ending me (SendCloseDone r, h, conns) = (\<not> l_done_closed (lh_heap h me))"
| "link_ending me (SendExit r, h, conns) = True"
| "link_ending me _ = False"

lemma link_down_read:
  "link_down me h ids \<Longrightarrow> ch_closed c \<Longrightarrow> link_down me (lh_update l (\<lambda>q. q\<lparr>l_buffer := c\<rparr>) h) ids"
  by (auto simp: link_down_def link_shut_def LinkHub_Get_def)

lemma link_ending_step:
  assumes "link_ending me x" and "link_Send_step timer waiter me x = Some y"
  shows "link_ending me y \<and> send_weight (fst y) < send_weight (fst x)"
  using assms
proof (cases "(me, x)" rule: link_ending.cases)
  case (4 me' l ids h conns)
  with assms(1) obtain b c where "readWithTimeout (l_buffer (lh_heap h l)) timer = Some ((b, None), c)" "ch_closed c"
    using readWithTimeout_closed [of "l_buffer (lh_heap h l)" timer] by (auto simp: link_shut_def)
  with 4 assms show ?thesis by (auto intro: link_down_read)
next
  case (5 me' l b ids h conns)
  with assms show ?thesis by (auto simp: link_down_def split: prod.splits option.splits if_splits)
next
  case (2 me' ids h conns)
  with assms show ?thesis by (cases ids; cases "LinkHub_Get (hd ids) h") (auto simp: link_down_def)
qed (auto simp: link_down_def split: if_splits)

lemma link_ending_moves:
  assumes "link_ending me x" and "link_Send_step False True me x = None"
  shows "\<exists>r. fst x = SendExit r"
  using assms
proof (cases "(me, x)" rule: link_ending.cases)
  case (4 me' l ids h conns)
  with assms(1) obtain b c where "readWithTimeout (l_buffer (lh_heap h l)) False = Some ((b, None), c)"
    using readWithTimeout_closed [of "l_buffer (lh_heap h l)" False] by (auto simp: link_shut_def)
  with 4 assms(2) show ?thesis by simp
next
  case (2 me' ids h conns)
  with assms(2) show ?thesis by (cases ids) auto
qed (auto split: prod.splits)

interpretation link_end: terminating_machine "link_moves me" "link_ending me" "\<lambda>x. send_weight (fst x)"
  for me :: ref
  by unfold_locales (auto simp: link_moves_def dest: link_ending_step)

section \<open>What the removals close\<close>

lemma queue_close_closes:
  "queue_close q = Some q' \<Longrightarrow> q_status q \<noteq> StaClose \<Longrightarrow>
     q_status q' = StaClose \<and> ch_closed (q_buffer q') \<and> q_done_closed q' = q_done_closed q \<and>
     q_writers q' = q_writers q \<and> q_sorted q' = q_sorted q"
  by (auto simp: queue_close_def chan_close_def split: if_splits)

lemma link_close_closes:
  "link_close q = Some q' \<Longrightarrow> link_live q \<Longrightarrow>
     l_status q' = StaClose \<and> ch_closed (l_buffer q') \<and> l_done_closed q' = l_done_closed q"
  by (auto simp: link_close_def chan_close_def link_live_def split: if_splits)

lemma lh_drop_closes:
  assumes "lh_wf h" and "gm_get (lh_links h) i = Some r" and "lh_drop i h = Some h'"
  shows "l_status (lh_heap h' r) = StaClose \<and> link_shut h' r \<and>
    l_done_closed (lh_heap h' r) = l_done_closed (lh_heap h r)"
  using assms lh_wfD [OF assms(1,2)] by (auto simp: lh_drop_def link_shut_def dest: link_close_closes)

lemma lh_drop_shut: "lh_drop i h = Some h' \<Longrightarrow> link_shut h r \<Longrightarrow> link_shut h' r"
  by (auto simp: lh_drop_def link_shut_def link_close_def chan_close_def split: option.splits if_splits)

lemma lh_drop_members_shut: "lh_drop_members m ids h = Some h' \<Longrightarrow> link_shut h r \<Longrightarrow> link_shut h' r"
  by (induction ids arbitrary: h) (auto simp: bind_eq_Some_conv intro: lh_drop_shut split: if_splits)

lemma lh_drop_members_closes:
  assumes "lh_wf h" and "lh_drop_members m ids h = Some h'" and "i \<in> set ids" and "i \<noteq> m"
    and "gm_get (lh_links h) i = Some r"
  shows "link_shut h' r"
  using assms
proof (induction ids arbitrary: h)
  case (Cons j ids)
  show ?case
  proof (cases "j = m")
    case True
    with Cons show ?thesis by auto
  next
    case False
    with Cons.prems obtain h1 where h1: "lh_drop j h = Some h1" "lh_drop_members m ids h1 = Some h'"
      by (auto simp: bind_eq_Some_conv)
    have wf: "lh_wf h1" "lh_links h1 = gm_del j (lh_links h)"
      using lh_drop_wf [OF Cons.prems(1), of j] h1(1) by auto
    show ?thesis
    proof (cases "i = j")
      case True
      with lh_drop_closes Cons.prems(1,5) h1(1) have "link_shut h1 r" by blast
      with h1(2) lh_drop_members_shut show ?thesis by blast
    next
      case False
      with Cons.IH [OF wf(1) h1(2)] Cons.prems(3-5) wf(2) show ?thesis by simp
    qed
  qed
qed simp

text \<open>\<open>RemoveAll\<close> closes the master link and every member of its order that the hub knows.\<close>

lemma RemoveAll_closes:
  assumes "lh_wf h" and "LinkHub_Get m h = Some me" and "LinkHub_RemoveAll m h = Some h'"
  shows "l_status (lh_heap h' me) = StaClose \<and> l_done_closed (lh_heap h' me) = l_done_closed (lh_heap h me) \<and>
    (\<forall>i\<in>set (l_sorted (lh_heap h me)). LinkHub_Get i h' = None \<and>
       (\<forall>r. LinkHub_Get i h = Some r \<longrightarrow> link_shut h' r))"
proof -
  let ?ids = "l_sorted (lh_heap h me)"
  obtain h1 where h1: "lh_drop_members m ?ids h = Some h1" "lh_drop m h1 = Some h'"
    using assms(2,3) by (auto simp: LinkHub_RemoveAll_def LinkHub_Get_def bind_eq_Some_conv)
  have wf: "lh_wf h1" "lh_heap h1 me = lh_heap h me" "gm_get (lh_links h1) m = Some me"
    using lh_drop_members_wf [OF assms(1), of m ?ids] h1(1) assms(2) by (auto simp: LinkHub_Get_def)
  have master: "l_status (lh_heap h' me) = StaClose \<and> link_shut h' me \<and>
      l_done_closed (lh_heap h' me) = l_done_closed (lh_heap h me)"
    using lh_drop_closes [OF wf(1,3) h1(2)] wf(2) by simp
  moreover have "link_shut h' r" if "i \<in> set ?ids" "LinkHub_Get i h = Some r" for i r
    using that master assms(2) lh_drop_members_closes [OF assms(1) h1(1), of i r] lh_drop_shut [OF h1(2)]
    by (cases "i = m") (auto simp: LinkHub_Get_def)
  moreover have "LinkHub_Get i h' = None" if "i \<in> set ?ids" for i
    using LinkHub_RemoveAll_wf [OF assms(1), of m me] assms(2,3) that by (auto simp: LinkHub_Get_def)
  ultimately show ?thesis by blast
qed

section \<open>Properties\<close>

text \<open>The places inside the loop of \<open>queue.Send\<close>, with a writer for every identifier still to serve.\<close>

fun queue_in_loop :: "'w queue \<Rightarrow> 'w send_pc \<Rightarrow> bool" where
  "queue_in_loop q SendHead = True"
| "queue_in_loop q (SendIter ids) = (\<forall>i\<in>set ids. gm_get (q_writers q) i \<noteq> None)"
| "queue_in_loop q (SendRead w ids) = (w \<noteq> None \<and> (\<forall>i\<in>set ids. gm_get (q_writers q) i \<noteq> None))"
| "queue_in_loop q (SendPut w b ids) = (w \<noteq> None \<and> (\<forall>i\<in>set ids. gm_get (q_writers q) i \<noteq> None))"
| "queue_in_loop q _ = False"



text \<open>The places inside the loop of \<open>link.Send\<close>: the link being read is one of the order.\<close>

fun link_in_loop :: "LinkHub \<Rightarrow> ref \<Rightarrow> ref send_pc \<Rightarrow> bool" where
  "link_in_loop h me SendHead = True"
| "link_in_loop h me (SendIter ids) = (set ids \<subseteq> set (l_sorted (lh_heap h me)))"
| "link_in_loop h me (SendRead l ids) = (set ids \<subseteq> set (l_sorted (lh_heap h me)) \<and>
     (l = None \<or> (\<exists>i\<in>set (l_sorted (lh_heap h me)). LinkHub_Get i h = l)))"
| "link_in_loop h me (SendPut l b ids) = (set ids \<subseteq> set (l_sorted (lh_heap h me)))"
| "link_in_loop h me _ = False"

text \<open>
  C13. The same for the receiving side: when \<open>LinkHub.RemoveAll\<close> takes a transfer away, the \<open>Send\<close>
  goroutine of its master link ends, even where it is blocked on the link of another connection of
  the transfer: at most \<open>send_weight\<close> further steps, and where it can go no further it has returned.
\<close>

theorem removed_links_end_send:
  assumes "lh_wf h" and "LinkHub_Get m h = Some me" and "LinkHub_RemoveAll m h = Some h'"
    and "link_in_loop h me pc" and "\<not> l_done_closed (lh_heap h me)"
    and "(link_moves me ^^ n) (pc, h', conns) (pc', h'', conns')"
  shows "n \<le> send_weight pc \<and> (link_Send_step False True me (pc', h'', conns') = None \<longrightarrow> (\<exists>e. pc' = SendExit e))"
proof -
  note closed = RemoveAll_closes [OF assms(1-3)]
  have down: "link_down me h' ids" if "set ids \<subseteq> set (l_sorted (lh_heap h me))" for ids
    using closed assms(5) that by (auto simp: link_down_def)
  have "link_ending me (pc, h', conns)"
  proof (cases pc)
    case (SendRead l ids)
    then show ?thesis using assms(4) down closed by (cases l) auto
  qed (use assms(4) down in auto)
  then have "n + send_weight pc' \<le> send_weight pc \<and> link_ending me (pc', h'', conns')"
    using link_end.run_length [OF _ assms(6)] by simp
  then show ?thesis using link_ending_moves by fastforce
qed

theorem removed_links_end_send_witness:
  "let h = LinkHub_SetSort 0 1 [1, 2] (fst (LinkHub_Add 0 2 1 NewLinkHub));
       h' = the (LinkHub_RemoveAll 1 h)
   in link_Send_step False True 0 (SendRead (Some 1) [], h, (\<lambda>_. new_conn [])) = None \<and>
      link_Send_step False True 0 (SendRead (Some 1) [], h', (\<lambda>_. new_conn [])) \<noteq> None"
proof -
  let ?h = "LinkHub_SetSort 0 1 [1, 2] (fst (LinkHub_Add 0 2 1 NewLinkHub))"
  have wf: "lh_wf ?h" by (intro lh_wf_SetSort lh_wf_Add) simp
  note eval = LinkHub_SetSort_def LinkHub_Add_def LinkHub_Get_def LinkHub_trySend_def lh_ensure_def
    link_SetSort_def NewLink_def Let_def
  have get: "LinkHub_Get 1 ?h = Some 0" "LinkHub_Get 2 ?h = Some 1" by (simp_all add: eval)
  obtain h' where h': "LinkHub_RemoveAll 1 ?h = Some h'"
    using LinkHub_RemoveAll_wf [OF wf] get(1) unfolding LinkHub_Get_def by blast
  have at: "l_sorted (lh_heap ?h 0) = [1, 2]" "\<not> l_done_closed (lh_heap ?h 0)"
      "ch_buf (l_buffer (lh_heap ?h 1)) = []" "\<not> ch_closed (l_buffer (lh_heap ?h 1))"
    by (simp_all add: eval)
  then have "link_Send_step False True 0 (SendRead (Some 1) [], h', (\<lambda>_. new_conn [])) \<noteq> None"
    using removed_links_end_send [OF wf get(1) h', of "SendRead (Some 1) []" 0 "\<lambda>_. new_conn []"
        "SendRead (Some 1) []" h' "\<lambda>_. new_conn []"] get(2)
    by auto
  moreover have "link_Send_step False True 0 (SendRead (Some 1) [], ?h, (\<lambda>_. new_conn [])) = None"
    using at by (simp add: readWithTimeout_blocked [THEN iffD2])
  ultimately show ?thesis using h' by (simp add: Let_def del: link_Send_step.simps)
qed

end
