(* ===== verification/Trans_Life.thy ===== *)
theory Trans_Life
  imports Client
begin

text \<open>
  The life of one \<open>transData\<close> (\<open>wss/wssocks_client.go\<close>): the loop that registers the transfer on every
  WebSocket, the start of its goroutines, and the deferred calls that take everything back. The
  steps of the function are run one after the other; the clock and the receive in \<open>Wait\<close> differ from
  step to step.
\<close>

section \<open>Running transData\<close>

definition trans_act ::
  "('c, 'net) wsjson_write \<Rightarrow> (ksuid \<Rightarrow> string) \<Rightarrow> (nat \<Rightarrow> ksuid) \<Rightarrow> (nat \<Rightarrow> ref) \<Rightarrow> ref \<Rightarrow> ref \<Rightarrow>
     bytes option \<Rightarrow> string \<Rightarrow> instant \<times> bool \<Rightarrow>
     trans_pc \<times> ('c, 'net) client_world \<Rightarrow> (trans_pc \<times> ('c, 'net) client_world) option" where
  "trans_act wsw kstr fresh ctx t conn fsd addr e =
     transData_step wsw kstr fresh ctx (fst e) (snd e) t conn fsd addr"

abbreviation trans_run where
  "trans_run wsw kstr fresh ctx t conn fsd addr \<equiv> run_events (trans_act wsw kstr fresh ctx t conn fsd addr)"

section \<open>What the loop has built\<close>

text \<open>The queue of the transfer after \<open>k\<close> connections: new, with a writer for each of them.\<close>

definition queue_built ::
  "(nat \<Rightarrow> ksuid) \<Rightarrow> (nat \<Rightarrow> ref) \<Rightarrow> 'c WebSocketClient list \<Rightarrow> nat \<Rightarrow> 'c webSocketWriter queue \<Rightarrow> bool" where
  "queue_built fresh ctx wscs k q \<longleftrightarrow>
     queue_live (fresh 0) q \<and> q_status q = StaWait \<and> \<not> q_done_closed q \<and> q_sorted q = [] \<and> q_buffer q = makeBuffer \<and>
     gm_len (q_writers q) = k \<and>
     (\<forall>i<k. gm_get (q_writers q) (fresh i) = Some (NewWebSocketWriterWithMutex (wc_conn (wscs ! i)) (fresh i) (Some (ctx i)))) \<and>
     (\<forall>j. gm_get (q_writers q) j \<noteq> None \<longrightarrow> (\<exists>i<k. j = fresh i))"

definition queues_built ::
  "(nat \<Rightarrow> ksuid) \<Rightarrow> (nat \<Rightarrow> ref) \<Rightarrow> 'c WebSocketClient list \<Rightarrow> nat \<Rightarrow>
     'c webSocketWriter QueueHub \<Rightarrow> 'c webSocketWriter QueueHub \<Rightarrow> bool" where
  "queues_built fresh ctx wscs k h h' \<longleftrightarrow>
     (if k = 0 then h' = h
      else qh_queue h' = gm_put (fresh 0) (qh_next h) (qh_queue h) \<and> qh_next h' = Suc (qh_next h) \<and>
           queue_built fresh ctx wscs k (qh_heap h' (qh_next h)) \<and>
           (\<forall>r. r \<noteq> qh_next h \<longrightarrow> qh_heap h' r = qh_heap h r))"

text \<open>The links: one for each connection, numbered as they were made; the first counts them all.\<close>

definition link_built :: "ksuid \<Rightarrow> nat \<Rightarrow> link \<Rightarrow> bool" where
  "link_built m k q \<longleftrightarrow> link_live q \<and> \<not> l_done_closed q \<and> l_master q = m \<and> l_sorted q = [] \<and> l_conn q = None \<and>
     l_status q = StaWait \<and> l_buffer q = makeBuffer \<and> l_counter q = k"

definition links_built :: "(nat \<Rightarrow> ksuid) \<Rightarrow> nat \<Rightarrow> LinkHub \<Rightarrow> LinkHub \<Rightarrow> bool" where
  "links_built fresh k h h' \<longleftrightarrow>
     lh_wf h' \<and> lh_next h' = lh_next h + k \<and>
     (\<forall>i<k. gm_get (lh_links h') (fresh i) = Some (lh_next h + i) \<and>
        link_built (fresh 0) (if i = 0 then k else 0) (lh_heap h' (lh_next h + i))) \<and>
     (\<forall>j. j \<notin> fresh ` {..<k} \<longrightarrow> gm_get (lh_links h') j = gm_get (lh_links h) j) \<and>
     (\<forall>r<lh_next h. lh_heap h' r = lh_heap h r)"

definition proxies_built ::
  "(nat \<Rightarrow> ksuid) \<Rightarrow> ref \<Rightarrow> nat \<Rightarrow> 'c WebSocketClient list \<Rightarrow> 'c WebSocketClient list \<Rightarrow> bool" where
  "proxies_built fresh t k wscs wscs' \<longleftrightarrow> length wscs' = length wscs \<and>
     (\<forall>i<length wscs. wscs' ! i = (if i < k then NewProxy (fresh i) t (wscs ! i) else wscs ! i))"

lemma proxies_built_conn: "proxies_built fresh t k wscs wscs' \<Longrightarrow> i < length wscs \<Longrightarrow> wc_conn (wscs' ! i) = wc_conn (wscs ! i)"
  by (auto simp: proxies_built_def NewProxy_def)

lemma proxies_built_next:
  "proxies_built fresh t k wscs wscs' \<Longrightarrow> k < length wscs \<Longrightarrow>
     proxies_built fresh t (Suc k) wscs (wscs'[k := NewProxy (fresh k) t (wscs' ! k)])"
  by (auto simp: proxies_built_def nth_list_update less_Suc_eq)

lemma queue_built_next:
  assumes "queue_built fresh ctx wscs k q" and "\<forall>i<k. fresh i \<noteq> fresh k"
    and "w = NewWebSocketWriterWithMutex (wc_conn (wscs ! k)) (fresh k) (Some (ctx k))"
  shows "queue_built fresh ctx wscs (Suc k) (q\<lparr>q_writers := gm_put (fresh k) w (q_writers q)\<rparr>)"
proof -
  have none: "gm_get (q_writers q) (fresh k) = None"
    using assms(1,2) unfolding queue_built_def by metis
  then have "gm_len (gm_put (fresh k) w (q_writers q)) = Suc k"
    using assms(1) by (simp add: queue_built_def queue_live_def gm_len_put)
  moreover have "\<forall>i<Suc k. gm_get (gm_put (fresh k) w (q_writers q)) (fresh i) =
      Some (NewWebSocketWriterWithMutex (wc_conn (wscs ! i)) (fresh i) (Some (ctx i)))"
    using assms by (simp add: queue_built_def less_Suc_eq)
  moreover have "\<forall>j. gm_get (gm_put (fresh k) w (q_writers q)) j \<noteq> None \<longrightarrow> (\<exists>i<Suc k. j = fresh i)"
    using assms(1) by (simp add: queue_built_def) (metis less_Suc_eq)
  ultimately show ?thesis using assms(1) by (simp add: queue_built_def queue_live_def)
qed

lemma queues_built_next:
  assumes "queues_built fresh ctx wscs k h h1" and "\<forall>i<k. fresh i \<noteq> fresh k"
    and "QueueHub_Get (fresh 0) h = None"
    and "QueueHub_Add now (fresh 0) (fresh k)
      (NewWebSocketWriterWithMutex (wc_conn (wscs ! k)) (fresh k) (Some (ctx k))) h1 = (h2, go)"
  shows "go = None \<and> queues_built fresh ctx wscs (Suc k) h h2"
proof (cases "k = 0")
  case True
  with assms(1,3,4) show ?thesis
    by (auto simp: queues_built_def queue_built_def QueueHub_Add_def QueueHub_trySend_def QueueHub_Get_def
        queue_live_def NewQueue_def qh_create_def gm_len_put Let_def split: if_splits)
next
  case False
  define w where "w = NewWebSocketWriterWithMutex (wc_conn (wscs ! k)) (fresh k) (Some (ctx k))"
  have b: "qh_queue h1 = gm_put (fresh 0) (qh_next h) (qh_queue h)" "qh_next h1 = Suc (qh_next h)"
      "queue_built fresh ctx wscs k (qh_heap h1 (qh_next h))" "\<forall>r. r \<noteq> qh_next h \<longrightarrow> qh_heap h1 r = qh_heap h r"
    using assms(1) False by (simp_all add: queues_built_def)
  have q: "queue_built fresh ctx wscs (Suc k)
      ((qh_heap h1 (qh_next h))\<lparr>q_writers := gm_put (fresh k) w (q_writers (qh_heap h1 (qh_next h)))\<rparr>)"
    using queue_built_next [OF b(3) assms(2) w_def] .
  have h2: "h2 = qh_update (qh_next h) (\<lambda>q. q\<lparr>q_writers := gm_put (fresh k) w (q_writers q)\<rparr>) h1"
    and go: "go = QueueHub_trySend (fresh 0) h2"
    using assms(4) b(1) by (auto simp: QueueHub_Add_def w_def Let_def)
  have "go = None"
    using q b(1) unfolding go h2 by (simp add: QueueHub_trySend_def queue_built_def del: gm_len_0)
  moreover have "queues_built fresh ctx wscs (Suc k) h h2"
    using q b by (simp add: queues_built_def h2)
  ultimately show ?thesis ..
qed

lemma links_built_next:
  assumes "links_built fresh k h h1" and "\<forall>i<k. fresh i \<noteq> fresh k"
    and "LinkHub_Get (fresh k) h = None"
    and "LinkHub_Add now (fresh k) (fresh 0) h1 = (h2, go)"
  shows "go = None \<and> links_built fresh (Suc k) h h2"
proof -
  have wf: "lh_wf h2" using lh_wf_Add [of h1 now "fresh k" "fresh 0"] assms(1,4) by (simp add: links_built_def)
  have "fresh k \<notin> fresh ` {..<k}" using assms(2) by auto
  then have none: "gm_get (lh_links h1) (fresh k) = None"
    using assms(1,3) by (simp add: links_built_def LinkHub_Get_def)
  show ?thesis
  proof (cases "k = 0")
    case True
    with assms none wf show ?thesis
      by (auto simp: links_built_def link_built_def LinkHub_Add_def LinkHub_trySend_def lh_ensure_def
          NewLink_def link_live_def Let_def split: if_splits)
  next
    case False
    with assms(2) have ne: "fresh 0 \<noteq> fresh k" by simp
    from False assms(1) have m: "gm_get (lh_links h1) (fresh 0) = Some (lh_next h)" by (auto simp: links_built_def)
    have h2: "h2 = lh_update (lh_next h) (\<lambda>q. q\<lparr>l_counter := Suc (l_counter q)\<rparr>) (lh_create now (fresh k) (fresh 0) h1)"
      and go: "go = (if l_conn (lh_heap h2 (lh_next h)) \<noteq> None \<and>
        l_counter (lh_heap h2 (lh_next h)) = length (l_sorted (lh_heap h2 (lh_next h))) then Some (lh_next h) else None)"
      using assms(4) m none ne by (auto simp: LinkHub_Add_def LinkHub_trySend_def lh_ensure_def Let_def split: if_splits)
    have nxt: "lh_next h1 = lh_next h + k" "link_built (fresh 0) k (lh_heap h1 (lh_next h))"
      using assms(1) False by (auto simp: links_built_def)
    then have "go = None" using go h2 False by (auto simp: link_built_def)
    moreover have "\<forall>i<Suc k. gm_get (lh_links h2) (fresh i) = Some (lh_next h + i) \<and>
        link_built (fresh 0) (if i = 0 then Suc k else 0) (lh_heap h2 (lh_next h + i))"
      using nxt False assms(1,2)
      by (auto simp: h2 links_built_def link_built_def less_Suc_eq NewLink_def link_live_def)
    moreover have "\<forall>j. j \<notin> fresh ` {..<Suc k} \<longrightarrow> gm_get (lh_links h2) j = gm_get (lh_links h) j"
      using assms(1) by (auto simp: h2 links_built_def lessThan_Suc)
    moreover have "\<forall>r<lh_next h. lh_heap h2 r = lh_heap h r" "lh_next h2 = lh_next h + Suc k"
      using assms(1) nxt(1) by (simp_all add: h2 links_built_def)
    ultimately show ?thesis using wf by (simp add: links_built_def)
  qed
qed

section \<open>One round of the loop\<close>

text \<open>What the announcements of \<open>k\<close> connections make of the network.\<close>

primrec said ::
  "('c, 'net) wsjson_write \<Rightarrow> (ksuid \<Rightarrow> string) \<Rightarrow> (nat \<Rightarrow> ksuid) \<Rightarrow> 'c WebSocketClient list \<Rightarrow> nat \<Rightarrow> 'net \<Rightarrow> 'net" where
  "said wsw kstr fresh wscs 0 net = net"
| "said wsw kstr fresh wscs (Suc k) net =
     snd (SayID wsw kstr (fresh k) (wc_conn (wscs ! k)) (fresh 0) (said wsw kstr fresh wscs k net))"

definition round_built ::
  "('c, 'net) wsjson_write \<Rightarrow> (ksuid \<Rightarrow> string) \<Rightarrow> (nat \<Rightarrow> ksuid) \<Rightarrow> (nat \<Rightarrow> ref) \<Rightarrow> ref \<Rightarrow> nat \<Rightarrow>
     ('c, 'net) client_world \<Rightarrow> ('c, 'net) client_world \<Rightarrow> bool" where
  "round_built wsw kstr fresh ctx t k s s' \<longleftrightarrow>
     queues_built fresh ctx (cw_wscs s) k (cw_queues s) (cw_queues s') \<and>
     links_built fresh k (cw_links s) (cw_links s') \<and> proxies_built fresh t k (cw_wscs s) (cw_wscs s') \<and>
     cw_removed s' = cw_removed s \<and> cw_go s' = cw_go s \<and> wv_cancelled (cw_ws s') = wv_cancelled (cw_ws s) \<and>
     wv_net (cw_ws s') = said wsw kstr fresh (cw_wscs s) k (wv_net (cw_ws s))"

abbreviation ids_upto :: "(nat \<Rightarrow> ksuid) \<Rightarrow> nat \<Rightarrow> ksuid list" where
  "ids_upto fresh k \<equiv> map fresh [0..<k]"

lemma hd_ids_upto [simp]: "hd (ids_upto fresh (Suc k)) = fresh 0"
  by (simp add: hd_conv_nth nth_append del: upt_Suc)

text \<open>What the loop asks of the identifiers: \<open>ksuid.New()\<close> draws new ones.\<close>

definition ids_fresh :: "(nat \<Rightarrow> ksuid) \<Rightarrow> ('c, 'net) client_world \<Rightarrow> bool" where
  "ids_fresh fresh s \<longleftrightarrow>
     (\<forall>i<length (cw_wscs s). \<forall>j<i. fresh j \<noteq> fresh i) \<and>
     (\<forall>i<length (cw_wscs s). LinkHub_Get (fresh i) (cw_links s) = None) \<and>
     QueueHub_Get (fresh 0) (cw_queues s) = None"

lemma trans_round:
  assumes "round_built wsw kstr fresh ctx t k s s1" and "k < length (cw_wscs s)" and "ids_fresh fresh s"
    and "fsd = None \<or> fsd = Some []"
  shows "\<exists>s2. trans_run wsw kstr fresh ctx t conn fsd addr [e1, e2, e3, e4] (TdProxy (ids_upto fresh k), s1) =
      Some (TdProxy (ids_upto fresh (Suc k)), s2) \<and> round_built wsw kstr fresh ctx t (Suc k) s s2"
proof -
  let ?ids = "ids_upto fresh (Suc k)"
  have new: "\<forall>i<k. fresh i \<noteq> fresh k" using assms(2,3) by (simp add: ids_fresh_def)
  have len: "length (cw_wscs s1) = length (cw_wscs s)"
    using assms(1) by (simp add: round_built_def proxies_built_def)
  define wscs where "wscs = (cw_wscs s1)[k := NewProxy (fresh k) t (cw_wscs s1 ! k)]"
  have built: "proxies_built fresh t (Suc k) (cw_wscs s) wscs"
    unfolding wscs_def using assms(1,2) by (intro proxies_built_next) (simp_all add: round_built_def)
  then have conn: "wc_conn (wscs ! k) = wc_conn (cw_wscs s ! k)" using assms(2) by (rule proxies_built_conn)
  define net where "net = snd (SayID wsw kstr (fresh k) (wc_conn (wscs ! k)) (fresh 0) (wv_net (cw_ws s1)))"
  define w where "w = NewWebSocketWriterWithMutex (wc_conn (cw_wscs s ! k)) (fresh k) (Some (ctx k))"
  obtain qh go where q: "QueueHub_Add (fst e3) (fresh 0) (fresh k) w (cw_queues s1) = (qh, go)" by fastforce
  have qb: "go = None \<and> queues_built fresh ctx (cw_wscs s) (Suc k) (cw_queues s) qh"
    using assms(1,3) new q unfolding w_def
    by (intro queues_built_next) (simp_all add: round_built_def ids_fresh_def)
  obtain lh go' where l: "LinkHub_Add (fst e4) (fresh k) (fresh 0) (cw_links s1) = (lh, go')" by fastforce
  have lb: "go' = None \<and> links_built fresh (Suc k) (cw_links s) lh"
    using assms(1-3) new l by (intro links_built_next) (auto simp: round_built_def ids_fresh_def)
  define s2 where "s2 = s1\<lparr>cw_wscs := wscs, cw_ws := (cw_ws s1)\<lparr>wv_net := net\<rparr>, cw_queues := qh, cw_links := lh\<rparr>"
  have ids: "last ?ids = fresh k" "length ?ids - 1 = k" "ids_upto fresh k @ [fresh k] = ?ids" by simp_all
  have "trans_run wsw kstr fresh ctx t conn fsd addr [e1, e2, e3, e4] (TdProxy (ids_upto fresh k), s1) =
      Some (TdProxy ?ids, s2)"
    using assms(2,4) len q l qb lb conn
    by (auto simp: trans_act_def ids s2_def net_def wscs_def [symmetric] w_def Let_def
        simp del: upt_Suc map_append)
  moreover have "round_built wsw kstr fresh ctx t (Suc k) s s2"
    using assms(1) qb lb built conn by (simp add: round_built_def s2_def net_def)
  ultimately show ?thesis by blast
qed

lemma round_built_0: "lh_wf (cw_links s) \<Longrightarrow> round_built wsw kstr fresh ctx t 0 s s"
  by (simp add: round_built_def queues_built_def links_built_def proxies_built_def)

lemma trans_rounds:
  assumes "k \<le> length (cw_wscs s)" and "ids_fresh fresh s" and "fsd = None \<or> fsd = Some []"
    and "lh_wf (cw_links s)" and "length es = 4 * k"
  shows "\<exists>s'. trans_run wsw kstr fresh ctx t conn fsd addr es (TdProxy [], s) =
      Some (TdProxy (ids_upto fresh k), s') \<and> round_built wsw kstr fresh ctx t k s s'"
  using assms(1,5)
proof (induction k arbitrary: es)
  case 0
  with round_built_0 [OF assms(4)] show ?case by simp
next
  case (Suc k)
  define es1 where "es1 = take (4 * k) es"
  have "length (drop (4 * k) es) = 4" using Suc.prems(2) by simp
  then obtain e1 e2 e3 e4 where "drop (4 * k) es = [e1, e2, e3, e4]"
    by (auto simp: length_Suc_conv numeral_eq_Suc simp del: length_drop)
  then have es: "es = es1 @ [e1, e2, e3, e4]" unfolding es1_def by (metis append_take_drop_id)
  from Suc.IH [of es1] Suc.prems obtain s1 where
    "trans_run wsw kstr fresh ctx t conn fsd addr es1 (TdProxy [], s) = Some (TdProxy (ids_upto fresh k), s1)"
    "round_built wsw kstr fresh ctx t k s s1" by (auto simp: es1_def)
  with trans_round [OF this(2) _ assms(2,3), of conn addr e1 e2 e3 e4] Suc.prems(1)
  show ?case by (simp add: es run_events_append del: run_events.simps upt_Suc)
qed

lemma queues_built_wf:
  assumes "queues_built fresh ctx wscs k h h'" and "qh_wf h"
  shows "qh_wf h'"
proof (cases "k = 0")
  case True
  with assms show ?thesis by (simp add: queues_built_def)
next
  case False
  have "qh_heap h' r = qh_heap h r" if "gm_get (qh_queue h) m = Some r" for m r
    using qh_wfD [OF assms(2) that] False assms(1) by (simp add: queues_built_def)
  with False assms show ?thesis
    unfolding qh_wf_def queues_built_def queue_built_def by (auto simp: less_Suc_eq)
qed

text \<open>The loop as a whole: all rounds and the step that leaves it.\<close>

lemma trans_loop:
  assumes "cw_wscs s \<noteq> []" and "ids_fresh fresh s" and "fsd = None \<or> fsd = Some []" and "lh_wf (cw_links s)"
    and "length es = 4 * length (cw_wscs s) + Suc k"
  obtains fs s' where "length fs = k" "round_built wsw kstr fresh ctx t (length (cw_wscs s)) s s'"
    "trans_run wsw kstr fresh ctx t conn fsd addr es (TdProxy [], s) =
       trans_run wsw kstr fresh ctx t conn fsd addr fs (TdEstablish (ids_upto fresh (length (cw_wscs s))), s')"
proof -
  let ?n = "length (cw_wscs s)"
  obtain e fs where fs: "drop (4 * ?n) es = e # fs" "length fs = k"
    using assms(5) by (cases "drop (4 * ?n) es") (auto simp: drop_eq_Nil dest!: arg_cong [where f = length])
  have es: "es = take (4 * ?n) es @ e # fs" using fs(1) by (metis append_take_drop_id)
  have "length (take (4 * ?n) es) = 4 * ?n" using assms(5) by simp
  from trans_rounds [OF le_refl assms(2-4) this, of wsw kstr ctx t conn addr] obtain s' where
    s': "trans_run wsw kstr fresh ctx t conn fsd addr (take (4 * ?n) es) (TdProxy [], s) =
        Some (TdProxy (ids_upto fresh ?n), s')" "round_built wsw kstr fresh ctx t ?n s s'" by blast
  moreover have "length (cw_wscs s') = ?n" using s'(2) by (simp add: round_built_def proxies_built_def)
  then have "trans_run wsw kstr fresh ctx t conn fsd addr es (TdProxy [], s) =
      trans_run wsw kstr fresh ctx t conn fsd addr fs (TdEstablish (ids_upto fresh ?n), s')"
    using assms(1,3) by (subst es) (auto simp: run_events_append s'(1) trans_act_def)
  ultimately show ?thesis using that fs(2) by blast
qed

section \<open>The deferred calls\<close>

text \<open>What the deferred calls of the WebSockets leave: the proxies gone, the contexts cancelled.\<close>

definition proxies_dropped :: "ksuid list \<Rightarrow> 'c WebSocketClient list \<Rightarrow> 'c WebSocketClient list \<Rightarrow> bool" where
  "proxies_dropped srt wscs wscs' \<longleftrightarrow> length wscs' = length wscs \<and>
     (\<forall>i<length wscs. wscs' ! i = (if i < length srt then RemoveProxy (srt ! i) (wscs ! i) else wscs ! i))"

lemma trans_deferred:
  assumes "length srt \<le> length (cw_wscs s)" and "length es = Suc (2 * length srt)"
  shows "\<exists>s'. trans_run wsw kstr fresh ctx t conn fsd addr es (TdCloseWriter srt err, s) = Some (TdEnd err, s') \<and>
    proxies_dropped srt (cw_wscs s) (cw_wscs s') \<and>
    set (wv_cancelled (cw_ws s')) = ctx ` {..<length srt} \<union> set (wv_cancelled (cw_ws s)) \<and>
    cw_queues s' = cw_queues s \<and> cw_links s' = cw_links s \<and> cw_removed s' = cw_removed s \<and> cw_go s' = cw_go s"
  using assms
proof (induction srt arbitrary: s es rule: rev_induct)
  case Nil
  then obtain e where "es = [e]" by (auto simp: length_Suc_conv)
  then show ?case by (auto simp: trans_act_def proxies_dropped_def)
next
  case (snoc i srt)
  from snoc.prems(2) obtain e1 e2 es1 where es: "es = e1 # e2 # es1" "length es1 = Suc (2 * length srt)"
    by (auto simp: length_Suc_conv)
  let ?n = "length srt"
  define s1 where "s1 = s\<lparr>cw_ws := CloseWsWriter (ctx ?n) (cw_ws s),
    cw_wscs := (cw_wscs s)[?n := RemoveProxy i (cw_wscs s ! ?n)]\<rparr>"
  have run: "trans_run wsw kstr fresh ctx t conn fsd addr es (TdCloseWriter (srt @ [i]) err, s) =
      trans_run wsw kstr fresh ctx t conn fsd addr es1 (TdCloseWriter srt err, s1)"
    by (simp add: es trans_act_def s1_def Let_def)
  have "length srt \<le> length (cw_wscs s1)" using snoc.prems(1) by (simp add: s1_def)
  from snoc.IH [OF this es(2)] obtain s' where s': "trans_run wsw kstr fresh ctx t conn fsd addr es1
      (TdCloseWriter srt err, s1) = Some (TdEnd err, s')" "proxies_dropped srt (cw_wscs s1) (cw_wscs s')"
      "set (wv_cancelled (cw_ws s')) = ctx ` {..<length srt} \<union> set (wv_cancelled (cw_ws s1))"
      "cw_queues s' = cw_queues s1 \<and> cw_links s' = cw_links s1 \<and> cw_removed s' = cw_removed s1 \<and> cw_go s' = cw_go s1"
    by blast
  have "proxies_dropped (srt @ [i]) (cw_wscs s) (cw_wscs s')"
    using s'(2) snoc.prems(1)
    by (auto simp: proxies_dropped_def s1_def nth_append less_Suc_eq nth_list_update)
  moreover have "set (wv_cancelled (cw_ws s')) = ctx ` {..<length (srt @ [i])} \<union> set (wv_cancelled (cw_ws s))"
    using s'(3) by (auto simp: s1_def CloseWsWriter_def lessThan_Suc)
  ultimately show ?case using s'(1,4) run by (auto simp: s1_def)
qed

text \<open>The local function \<open>remove\<close> on proper hubs.\<close>

lemma transfer_remove_result:
  assumes "qh_wf (cw_queues s)" and "lh_wf (cw_links s)" and "\<not> cw_removed s t"
    and "LinkHub_Get m (cw_links s) = Some oo"
  obtains qh lh where "transfer_remove t m s =
      Returns (s\<lparr>cw_removed := (cw_removed s)(t := True), cw_queues := qh, cw_links := lh\<rparr>)"
    "qh_wf qh" "\<And>j. QueueHub_Get j qh = (if j = m then None else QueueHub_Get j (cw_queues s))"
    "lh_wf lh" "\<And>j. LinkHub_Get j lh =
       (if j = m \<or> j \<in> set (l_sorted (lh_heap (cw_links s) oo)) then None else LinkHub_Get j (cw_links s))"
proof -
  obtain qh where "QueueHub_Remove m (cw_queues s) = Some qh" "qh_wf qh"
      "qh_queue qh = gm_del m (qh_queue (cw_queues s))"
    using QueueHub_Remove_wf [OF assms(1)] by blast
  moreover obtain lh where "LinkHub_RemoveAll m (cw_links s) = Some lh" "lh_wf lh"
      "\<forall>j. gm_get (lh_links lh) j = (if j = m \<or> j \<in> set (l_sorted (lh_heap (cw_links s) oo)) then None
         else gm_get (lh_links (cw_links s)) j)"
    using LinkHub_RemoveAll_wf [OF assms(2)] assms(4) unfolding LinkHub_Get_def by blast
  ultimately show ?thesis
    using assms(3) by (intro that [where qh = qh and lh = lh]) (simp_all add: transfer_remove_def QueueHub_Get_def LinkHub_Get_def)
qed

section \<open>A client with two WebSockets\<close>

definition two_lanes :: "(nat, nat lanes) client_world" where
  "two_lanes = \<lparr>cw_queues = NewQueueHub, cw_links = NewLinkHub,
     cw_wscs = map (\<lambda>c. \<lparr>wc_conn = c, wc_proxies = [], wc_cancel = None\<rparr>) [0, 1],
     cw_removed = (\<lambda>_. False), cw_ws = \<lparr>wv_net = (\<lambda>_. []), wv_cancelled = []\<rparr>, cw_go = []\<rparr>"

definition two_ids :: "nat \<Rightarrow> ksuid" where
  "two_ids i = (if i = 0 then 1 else 2)"

lemma two_lanes_sel [simp]:
  "cw_queues two_lanes = NewQueueHub" "cw_links two_lanes = NewLinkHub" "length (cw_wscs two_lanes) = 2"
  "cw_removed two_lanes t = False" "cw_go two_lanes = []" "cw_wscs two_lanes \<noteq> []"
  by (simp_all add: two_lanes_def)

lemma two_ids_fresh [simp]: "ids_fresh two_ids two_lanes"
  by (auto simp: ids_fresh_def two_ids_def LinkHub_Get_def QueueHub_Get_def less_2_cases_iff)

section \<open>Properties\<close>



text \<open>The start of a transfer, with everything it leaves behind.\<close>

lemma trans_start:
  assumes "cw_wscs s \<noteq> []" and "ids_fresh fresh s" and "fsd = None \<or> fsd = Some []" and "lh_wf (cw_links s)"
    and "\<forall>c d net. fst (wsw c d net) = None" and "length es = 4 * length (cw_wscs s) + 7"
    and "srt = ids_upto fresh (length (cw_wscs s))"
    and "q = qh_next (cw_queues s)" and "l = lh_next (cw_links s)"
  obtains s1 where "round_built wsw kstr fresh ctx t (length (cw_wscs s)) s s1"
    "trans_run wsw kstr fresh ctx t conn fsd addr es (TdProxy [], s) = Some (TdWait l srt,
       s1\<lparr>cw_ws := (cw_ws s1)\<lparr>wv_net := snd (Establish wsw kstr (fresh 0) (wc_conn (cw_wscs s ! 0)) fsd addr srt (wv_net (cw_ws s1)))\<rparr>,
         cw_queues := qh_update q (queue_SetSort srt) (cw_queues s1),
         cw_links := lh_update l (link_SetSort srt) (lh_update l (link_SetConn (Some conn)) (cw_links s1)),
         cw_go := cw_go s1 @ [GoQueueSend q, GoCopy q conn, GoLinkSend l]\<rparr>)"
    "gm_get (qh_queue (cw_queues s1)) (fresh 0) = Some q"
    "queue_built fresh ctx (cw_wscs s) (length (cw_wscs s)) (qh_heap (cw_queues s1) q)"
    "gm_get (lh_links (cw_links s1)) (fresh 0) = Some l"
    "link_built (fresh 0) (length (cw_wscs s)) (lh_heap (cw_links s1) l)"
proof -
  let ?n = "length (cw_wscs s)" and ?run = "trans_run wsw kstr fresh ctx t conn fsd addr"
  have "length es = 4 * ?n + Suc 6" using assms(6) by simp
  then obtain fs s1 where fs: "length fs = 6" and s1: "round_built wsw kstr fresh ctx t ?n s s1"
      "?run es (TdProxy [], s) = ?run fs (TdEstablish srt, s1)"
    unfolding assms(7) by (rule trans_loop [OF assms(1-4)])
  obtain e1 e2 e3 e4 e5 e6 where fs': "fs = [e1, e2, e3, e4, e5, e6]"
    using fs by (auto simp: length_Suc_conv numeral_eq_Suc)
  have n: "hd srt = fresh 0" "?n > 0" "wc_conn (cw_wscs s1 ! 0) = wc_conn (cw_wscs s ! 0)"
    using assms(1,7) s1(1) proxies_built_conn [of fresh t ?n "cw_wscs s" "cw_wscs s1" 0]
    by (simp_all add: hd_conv_nth round_built_def)
  have q: "gm_get (qh_queue (cw_queues s1)) (fresh 0) = Some q" "queue_built fresh ctx (cw_wscs s) ?n (qh_heap (cw_queues s1) q)"
    using s1(1) n(2) by (auto simp: round_built_def queues_built_def assms(8))
  have l: "gm_get (lh_links (cw_links s1)) (fresh 0) = Some l" "link_built (fresh 0) ?n (lh_heap (cw_links s1) l)"
    using s1(1) n(2) by (auto simp: round_built_def links_built_def assms(9))
  define net where "net = snd (Establish wsw kstr (fresh 0) (wc_conn (cw_wscs s ! 0)) fsd addr srt (wv_net (cw_ws s1)))"
  have ok: "Establish wsw kstr (fresh 0) (wc_conn (cw_wscs s ! 0)) fsd addr srt (wv_net (cw_ws s1)) = (None, net)"
    using assms(5) unfolding net_def Establish_def by (metis prod.collapse)
  show ?thesis
    by (rule that [OF s1(1) _ q l])
      (use n q(1) l(1) ok in \<open>simp add: s1(2) fs' trans_act_def QueueHub_Get_def LinkHub_Get_def\<close>)
qed

text \<open>
  C15. The start of a transfer, when no other goroutine touches the hubs meanwhile: \<open>transData\<close> comes to
  its \<open>Wait\<close> in four steps for each WebSocket and seven more. It is then registered on every
  WebSocket, its queue holds one writer for each of them, bound to that WebSocket, in the order the
  server was told, the master link knows the local connection, the same order and the number of
  connections, and exactly one sender, one copy loop and one receiver were started. Nothing else in
  the hubs has changed.
\<close>

theorem transData_starts:
  assumes "cw_wscs s \<noteq> []" and "ids_fresh fresh s" and "fsd = None \<or> fsd = Some []" and "lh_wf (cw_links s)"
    and "\<forall>c d net. fst (wsw c d net) = None" and "length es = 4 * length (cw_wscs s) + 7"
  defines "srt \<equiv> ids_upto fresh (length (cw_wscs s))"
  shows "\<exists>s' q l. trans_run wsw kstr fresh ctx t conn fsd addr es (TdProxy [], s) = Some (TdWait l srt, s') \<and>
    QueueHub_Get (fresh 0) (cw_queues s') = Some q \<and> LinkHub_Get (fresh 0) (cw_links s') = Some l \<and>
    (\<forall>i<length (cw_wscs s). GetProxyById (fresh i) (cw_wscs s' ! i) = Some t \<and>
       gm_get (q_writers (qh_heap (cw_queues s') q)) (fresh i) =
         Some (NewWebSocketWriterWithMutex (wc_conn (cw_wscs s ! i)) (fresh i) (Some (ctx i))) \<and>
       LinkHub_Get (fresh i) (cw_links s') \<noteq> None) \<and>
    q_sorted (qh_heap (cw_queues s') q) = srt \<and> l_sorted (lh_heap (cw_links s') l) = srt \<and>
    l_conn (lh_heap (cw_links s') l) = Some conn \<and> l_counter (lh_heap (cw_links s') l) = length srt \<and>
    cw_go s' = cw_go s @ [GoQueueSend q, GoCopy q conn, GoLinkSend l] \<and>
    (\<forall>j. j \<notin> set srt \<longrightarrow> QueueHub_Get j (cw_queues s') = QueueHub_Get j (cw_queues s) \<and>
       LinkHub_Get j (cw_links s') = LinkHub_Get j (cw_links s))"
proof -
  let ?n = "length (cw_wscs s)"
  have srt: "srt = ids_upto fresh (length (cw_wscs s))" by (simp add: srt_def)
  define q l where "q = qh_next (cw_queues s)" and "l = lh_next (cw_links s)"
  obtain s1 where s1: "round_built wsw kstr fresh ctx t ?n s s1"
      and run: "trans_run wsw kstr fresh ctx t conn fsd addr es (TdProxy [], s) = Some (TdWait l srt,
        s1\<lparr>cw_ws := (cw_ws s1)\<lparr>wv_net := snd (Establish wsw kstr (fresh 0) (wc_conn (cw_wscs s ! 0)) fsd addr srt (wv_net (cw_ws s1)))\<rparr>,
          cw_queues := qh_update q (queue_SetSort srt) (cw_queues s1),
          cw_links := lh_update l (link_SetSort srt) (lh_update l (link_SetConn (Some conn)) (cw_links s1)),
          cw_go := cw_go s1 @ [GoQueueSend q, GoCopy q conn, GoLinkSend l]\<rparr>)" (is "_ = Some (_, ?s')")
      and q: "gm_get (qh_queue (cw_queues s1)) (fresh 0) = Some q"
        "queue_built fresh ctx (cw_wscs s) ?n (qh_heap (cw_queues s1) q)"
      and l: "gm_get (lh_links (cw_links s1)) (fresh 0) = Some l" "link_built (fresh 0) ?n (lh_heap (cw_links s1) l)"
    by (rule trans_start [OF assms(1-6) srt q_def l_def])
  have n: "srt \<noteq> []" "hd srt = fresh 0" "length srt = ?n" "?n > 0"
    using assms(1) by (simp_all add: srt_def hd_conv_nth)
  have "\<forall>i<?n. gm_get (lh_links (cw_links s1)) (fresh i) \<noteq> None"
      "\<forall>j. j \<notin> set srt \<longrightarrow> gm_get (lh_links (cw_links s1)) j = gm_get (lh_links (cw_links s)) j"
      "\<forall>j. j \<noteq> fresh 0 \<longrightarrow> gm_get (qh_queue (cw_queues s1)) j = gm_get (qh_queue (cw_queues s)) j"
    using s1 n(4) by (auto simp: round_built_def links_built_def queues_built_def srt_def lessThan_atLeast0)
  moreover have "cw_go s1 = cw_go s" "proxies_built fresh t ?n (cw_wscs s) (cw_wscs s1)"
    using s1 by (simp_all add: round_built_def)
  moreover have "\<forall>j. j \<notin> set srt \<longrightarrow> j \<noteq> fresh 0" using n by (metis hd_in_set)
  ultimately show ?thesis
    using n q l run
    by (intro exI [of _ ?s'] exI [of _ q] exI [of _ l] conjI allI impI)
      (auto simp: QueueHub_Get_def LinkHub_Get_def queue_SetSort_def link_SetSort_def link_SetConn_def
        queue_built_def link_built_def proxies_built_def NewProxy_def GetProxyById_def)
qed

theorem transData_starts_witness:
  "\<exists>s' q l. trans_run lanes_Write kstr0 two_ids Suc 0 7 None ''a:80'' (replicate 15 (0, False)) (TdProxy [], two_lanes) =
      Some (TdWait l [1, 2], s') \<and> cw_go s' = [GoQueueSend q, GoCopy q 7, GoLinkSend l]"
proof -
  have ids: "ids_upto two_ids (length (cw_wscs two_lanes)) = [1, 2]"
    by (simp add: two_ids_def upt_rec numeral_eq_Suc)
  have "\<forall>(c :: nat) d net. fst (lanes_Write c d net) = None" by (simp add: lanes_Write_def)
  then obtain s' q l where "trans_run lanes_Write kstr0 two_ids Suc 0 7 None ''a:80'' (replicate 15 (0, False))
      (TdProxy [], two_lanes) = Some (TdWait l [1, 2], s')"
      "cw_go s' = cw_go two_lanes @ [GoQueueSend q, GoCopy q 7, GoLinkSend l]"
    using transData_starts [of two_lanes two_ids None lanes_Write "replicate 15 (0, False)" kstr0 Suc 0 7 "''a:80''",
        unfolded ids] by (auto simp del: run_events.simps)
  then show ?thesis by (intro exI [of _ s'] exI [of _ q] exI [of _ l]) simp
qed

text \<open>
  C36. When the establish message cannot be sent, \<open>transData\<close> returns the error, but it has not yet told
  the master link its order, so the deferred \<open>RemoveAll\<close> finds only the master: the links of all
  other connections stay in the hub although their proxies are gone. No other code removes them
  (\<open>TimeoutClose\<close> is never called).
\<close>

theorem failed_establish_leaks_links:
  assumes "cw_wscs s \<noteq> []" and "ids_fresh fresh s" and "fsd = None \<or> fsd = Some []"
    and "lh_wf (cw_links s)" and "qh_wf (cw_queues s)" and "\<not> cw_removed s t"
    and "\<forall>net. fst (Establish wsw kstr (fresh 0) (wc_conn (cw_wscs s ! 0)) fsd addr
      (ids_upto fresh (length (cw_wscs s))) net) = Some e"
    and "length es = 6 * length (cw_wscs s) + 4"
  shows "\<exists>s'. trans_run wsw kstr fresh ctx t conn fsd addr es (TdProxy [], s) = Some (TdEnd (Some e), s') \<and>
    LinkHub_Get (fresh 0) (cw_links s') = None \<and>
    (\<forall>i. 0 < i \<longrightarrow> i < length (cw_wscs s) \<longrightarrow>
       LinkHub_Get (fresh i) (cw_links s') \<noteq> None \<and> GetProxyById (fresh i) (cw_wscs s' ! i) = None)"
proof -
  let ?n = "length (cw_wscs s)" and ?run = "trans_run wsw kstr fresh ctx t conn fsd addr"
  let ?srt = "ids_upto fresh ?n"
  have "length es = 4 * ?n + Suc (2 * ?n + 3)" using assms(8) by simp
  then obtain fs s1 where fs: "length fs = 2 * ?n + 3" and s1: "round_built wsw kstr fresh ctx t ?n s s1"
      "?run es (TdProxy [], s) = ?run fs (TdEstablish ?srt, s1)"
    by (rule trans_loop [OF assms(1-4)])
  obtain e1 e2 gs where gs: "fs = e1 # e2 # gs" "length gs = Suc (2 * length ?srt)"
    using fs by (auto simp: length_Suc_conv numeral_eq_Suc)
  have n: "hd ?srt = fresh 0" "length (cw_wscs s1) = ?n" "?n > 0" "wc_conn (cw_wscs s1 ! 0) = wc_conn (cw_wscs s ! 0)"
    using assms(1) s1(1) proxies_built_conn [of fresh t ?n "cw_wscs s" "cw_wscs s1" 0]
    by (simp_all add: hd_conv_nth round_built_def proxies_built_def)
  define net where "net = snd (Establish wsw kstr (fresh 0) (wc_conn (cw_wscs s ! 0)) fsd addr ?srt (wv_net (cw_ws s1)))"
  define s2 where "s2 = s1\<lparr>cw_ws := (cw_ws s1)\<lparr>wv_net := net\<rparr>\<rparr>"
  have fail: "Establish wsw kstr (fresh 0) (wc_conn (cw_wscs s ! 0)) fsd addr ?srt (wv_net (cw_ws s1)) = (Some e, net)"
    using assms(7) unfolding net_def by (metis prod.collapse)
  define oo where "oo = lh_next (cw_links s)"
  have l: "\<forall>i<?n. LinkHub_Get (fresh i) (cw_links s2) \<noteq> None" "LinkHub_Get (fresh 0) (cw_links s2) = Some oo"
      "l_sorted (lh_heap (cw_links s2) oo) = []" "lh_wf (cw_links s2)" "qh_wf (cw_queues s2)" "\<not> cw_removed s2 t"
    using s1(1) n(3) assms(5,6) queues_built_wf
    by (auto simp: s2_def round_built_def links_built_def link_built_def LinkHub_Get_def oo_def)
  obtain qh lh where rem: "transfer_remove t (fresh 0) s2 =
        Returns (s2\<lparr>cw_removed := (cw_removed s2)(t := True), cw_queues := qh, cw_links := lh\<rparr>)"
      and "qh_wf qh" "\<And>j. QueueHub_Get j qh = (if j = fresh 0 then None else QueueHub_Get j (cw_queues s2))" "lh_wf lh"
      and lh: "\<And>j. LinkHub_Get j lh = (if j = fresh 0 \<or> j \<in> set (l_sorted (lh_heap (cw_links s2) oo)) then None
        else LinkHub_Get j (cw_links s2))"
    by (rule transfer_remove_result [OF l(5,4,6,2)], rule that)
  define s3 where "s3 = s2\<lparr>cw_removed := (cw_removed s2)(t := True), cw_queues := qh, cw_links := lh\<rparr>"
  have "length ?srt \<le> length (cw_wscs s3)" using n(2) by (simp add: s3_def s2_def)
  from trans_deferred [OF this gs(2), of wsw kstr fresh ctx t conn fsd addr "Some e"] obtain s' where
    s': "?run gs (TdCloseWriter ?srt (Some e), s3) = Some (TdEnd (Some e), s')"
      "proxies_dropped ?srt (cw_wscs s3) (cw_wscs s')" "cw_links s' = cw_links s3" by blast
  have "?run es (TdProxy [], s) = Some (TdEnd (Some e), s')"
    using s'(1) fail rem n(1,4) by (simp add: s1(2) gs(1) trans_act_def s2_def [symmetric] s3_def [symmetric])
  moreover have "fresh i \<noteq> fresh 0" if "0 < i" "i < ?n" for i using assms(2) that unfolding ids_fresh_def by metis
  ultimately show ?thesis
    using l(1,3) lh s'(2,3) n(2)
    by (intro exI [of _ s']) (auto simp: s3_def s2_def proxies_dropped_def wsc_proxies.get_remove)
qed

theorem failed_establish_leaks_links_witness:
  "\<exists>s'. trans_run (\<lambda>c v net. (Some EOF, net)) kstr0 two_ids Suc 0 7 None ''a:80'' (replicate 16 (0, False))
      (TdProxy [], two_lanes) = Some (TdEnd (Some EOF), s') \<and>
    LinkHub_Get 1 (cw_links s') = None \<and> LinkHub_Get 2 (cw_links s') \<noteq> None"
proof -
  obtain s' where "trans_run (\<lambda>c v net. (Some EOF, net)) kstr0 two_ids Suc 0 7 None ''a:80'' (replicate 16 (0, False))
      (TdProxy [], two_lanes) = Some (TdEnd (Some EOF), s')" "LinkHub_Get (two_ids 0) (cw_links s') = None"
      "\<forall>i. 0 < i \<longrightarrow> i < 2 \<longrightarrow> LinkHub_Get (two_ids i) (cw_links s') \<noteq> None"
    using failed_establish_leaks_links [of two_lanes two_ids None 0 "\<lambda>c v net. (Some EOF, net)" kstr0 "''a:80''" EOF
        "replicate 16 (0, False)" Suc 7]
    by (auto simp: Establish_def)
  then show ?thesis by (intro exI [of _ s']) (auto simp: two_ids_def dest: spec [of _ "1::nat"])
qed

end
