(* ===== verification/Deadlines.thy ===== *)
theory Deadlines
  imports Link
begin

text \<open>
  The read deadline of a target connection (\<open>pipe/func.go\<close>, \<open>pipe/dead.go\<close>, \<open>wss/proxy_server.go\<close>).
  \<open>establish\<close> shares one \<open>*dead\<close> between two goroutines: the copy loop, which sets the deadline
  \<open>time.Now().Add(d.Line)\<close> before every read, and the goroutine that waits for the end of the request
  and then stores a short line and sets the deadline at once, so that a read that is stuck ends.
  Both are given step by step, with the clock between their steps.
\<close>

section \<open>The two goroutines\<close>

record read_clock =
  rc_now :: instant
  rc_dead :: dead
  rc_deadline :: "instant option"

text \<open>The line the waiting goroutine stores.\<close>

definition shortLine :: duration where
  "shortLine = 5 * Second"

text \<open>\<open>time.Now().Add(d.Line)\<close> is evaluated before \<open>SetReadDeadline\<close> is called with the value.\<close>

datatype waiter_pc =
    WtGet
  | WtWait ref
  | WtLine
  | WtEval
  | WtSet instant
  | WtEnd

text \<open>\<open>h\<close> is \<open>serverLinkHub\<close>, \<open>waited\<close> says whether the receive in \<open>link.Wait()\<close> goes through.\<close>

fun link_waiter_step ::
  "LinkHub \<Rightarrow> bool \<Rightarrow> ksuid \<Rightarrow> waiter_pc \<times> read_clock \<Rightarrow> (waiter_pc \<times> read_clock) option" where
  "link_waiter_step h waited cid (WtGet, c) =
     Some (case LinkHub_Get cid h of None \<Rightarrow> WtLine | Some l \<Rightarrow> WtWait l, c)"
| "link_waiter_step h waited cid (WtWait l, c) = (if waited then Some (WtLine, c) else None)"
| "link_waiter_step h waited cid (WtLine, c) = Some (WtEval, c\<lparr>rc_dead := (rc_dead c)\<lparr>Line := shortLine\<rparr>\<rparr>)"
| "link_waiter_step h waited cid (WtEval, c) = Some (WtSet (rc_now c + Line (rc_dead c)), c)"
| "link_waiter_step h waited cid (WtSet x, c) = Some (WtEnd, c\<lparr>rc_deadline := Some x\<rparr>)"
| "link_waiter_step h waited cid (WtEnd, c) = None"

text \<open>
  The copy loop as far as the clock is concerned. What \<open>Read\<close> finds: data (the loop writes it and
  comes round), another end of the stream, or nothing yet; then the read goes on until the deadline
  has passed. \<open>RdRet\<close>: the loop was left.
\<close>

datatype arrival = ArrData | ArrEnd | ArrNothing

datatype reader_pc = RdEval | RdSet instant | RdRead | RdRet

fun read_round_step :: "arrival \<Rightarrow> reader_pc \<times> read_clock \<Rightarrow> (reader_pc \<times> read_clock) option" where
  "read_round_step a (RdEval, c) = Some (RdSet (rc_now c + Line (rc_dead c)), c)"
| "read_round_step a (RdSet x, c) = Some (RdRead, c\<lparr>rc_deadline := Some x\<rparr>)"
| "read_round_step a (RdRead, c) =
     (case a of
        ArrData \<Rightarrow> Some (RdEval, c)
      | ArrEnd \<Rightarrow> Some (RdRet, c)
      | ArrNothing \<Rightarrow>
          (case rc_deadline c of
             None \<Rightarrow> None
           | Some x \<Rightarrow> if x \<le> rc_now c then Some (RdRet, c) else None))"
| "read_round_step a (RdRet, c) = None"

section \<open>Together\<close>

record deadline_state =
  dl_clock :: read_clock
  dl_waiter :: waiter_pc
  dl_reader :: reader_pc

datatype deadline_event =
    DlTick duration
  | DlWaiter LinkHub bool
  | DlReader arrival

definition deadline_start :: "instant \<Rightarrow> deadline_state" where
  "deadline_start now =
     \<lparr>dl_clock = \<lparr>rc_now = now, rc_dead = NewDead, rc_deadline = None\<rparr>, dl_waiter = WtGet, dl_reader = RdEval\<rparr>"

fun deadline_act :: "ksuid \<Rightarrow> deadline_event \<Rightarrow> deadline_state \<Rightarrow> deadline_state option" where
  "deadline_act cid (DlTick d) s =
     (if 0 \<le> d then Some (s\<lparr>dl_clock := (dl_clock s)\<lparr>rc_now := rc_now (dl_clock s) + d\<rparr>\<rparr>) else None)"
| "deadline_act cid (DlWaiter h waited) s =
     map_option (\<lambda>(p, c). s\<lparr>dl_waiter := p, dl_clock := c\<rparr>) (link_waiter_step h waited cid (dl_waiter s, dl_clock s))"
| "deadline_act cid (DlReader a) s =
     map_option (\<lambda>(p, c). s\<lparr>dl_reader := p, dl_clock := c\<rparr>) (read_round_step a (dl_reader s, dl_clock s))"

definition deadline_step :: "ksuid \<Rightarrow> deadline_state \<Rightarrow> deadline_state \<Rightarrow> bool" where
  "deadline_step cid s t \<longleftrightarrow> (\<exists>e. deadline_act cid e s = Some t)"

section \<open>Invariants\<close>

text \<open>Every deadline there is, set or about to be, lies at most \<open>lim\<close> after now.\<close>

definition within :: "duration \<Rightarrow> deadline_state \<Rightarrow> bool" where
  "within lim s \<longleftrightarrow>
     (\<forall>x. rc_deadline (dl_clock s) = Some x \<or> dl_reader s = RdSet x \<or> dl_waiter s = WtSet x \<longrightarrow>
        x \<le> rc_now (dl_clock s) + lim) \<and>
     0 \<le> Line (rc_dead (dl_clock s)) \<and> Line (rc_dead (dl_clock s)) \<le> lim \<and>
     (dl_reader s = RdRead \<longrightarrow> rc_deadline (dl_clock s) \<noteq> None)"

lemma within_step:
  assumes "within lim s" and "deadline_step cid s t" and "shortLine \<le> lim"
  shows "within lim t"
proof -
  obtain e where e: "deadline_act cid e s = Some t" using assms(2) unfolding deadline_step_def by blast
  show ?thesis
  proof (cases e)
    case (DlTick d)
    with e assms(1) show ?thesis by (fastforce simp: within_def split: if_splits)
  next
    case (DlWaiter h waited)
    with e assms(1,3) show ?thesis
      by (cases "dl_waiter s") (auto simp: within_def shortLine_def Second_def split: if_splits option.splits)
  next
    case (DlReader a)
    with e assms(1) show ?thesis
      by (cases "dl_reader s"; cases a) (auto simp: within_def split: if_splits option.splits)
  qed
qed

interpretation long_deadline: machine "deadline_step cid" "within (5 * Minute)"
  for cid :: ksuid
  by unfold_locales (rule within_step, auto simp: shortLine_def Second_def Minute_def)

text \<open>After the waiting goroutine, unless the reader still carries a deadline from before.\<close>

definition shortened :: "deadline_state \<Rightarrow> bool" where
  "shortened s \<longleftrightarrow> dl_waiter s = WtEnd \<and> within shortLine s"

interpretation short_deadline: machine "deadline_step cid" shortened
  for cid :: ksuid
proof
  fix s t
  assume s: "shortened s" and t: "deadline_step cid s t"
  then have "within shortLine t" using within_step unfolding shortened_def by blast
  moreover have "dl_waiter t = WtEnd"
    using s t by (auto simp: shortened_def deadline_step_def split: if_splits elim!: deadline_act.elims
        dest!: sym [of "Some t"])
  ultimately show "shortened t" by (simp add: shortened_def)
qed

text \<open>Once the line was shortened it stays so, and the deadline the waiting goroutine carries is short.\<close>

definition waiter_short :: "deadline_state \<Rightarrow> bool" where
  "waiter_short s \<longleftrightarrow>
     (dl_waiter s \<in> {WtEval, WtEnd} \<longrightarrow> Line (rc_dead (dl_clock s)) = shortLine) \<and>
     (\<forall>x. dl_waiter s = WtSet x \<longrightarrow>
        Line (rc_dead (dl_clock s)) = shortLine \<and> x \<le> rc_now (dl_clock s) + shortLine)"

interpretation waiter_line: machine "deadline_step cid" waiter_short
  for cid :: ksuid
proof
  fix s t
  assume s: "waiter_short s" and "deadline_step cid s t"
  then obtain e where e: "deadline_act cid e s = Some t" unfolding deadline_step_def by blast
  show "waiter_short t"
  proof (cases e)
    case (DlTick d)
    with e s show ?thesis by (auto simp: waiter_short_def split: if_splits)
  next
    case (DlWaiter h waited)
    with e s show ?thesis
      by (cases "dl_waiter s") (auto simp: waiter_short_def split: if_splits option.splits)
  next
    case (DlReader a)
    with e s show ?thesis
      by (cases "dl_reader s"; cases a) (auto simp: waiter_short_def split: if_splits option.splits)
  qed
qed

lemma start_within: "within (5 * Minute) (deadline_start now) \<and> waiter_short (deadline_start now)"
  by (simp add: within_def waiter_short_def deadline_start_def NewDead_def Minute_def Second_def)

text \<open>A read with nothing to find, at a state whose deadlines lie within \<open>lim\<close>, ends when \<open>lim\<close> has passed.\<close>

lemma stuck_read_ends:
  assumes "within lim s" and "dl_reader s = RdRead" and "lim \<le> d"
  shows "\<exists>t. run_events (deadline_act cid) [DlTick d, DlReader ArrNothing] s = Some t \<and> dl_reader t = RdRet"
proof -
  obtain x where "rc_deadline (dl_clock s) = Some x" "x \<le> rc_now (dl_clock s) + lim"
    using assms(1,2) by (auto simp: within_def)
  moreover have "0 \<le> d" using assms(1,3) by (auto simp: within_def)
  ultimately show ?thesis using assms(2,3) by auto
qed

section \<open>Properties\<close>


lemma deadline_run: "run_events (deadline_act cid) es s = Some t \<Longrightarrow> reaches (deadline_step cid) s t"
  by (rule run_events_reaches [where act = "deadline_act cid"]) (auto simp: deadline_step_def)


text \<open>
  The short deadline can be lost: when the copy loop has computed its deadline before the waiting
  goroutine stores the short line, and sets it after that goroutine has set the short one, the
  waiting goroutine is through and the read goes on with the long deadline, five minutes from the
  start of the round.
\<close>

theorem short_deadline_overwritten:
  "\<exists>s. run_events (deadline_act cid)
      [DlReader ArrNothing, DlWaiter NewLinkHub True, DlWaiter NewLinkHub True, DlWaiter NewLinkHub True,
       DlWaiter NewLinkHub True, DlReader ArrNothing] (deadline_start now) = Some s \<and>
    dl_waiter s = WtEnd \<and> dl_reader s = RdRead \<and> Line (rc_dead (dl_clock s)) = 5 * Second \<and>
    rc_deadline (dl_clock s) = Some (rc_now (dl_clock s) + 5 * Minute)"
  by (simp add: deadline_start_def LinkHub_Get_def NewDead_def shortLine_def)

end
