(* ===== verification/Isolation.thy ===== *)
theory Isolation
  imports Server
begin

text \<open>
  All connections of all clients share the two hubs of the server (\<open>wss/proxy_server.go\<close>). What one
  message can reach there: the frame of every operation of the hubs, and of the handler.
\<close>

section \<open>Untouched entries\<close>

text \<open>The entry of \<open>j\<close> is still the same object, with the same contents.\<close>

definition link_kept :: "ksuid \<Rightarrow> LinkHub \<Rightarrow> LinkHub \<Rightarrow> bool" where
  "link_kept j h h' \<longleftrightarrow>
     (\<forall>l. LinkHub_Get j h = Some l \<longrightarrow> LinkHub_Get j h' = Some l \<and> lh_heap h' l = lh_heap h l)"

definition queue_kept :: "ksuid \<Rightarrow> 'w QueueHub \<Rightarrow> 'w QueueHub \<Rightarrow> bool" where
  "queue_kept j h h' \<longleftrightarrow>
     (\<forall>q. QueueHub_Get j h = Some q \<longrightarrow> QueueHub_Get j h' = Some q \<and> qh_heap h' q = qh_heap h q)"

lemma link_kept_refl [simp]: "link_kept j h h"
  by (simp add: link_kept_def)

lemma link_kept_trans: "link_kept j h h1 \<Longrightarrow> link_kept j h1 h2 \<Longrightarrow> link_kept j h h2"
  by (auto simp: link_kept_def)

lemma queue_kept_refl [simp]: "queue_kept j h h"
  by (simp add: queue_kept_def)

lemma queue_kept_trans: "queue_kept j h h1 \<Longrightarrow> queue_kept j h1 h2 \<Longrightarrow> queue_kept j h h2"
  by (auto simp: queue_kept_def)

section \<open>Links\<close>

lemma link_kept_update: "lh_wf h \<Longrightarrow> LinkHub_Get i h = Some r \<Longrightarrow> j \<noteq> i \<Longrightarrow> link_kept j h (lh_update r f h)"
  by (auto simp: link_kept_def LinkHub_Get_def dest: lh_wf_inj)

lemma link_kept_ensure: "lh_wf h \<Longrightarrow> link_kept j h (lh_ensure now i m h)"
  by (auto simp: link_kept_def LinkHub_Get_def lh_ensure_def dest: lh_wfD)

lemma link_kept_trySend: "lh_wf h \<Longrightarrow> j \<noteq> m \<Longrightarrow> link_kept j h (fst (LinkHub_trySend m conn h))"
  by (auto simp: LinkHub_trySend_def Let_def LinkHub_Get_def intro!: link_kept_update split: option.splits)

lemma link_kept_SetSort:
  assumes "lh_wf h" and "j \<noteq> m"
  shows "link_kept j h (LinkHub_SetSort now m srt h)"
proof -
  obtain r where r: "gm_get (lh_links (lh_ensure now m m h)) m = Some r" using lh_ensure_Some by blast
  have "link_kept j (lh_ensure now m m h) (lh_update r (link_SetSort srt) (lh_ensure now m m h))"
    using assms r by (intro link_kept_update [of _ m]) (auto simp: LinkHub_Get_def lh_wf_ensure)
  then show ?thesis
    using link_kept_trans [OF link_kept_ensure [OF assms(1)]] r by (simp add: LinkHub_SetSort_def Let_def)
qed

lemma link_kept_Add:
  assumes "lh_wf h" and "j \<noteq> m"
  shows "link_kept j h (fst (LinkHub_Add now i m h))"
proof -
  define h1 h2 where "h1 = lh_ensure now m m h" and "h2 = lh_ensure now i m h1"
  have wf: "lh_wf h1" "lh_wf h2" using assms(1) by (simp_all add: h1_def h2_def lh_wf_ensure)
  obtain r where r: "gm_get (lh_links h1) m = Some r" unfolding h1_def using lh_ensure_Some by blast
  then have r2: "LinkHub_Get m h2 = Some r" unfolding h2_def LinkHub_Get_def by (rule lh_ensure_other)
  define h3 where "h3 = lh_update r (\<lambda>q. q\<lparr>l_counter := Suc (l_counter q)\<rparr>) h2"
  have "lh_wf h3" using wf(2) by (auto simp: h3_def link_live_def intro!: lh_wf_update)
  then have "link_kept j h3 (fst (LinkHub_trySend m None h3))" using assms(2) by (rule link_kept_trySend)
  moreover have "link_kept j h2 h3" unfolding h3_def using wf(2) r2 assms(2) by (rule link_kept_update)
  moreover have "link_kept j h h1" "link_kept j h1 h2"
    using assms(1) wf(1) by (simp_all add: h1_def h2_def link_kept_ensure)
  ultimately have "link_kept j h (fst (LinkHub_trySend m None h3))" by (blast intro: link_kept_trans)
  then show ?thesis using r by (simp add: LinkHub_Add_def Let_def h1_def h2_def h3_def)
qed

lemma link_kept_RemoveAll:
  assumes "lh_wf h" and "LinkHub_RemoveAll m h = Some h'" and "j \<noteq> m"
    and "\<forall>r. LinkHub_Get m h = Some r \<longrightarrow> j \<notin> set (l_sorted (lh_heap h r))"
  shows "link_kept j h h'"
proof (cases "gm_get (lh_links h) m")
  case None
  with assms(2) show ?thesis by (simp add: LinkHub_RemoveAll_def)
next
  case (Some r)
  let ?ids = "l_sorted (lh_heap h r)"
  obtain h1 where h1: "lh_drop_members m ?ids h = Some h1" "lh_drop m h1 = Some h'"
    using assms(2) Some by (auto simp: LinkHub_RemoveAll_def bind_eq_Some_conv)
  have "j \<notin> set ?ids" using assms(4) Some by (simp add: LinkHub_Get_def)
  then have "lh_wf h1" "link_kept j h h1"
    using lh_drop_members_wf [OF assms(1), of m ?ids] h1(1) by (auto simp: link_kept_def LinkHub_Get_def)
  moreover from this(1) have "link_kept j h1 h'"
    using lh_drop_wf [of h1 m] h1(2) assms(3) by (auto simp: link_kept_def LinkHub_Get_def)
  ultimately show ?thesis by (blast intro: link_kept_trans)
qed

lemma link_kept_deliver:
  "lh_wf h \<Longrightarrow> deliver timer i b h = Some h' \<Longrightarrow> j \<noteq> i \<Longrightarrow> link_kept j h h'"
  by (auto simp: deliver_def intro!: link_kept_update split: option.splits)

section \<open>Queues\<close>

lemma queue_kept_update: "qh_wf h \<Longrightarrow> QueueHub_Get i h = Some r \<Longrightarrow> j \<noteq> i \<Longrightarrow> queue_kept j h (qh_update r f h)"
  by (auto simp: queue_kept_def QueueHub_Get_def dest: qh_wf_inj)

lemma queue_kept_ensure: "qh_wf h \<Longrightarrow> queue_kept j h (qh_ensure now m h)"
  by (auto simp: queue_kept_def QueueHub_Get_def qh_ensure_def dest: qh_wfD)

lemma queue_kept_Add:
  assumes "qh_wf h" and "j \<noteq> m"
  shows "queue_kept j h (fst (QueueHub_Add now m i w h))"
proof -
  obtain r where r: "gm_get (qh_queue (qh_ensure now m h)) m = Some r" using qh_ensure_Some by blast
  have "queue_kept j (qh_ensure now m h)
      (qh_update r (\<lambda>q. q\<lparr>q_writers := gm_put i w (q_writers q)\<rparr>) (qh_ensure now m h))"
    using assms r by (intro queue_kept_update [of _ m]) (auto simp: QueueHub_Get_def qh_wf_ensure)
  then show ?thesis
    using queue_kept_trans [OF queue_kept_ensure [OF assms(1)]] by (simp add: QueueHub_Add_ensure [OF r] Let_def)
qed

lemma queue_kept_SetSort:
  assumes "qh_wf h" and "j \<noteq> m"
  shows "queue_kept j h (QueueHub_SetSort now m srt h)"
proof -
  obtain r where r: "gm_get (qh_queue (qh_ensure now m h)) m = Some r" using qh_ensure_Some by blast
  have "queue_kept j (qh_ensure now m h) (qh_update r (queue_SetSort srt) (qh_ensure now m h))"
    using assms r by (intro queue_kept_update [of _ m]) (auto simp: QueueHub_Get_def qh_wf_ensure)
  then show ?thesis
    using queue_kept_trans [OF queue_kept_ensure [OF assms(1)]] by (simp add: QueueHub_SetSort_ensure [OF r])
qed

lemma queue_kept_Remove:
  "qh_wf h \<Longrightarrow> QueueHub_Remove m h = Some h' \<Longrightarrow> j \<noteq> m \<Longrightarrow> queue_kept j h h'"
  using QueueHub_Remove_wf [of h m] by (auto simp: queue_kept_def QueueHub_Get_def)

section \<open>The handlers\<close>

lemma kept_Close:
  assumes "server_wf sv" and "Hub_CloseProxyConn cid hub sv = Returns sv'" and "j \<noteq> cid"
    and "\<forall>r. LinkHub_Get cid (sv_links sv) = Some r \<longrightarrow> j \<notin> set (l_sorted (lh_heap (sv_links sv) r))"
  shows "link_kept j (sv_links sv) (sv_links sv') \<and> queue_kept j (sv_queues sv) (sv_queues sv')"
  using assms
  by (auto simp: Hub_CloseProxyConn_def DefaultProxyEst_Close_def server_wf_def or_panic_def
      split: option.splits if_splits intro: link_kept_RemoveAll queue_kept_Remove)

lemma kept_Hi:
  assumes "server_wf sv" and "dispatchHi kparse now hub cid d sv = Returns (r, sv')"
    and "dec_masterID kparse d \<noteq> Some j"
  shows "link_kept j (sv_links sv) (sv_links sv') \<and> queue_kept j (sv_queues sv) (sv_queues sv')"
proof (cases "dec_masterID kparse d")
  case None
  with assms(2) show ?thesis by (simp add: dispatchHi_def)
next
  case (Some m)
  obtain qh go where q: "QueueHub_Add now m cid (NewWebSocketWriter (hub_ws hub) cid None) (sv_queues sv) = (qh, go)"
    by fastforce
  obtain lh go' where l: "LinkHub_Add now cid m (sv_links sv) = (lh, go')" by fastforce
  have "j \<noteq> m" using assms(3) Some by auto
  then have "link_kept j (sv_links sv) lh" "queue_kept j (sv_queues sv) qh"
    using assms(1) link_kept_Add [of "sv_links sv" j m now cid] queue_kept_Add [of "sv_queues sv" j m now cid] q l
    by (auto simp: server_wf_def) (metis fst_conv)+
  with assms(2) Some q l show ?thesis by (auto simp: dispatchHi_def)
qed

lemma kept_Est:
  assumes "server_wf sv" and "dispatchEst kparse now cid d sv = Returns (r, sv')" and "j \<noteq> cid"
  shows "link_kept j (sv_links sv) (sv_links sv') \<and> queue_kept j (sv_queues sv) (sv_queues sv')"
  using assms
  by (auto simp: dispatchEst_def server_wf_def split: option.splits intro!: link_kept_SetSort queue_kept_SetSort)

lemma kept_Data:
  assumes "server_wf sv" and "dispatchData timer cid d sv = Returns (r, sv')" and "j \<noteq> cid"
  shows "link_kept j (sv_links sv) (sv_links sv') \<and> queue_kept j (sv_queues sv) (sv_queues sv')"
  using assms
  by (auto simp: dispatchData_def server_wf_def or_block_def split: option.splits if_splits
      intro: link_kept_deliver)

section \<open>Properties\<close>

text \<open>
  C11. The connections on a server do not disturb each other: whatever a message with identifier \<open>cid\<close>
  is, the link and the queue of another identifier \<open>j\<close> stay in the hubs with their contents, unless
  the message is a greeting that names \<open>j\<close> as its master, or the close of a transfer whose order
  lists \<open>j\<close>.
\<close>

theorem dispatch_isolated:
  assumes "server_wf sv" and "Option.bind doc dec_message = Some m" and "kparse (rm_Id m) = Some cid"
    and "dispatchMessage kparse now timer hub msgType doc sv = Returns (r, sv')" and "j \<noteq> cid"
    and "rm_Type m = WsTpHi \<longrightarrow> dec_masterID kparse (rm_Data m) \<noteq> Some j"
    and "rm_Type m = WsTpClose \<longrightarrow>
      (\<forall>l. LinkHub_Get cid (sv_links sv) = Some l \<longrightarrow> j \<notin> set (l_sorted (lh_heap (sv_links sv) l)))"
  shows "link_kept j (sv_links sv) (sv_links sv') \<and> queue_kept j (sv_queues sv) (sv_queues sv')"
proof (cases "msgType = MessageText")
  case False
  with assms(4) show ?thesis by (simp add: dispatchMessage_def)
next
  case True
  have d: "dispatchDataMessage kparse now timer hub doc sv = Returns (r, sv')"
    using assms(4) True by (simp add: dispatchMessage_def)
  consider (beat) "rm_Type m = WsTpBeats" | (close) "rm_Type m = WsTpClose" | (hi) "rm_Type m = WsTpHi"
    | (est) "rm_Type m = WsTpEst" | (data) "rm_Type m = WsTpData"
    | (other) "rm_Type m \<notin> {WsTpBeats, WsTpClose, WsTpHi, WsTpEst, WsTpData}" by blast
  then show ?thesis
  proof cases
    case close
    obtain sv1 where sv1: "Hub_CloseProxyConn cid hub sv = Returns sv1"
      using Hub_CloseProxyConn_wf [OF assms(1)] by blast
    with close d assms(2,3) have "sv1 = sv'" by (auto simp: dispatchDataMessage_def WsTp_defs)
    with kept_Close [OF assms(1) sv1 assms(5)] close assms(7) show ?thesis by simp
  next
    case hi
    with d assms(2,3) have "dispatchHi kparse now hub cid (rm_Data m) sv = Returns (r, sv')"
      by (simp add: dispatchDataMessage_def WsTp_defs)
    with kept_Hi assms(1,6) hi show ?thesis by blast
  next
    case est
    with d assms(2,3) have "dispatchEst kparse now cid (rm_Data m) sv = Returns (r, sv')"
      by (simp add: dispatchDataMessage_def WsTp_defs)
    with kept_Est assms(1,5) show ?thesis by blast
  next
    case data
    with d assms(2,3) have "dispatchData timer cid (rm_Data m) sv = Returns (r, sv')"
      by (simp add: dispatchDataMessage_def WsTp_defs)
    with kept_Data assms(1,5) show ?thesis by blast
  qed (use d assms(2,3) in \<open>simp_all add: dispatchDataMessage_def\<close>)
qed

theorem dispatch_isolated_witness:
  "let sv = new_server\<lparr>sv_links := fst (LinkHub_Add 0 2 2 NewLinkHub)\<rparr>
   in \<exists>sv'. dispatchMessage kparse0 0 False \<lparr>hub_id = 0, hub_ws = (), hub_connPool = []\<rparr> MessageText
        (Some (enc_message kstr0 (est_message kstr0 1 None ''a:80'' [1]))) sv = Returns (None, sv') \<and>
      LinkHub_Get 2 (sv_links sv') = Some 0"
proof -
  let ?sv = "new_server\<lparr>sv_links := fst (LinkHub_Add 0 2 2 NewLinkHub)\<rparr> :: unit server"
  let ?hub = "\<lparr>hub_id = 0, hub_ws = (), hub_connPool = []\<rparr>"
  let ?doc = "Some (enc_message kstr0 (est_message kstr0 1 None ''a:80'' [1]))"
  obtain m where m: "Option.bind ?doc dec_message = Some m" "rm_Id m = kstr0 1" "rm_Type m = WsTpEst"
    by (simp add: dec_enc_message est_message_def)
  obtain sv' where d: "dispatchMessage kparse0 0 False ?hub MessageText ?doc ?sv = Returns (None, sv')"
    by (simp add: dispatchMessage_def dispatch_est)
  have wf: "server_wf ?sv" by (simp add: server_wf_def new_server_def lh_wf_Add)
  have "link_kept 2 (sv_links ?sv) (sv_links sv') \<and> queue_kept 2 (sv_queues ?sv) (sv_queues sv')"
    by (rule dispatch_isolated [OF wf m(1) _ d, of 1]) (use m in \<open>simp_all add: kparse0_def kstr0_def WsTp_defs\<close>)
  moreover have "LinkHub_Get 2 (sv_links ?sv) = Some 0"
    by (simp add: LinkHub_Add_def LinkHub_trySend_def LinkHub_Get_def lh_ensure_def Let_def)
  ultimately show ?thesis using d by (simp add: Let_def link_kept_def)
qed

end
