(* ===== verification/Wire_Types.thy ===== *)
theory Wire_Types
  imports Server Heart_Beat
begin

text \<open>
  The messages between client and server as a type discipline. \<open>well_typed\<close> lists the messages of the
  protocol (\<open>wss/ws_datatypes.go\<close>) with their payloads; everything the client puts on a WebSocket is
  one of them (\<open>wss/proxy_client.go\<close>, \<open>wss/websocket_client.go\<close>, \<open>wss/concurrent_websocket.go\<close>,
  \<open>wss/heart_beat.go\<close>, \<open>wss/wssocks_client.go\<close>), and the handler of the server takes every one of them
  without an error. In the other direction the receive loop of the client is safe on whatever comes.
\<close>

section \<open>Well-typed documents\<close>

inductive well_typed :: "(ksuid \<Rightarrow> string) \<Rightarrow> WebSocketMessage \<Rightarrow> bool" for kstr where
  typed_hi: "well_typed kstr (hi_message kstr pid masterID)"
| typed_est: "well_typed kstr (est_message kstr pid fsd addr srt)"
| typed_data: "tag \<in> {TagData, TagEOF} \<Longrightarrow> well_typed kstr (data_message kstr pid tag d)"
| typed_finish: "well_typed kstr (finish_message kstr pid)"
| typed_beat: "well_typed kstr (beat_message kstr)"

definition typed_doc :: "(ksuid \<Rightarrow> string) \<Rightarrow> json \<Rightarrow> bool" where
  "typed_doc kstr v \<longleftrightarrow> (\<exists>m. v = enc_message kstr m \<and> well_typed kstr m)"

definition typed_lanes :: "(ksuid \<Rightarrow> string) \<Rightarrow> 'c lanes \<Rightarrow> bool" where
  "typed_lanes kstr net \<longleftrightarrow> (\<forall>c. \<forall>v\<in>set (net c). typed_doc kstr v)"

lemma typed_write:
  "well_typed kstr m \<Longrightarrow> typed_lanes kstr net \<Longrightarrow>
     typed_lanes kstr (snd (lanes_Write c (enc_message kstr m) net))"
  by (auto simp: typed_lanes_def lanes_Write_def typed_doc_def)

lemma typed_WriteProxyMessage:
  "tag \<in> {TagData, TagEOF} \<Longrightarrow> typed_lanes kstr net \<Longrightarrow>
     typed_lanes kstr (snd (WriteProxyMessage lanes_Write kstr c pid tag d net))"
  unfolding WriteProxyMessage_def by (intro typed_write typed_data)

section \<open>Everything that sends\<close>

lemma typed_SayID: "typed_lanes kstr net \<Longrightarrow> typed_lanes kstr (snd (SayID lanes_Write kstr pid c m net))"
  unfolding SayID_def by (intro typed_write typed_hi)

lemma typed_Establish:
  "typed_lanes kstr net \<Longrightarrow> typed_lanes kstr (snd (Establish lanes_Write kstr pid c fsd addr srt net))"
  unfolding Establish_def by (intro typed_write typed_est)

lemma typed_TellClose: "typed_lanes kstr net \<Longrightarrow> typed_lanes kstr (snd (TellClose lanes_Write kstr c pid net))"
  unfolding TellClose_def by (intro typed_write typed_finish)

lemma typed_copy_end:
  "typed_lanes kstr net \<Longrightarrow> typed_lanes kstr (copy_request_end lanes_Write kstr wsc pid err net)"
  by (simp add: copy_request_end_def typed_TellClose)

lemma typed_Write:
  assumes "wsWriter_Write lanes_Write kstr w d s = Some (r, s')" and "typed_lanes kstr (wv_net s)"
  shows "typed_lanes kstr (wv_net s')"
  using assms typed_WriteProxyMessage [of TagData kstr "wv_net s" "wr_WSC w" "wr_Id w" d]
  by (auto simp: wsWriter_Write_def split: if_splits prod.splits option.splits)

lemma typed_WriteEOF:
  assumes "wsWriter_WriteEOF lanes_Write kstr w s = Some s'" and "typed_lanes kstr (wv_net s)"
  shows "typed_lanes kstr (wv_net s')"
  using assms typed_WriteProxyMessage [of TagEOF kstr "wv_net s" "wr_WSC w" "wr_Id w" "[]"]
  by (auto simp: wsWriter_WriteEOF_def split: if_splits)

lemma typed_beat_all: "typed_lanes kstr net \<Longrightarrow> typed_lanes kstr (snd (beat_all lanes_Write kstr ws err net))"
proof (induction ws arbitrary: err net)
  case (Cons w ws)
  obtain e net' where w: "lanes_Write (wc_conn w) (enc_message kstr (beat_message kstr)) net = (e, net')" by fastforce
  with typed_write [OF typed_beat Cons.prems, of "wc_conn w"] have "typed_lanes kstr net'" by simp
  with Cons.IH w show ?case by simp
qed simp

lemma typed_HeartBeat:
  "typed_lanes kstr net \<Longrightarrow> typed_lanes kstr (snd (HeartBeat_Start lanes_Write kstr hb evs net))"
proof (induction evs arbitrary: net)
  case (Cons ev evs)
  then show ?case
    using typed_beat_all [OF Cons.prems, of "hb_wsc hb" None]
    by (cases ev) (auto split: prod.split option.split)
qed simp

lemma typed_transData:
  assumes "transData_step lanes_Write kstr fresh ctx now waited t conn fsd addr (pc, s) = Some (pc', s')"
    and "typed_lanes kstr (wv_net (cw_ws s))"
  shows "typed_lanes kstr (wv_net (cw_ws s'))"
proof (cases pc)
  case (TdHi srt)
  with assms show ?thesis by (auto intro: typed_SayID)
next
  case (TdEstablish srt)
  with assms show ?thesis
    using typed_Establish [of kstr "wv_net (cw_ws s)" "hd srt" "wc_conn (cw_wscs s ! 0)" fsd addr srt]
    by (auto simp: Let_def split: prod.splits)
next
  case (TdRemove srt err)
  with assms show ?thesis
    by (auto simp: transfer_remove_def or_panic_def split: outcome.splits option.splits if_splits)
qed (use assms in \<open>auto simp: Let_def CloseWsWriter_def split: if_splits prod.splits\<close>)

section \<open>Everything the client sends\<close>

text \<open>One call of the client that may put documents on its WebSockets.\<close>

inductive client_sends :: "(ksuid \<Rightarrow> string) \<Rightarrow> 'c lanes \<Rightarrow> 'c lanes \<Rightarrow> bool" for kstr where
  sends_transData: "transData_step lanes_Write kstr fresh ctx now waited t conn fsd addr (pc, s) = Some (pc', s') \<Longrightarrow>
    client_sends kstr (wv_net (cw_ws s)) (wv_net (cw_ws s'))"
| sends_Write: "wsWriter_Write lanes_Write kstr w d s = Some (r, s') \<Longrightarrow> client_sends kstr (wv_net s) (wv_net s')"
| sends_WriteEOF: "wsWriter_WriteEOF lanes_Write kstr w s = Some s' \<Longrightarrow> client_sends kstr (wv_net s) (wv_net s')"
| sends_copy_end: "client_sends kstr net (copy_request_end lanes_Write kstr wsc pid err net)"
| sends_HeartBeat: "client_sends kstr net (snd (HeartBeat_Start lanes_Write kstr hb evs net))"

interpretation client_types: machine "client_sends kstr" "typed_lanes kstr"
  for kstr :: "ksuid \<Rightarrow> string"
  by unfold_locales
    (auto elim!: client_sends.cases intro: typed_transData typed_Write typed_WriteEOF typed_copy_end typed_HeartBeat)

lemma deliver_timer: "\<exists>h'. deliver True cid b h = Some h'"
  by (auto simp: deliver_def link_writeBuf_def split: option.split send_result.split)

lemma typed_accepted:
  assumes "well_typed kstr m" and "ksuid_codec kstr kparse" and "server_wf sv"
  shows "\<exists>sv'. dispatchDataMessage kparse now True hub (Some (enc_message kstr m)) sv = Returns (None, sv') \<and>
    server_wf sv'"
  using assms(1)
proof cases
  case (typed_hi pid masterID)
  have "dec_masterID kparse (Some (JStr (kstr masterID))) = Some masterID"
    using dec_masterID_enc [OF assms(2), of masterID] by simp
  then obtain sv' where "dispatchHi kparse now hub pid (Some (JStr (kstr masterID))) sv = Returns (None, sv')"
    by (cases "QueueHub_Add now masterID pid (NewWebSocketWriter (hub_ws hub) pid None) (sv_queues sv)";
        cases "LinkHub_Add now pid masterID (sv_links sv)") (auto simp: dispatchHi_def)
  with dispatchHi_wf [OF assms(3), of kparse now hub pid "Some (JStr (kstr masterID))"] typed_hi
  show ?thesis by (simp add: dispatch_hi [OF assms(2)])
next
  case (typed_est pid fsd addr srt)
  with assms(3) show ?thesis
    by (simp add: dispatch_est [OF assms(2)] server_wf_def qh_wf_SetSort lh_wf_SetSort)
next
  case (typed_data tag pid d)
  then have "- (2 ^ 63) \<le> tag" "tag < 2 ^ 63" by (auto simp: Tag_defs)
  moreover obtain h' where "deliver True pid (if tag = TagEOF then eof_buffer else data_buffer d) (sv_links sv) = Some h'"
    using deliver_timer by blast
  ultimately show ?thesis
    using typed_data assms(3) deliver_wf
    by (auto simp: dispatch_data [OF assms(2)] server_wf_def simp del: split_paired_Ex)
next
  case (typed_finish pid)
  with Hub_CloseProxyConn_wf [OF assms(3), of pid hub] show ?thesis by (auto simp: dispatch_finish [OF assms(2)])
next
  case typed_beat
  with assms(2,3) show ?thesis
    by (simp add: dispatchDataMessage_def dec_enc_message beat_message_def ksuid_codec_def)
qed

section \<open>Properties\<close>

text \<open>
  C12. Every document the client ever puts on a WebSocket, by any sequence of calls that send, has a type
  the server knows: the handler takes it in whatever state the server is in, reports no error and
  leaves the hubs well formed (a write to a full link takes until its timer fires).
\<close>

theorem client_messages_accepted:
  assumes "reaches (client_sends kstr) (\<lambda>_. []) net" and "v \<in> set (net c)"
    and "ksuid_codec kstr kparse" and "server_wf sv"
  shows "\<exists>sv'. dispatchMessage kparse now True hub MessageText (Some v) sv = Returns (None, sv') \<and> server_wf sv'"
proof -
  have "typed_lanes kstr net"
    using client_types.reaches_inv [OF assms(1)] by (simp add: typed_lanes_def)
  with assms(2) obtain m where "v = enc_message kstr m" "well_typed kstr m"
    by (auto simp: typed_lanes_def typed_doc_def)
  with typed_accepted [OF _ assms(3,4)] show ?thesis by (simp add: dispatchMessage_def)
qed

theorem client_messages_accepted_witness:
  "\<exists>sv'. dispatchMessage kparse0 0 True \<lparr>hub_id = 0, hub_ws = (), hub_connPool = []\<rparr> MessageText
      (Some (enc_message kstr0 (finish_message kstr0 3))) (new_server :: unit server) = Returns (None, sv')"
proof -
  let ?net = "copy_request_end lanes_Write kstr0 \<lparr>wc_conn = 0 :: nat, wc_proxies = [], wc_cancel = None\<rparr> 3
    (Some EOF) (\<lambda>_. [])"
  have "reaches (client_sends kstr0) (\<lambda>_. []) ?net" by (rule reaches_first, rule sends_copy_end, rule reaches_refl)
  moreover have "enc_message kstr0 (finish_message kstr0 3) \<in> set (?net 0)"
    by (simp add: copy_request_end_def TellClose_def lanes_Write_def)
  ultimately obtain sv' where "dispatchMessage kparse0 0 True \<lparr>hub_id = 0, hub_ws = (), hub_connPool = []\<rparr> MessageText
      (Some (enc_message kstr0 (finish_message kstr0 3))) (new_server :: unit server) = Returns (None, sv')"
    using client_messages_accepted [OF _ _ codec0 server_wf_new, of ?net "enc_message kstr0 (finish_message kstr0 3)" 0 0
        "\<lparr>hub_id = 0, hub_ws = (), hub_connPool = []\<rparr>"] by blast
  then show ?thesis ..
qed

text \<open>The hubs of a client are well formed.\<close>

definition client_wf :: "('c, 'net) client_world \<Rightarrow> bool" where
  "client_wf s \<longleftrightarrow> qh_wf (cw_queues s) \<and> lh_wf (cw_links s)"

lemma transfer_remove_wf: "client_wf s \<Longrightarrow> \<exists>s'. transfer_remove t m s = Returns s' \<and> client_wf s'"
  using QueueHub_Remove_wf [of "cw_queues s" m] LinkHub_RemoveAll_total [of "cw_links s" m]
  by (auto simp: transfer_remove_def client_wf_def)

lemma onData_wf: "lh_wf h \<Longrightarrow> onData timer cid d h = Some h' \<Longrightarrow> lh_wf h'"
  by (auto simp: onData_def link_Write_def link_WriteEOF_def split: option.splits if_splits
      intro!: lh_wf_update dest: link_writeBuf_live)

text \<open>
  C17. No message from the server, however malformed, makes a receive loop of the client panic, and every
  message it handles leaves queues and links well formed.
\<close>

theorem listen_never_panics:
  assumes "client_wf s"
  shows "outcome_ok (\<lambda>r. case r of Inl err \<Rightarrow> True | Inr s' \<Rightarrow> client_wf s')
    (ListenIncomeMsg_round kparse timer wsc received s)"
proof -
  have remove: "outcome_ok client_wf (transfer_remove t m s)" for t m
    using transfer_remove_wf [OF assms, of t m] by auto
  have data: "outcome_ok client_wf (bind_outcome (or_block (onData timer m d (cw_links s)))
      (\<lambda>lh. Returns (s\<lparr>cw_links := lh\<rparr>)))" for m d
    using assms onData_wf
    by (cases "onData timer m d (cw_links s)") (auto simp: or_block_def client_wf_def)
  have "outcome_ok client_wf (listen_dispatch kparse timer wsc doc s)" for doc
    unfolding listen_dispatch_def using assms remove data by (simp split: option.split)
  note dispatch = this
  show ?thesis
  proof (cases received)
    case (Inr doc)
    with dispatch [of doc] show ?thesis
      by (cases "listen_dispatch kparse timer wsc doc s") (simp_all add: ListenIncomeMsg_round_def)
  qed (simp add: ListenIncomeMsg_round_def)
qed

theorem listen_never_panics_witness:
  "outcome_ok (\<lambda>r. case r of Inl err \<Rightarrow> True | Inr s' \<Rightarrow> client_wf s')
    (ListenIncomeMsg_round kparse0 False \<lparr>wc_conn = (), wc_proxies = [(3, 0)], wc_cancel = None\<rparr>
      (Inr (Some (enc_message kstr0 (finish_message kstr0 3))))
      \<lparr>cw_queues = NewQueueHub, cw_links = NewLinkHub, cw_wscs = [], cw_removed = (\<lambda>_. False),
       cw_ws = \<lparr>wv_net = (), wv_cancelled = []\<rparr>, cw_go = []\<rparr>)"
  by (rule listen_never_panics) (simp add: client_wf_def)



end
