(* ===== verification/Win_Console.thy ===== *)
theory Win_Console
  imports "HOL-Library.Word" Prelude
begin

unbundle bit_operations_syntax

text \<open>
  Clearing lines on Windows (\<open>wss/term_view/clear_lines_windows.go\<close>). The three procedures of
  \<open>kernel32.dll\<close> are a parameter; \<open>console_ok\<close> states what their documentation says of them:
  positions are positions in the screen buffer, of which the window shows a part.
\<close>

section \<open>The structures\<close>

type_synonym short = "16 word"
type_synonym dword = "32 word"

record coord =
  co_x :: short
  co_y :: short

record smallRect =
  sr_left :: short
  sr_top :: short
  sr_right :: short
  sr_bottom :: short

record consoleScreenBufferInfo =
  sb_size :: coord
  sb_cursorPosition :: coord
  sb_attributes :: "16 word"
  sb_window :: smallRect
  sb_maximumWindowSize :: coord

definition zero_csbi :: consoleScreenBufferInfo where
  "zero_csbi =
     (let z = \<lparr>co_x = 0, co_y = 0\<rparr>
      in \<lparr>sb_size = z, sb_cursorPosition = z, sb_attributes = 0,
          sb_window = \<lparr>sr_left = 0, sr_top = 0, sr_right = 0, sr_bottom = 0\<rparr>, sb_maximumWindowSize = z\<rparr>)"

text \<open>A coordinate as the procedures take it: four bytes read from the structure, low half first.\<close>

definition coord_word :: "coord \<Rightarrow> dword" where
  "coord_word c = word_cat (co_y c) (co_x c)"

definition word_coord :: "dword \<Rightarrow> coord" where
  "word_coord v = \<lparr>co_x = ucast v, co_y = ucast (drop_bit 16 v)\<rparr>"

text \<open>
  The procedures over the state \<open>'d\<close> of the console. \<open>GetConsoleScreenBufferInfo\<close> fails with \<open>None\<close>;
  the structure then keeps its zero value.
\<close>

record 'd console_api =
  GetConsoleScreenBufferInfo :: "'d \<Rightarrow> consoleScreenBufferInfo option"
  SetConsoleCursorPosition :: "dword \<Rightarrow> 'd \<Rightarrow> 'd"
  FillConsoleOutputCharacter :: "char \<Rightarrow> dword \<Rightarrow> dword \<Rightarrow> 'd \<Rightarrow> 'd"

section \<open>clearLines\<close>

fun win_clear_loop :: "'d console_api \<Rightarrow> nat \<Rightarrow> consoleScreenBufferInfo \<Rightarrow> 'd \<Rightarrow> 'd" where
  "win_clear_loop api 0 csbi d = d"
| "win_clear_loop api (Suc lines) csbi d =
     (let pos = (sb_cursorPosition csbi)\<lparr>co_y := co_y (sb_cursorPosition csbi) - 1\<rparr>;
          d1 = SetConsoleCursorPosition api (coord_word pos) d;
          cursor = \<lparr>co_x = sr_left (sb_window csbi), co_y = sr_top (sb_window csbi) + co_y pos\<rparr>;
          count = (scast (co_x (sb_size csbi)) :: dword);
          d2 = FillConsoleOutputCharacter api CHR '' '' count (coord_word cursor) d1
      in win_clear_loop api lines (csbi\<lparr>sb_cursorPosition := pos\<rparr>) d2)"

definition win_clearLines :: "'d console_api \<Rightarrow> nat \<Rightarrow> 'd \<Rightarrow> 'd" where
  "win_clearLines api lines d =
     win_clear_loop api lines (case GetConsoleScreenBufferInfo api d of None \<Rightarrow> zero_csbi | Some i \<Rightarrow> i) d"

section \<open>What the documentation says\<close>

text \<open>
  \<open>row d y\<close> is row \<open>y\<close> of the screen buffer. Setting the cursor changes nothing else; filling a whole
  row from its first column with blanks blanks that row and changes nothing else.
\<close>

definition console_ok :: "'d console_api \<Rightarrow> ('d \<Rightarrow> consoleScreenBufferInfo) \<Rightarrow> ('d \<Rightarrow> nat \<Rightarrow> string) \<Rightarrow> bool" where
  "console_ok api info row \<longleftrightarrow>
     (\<forall>d. GetConsoleScreenBufferInfo api d = Some (info d)) \<and>
     (\<forall>v d. info (SetConsoleCursorPosition api v d) = (info d)\<lparr>sb_cursorPosition := word_coord v\<rparr> \<and>
        row (SetConsoleCursorPosition api v d) = row d) \<and>
     (\<forall>v d. co_x (word_coord v) = 0 \<longrightarrow>
        info (FillConsoleOutputCharacter api CHR '' '' (scast (co_x (sb_size (info d)))) v d) = info d \<and>
        row (FillConsoleOutputCharacter api CHR '' '' (scast (co_x (sb_size (info d)))) v d) =
          (row d)(unat (co_y (word_coord v)) := replicate (unat (co_x (sb_size (info d)))) CHR '' ''))"

lemma word_coord_word [simp]: "word_coord (coord_word c) = c"
proof -
  have "ucast (word_cat (co_y c) (co_x c) :: dword) = co_x c"
    by (rule bit_word_eqI) (simp add: bit_ucast_iff bit_word_cat_iff)
  moreover have "ucast (drop_bit 16 (word_cat (co_y c) (co_x c) :: dword)) = co_y c"
    by (rule bit_word_eqI) (auto simp: bit_ucast_iff bit_drop_bit_eq bit_word_cat_iff)
  ultimately show ?thesis by (simp add: word_coord_def coord_word_def)
qed

section \<open>The loop\<close>

abbreviation cursor_row :: "consoleScreenBufferInfo \<Rightarrow> nat" where
  "cursor_row i \<equiv> unat (co_y (sb_cursorPosition i))"

abbreviation window_top :: "consoleScreenBufferInfo \<Rightarrow> nat" where
  "window_top i \<equiv> unat (sr_top (sb_window i))"

definition blank_row :: "consoleScreenBufferInfo \<Rightarrow> string" where
  "blank_row i = replicate (unat (co_x (sb_size i))) CHR '' ''"

lemma unat_short_pred: "0 < unat (y :: short) \<Longrightarrow> unat (y - 1) = unat y - 1"
  by (metis unat_minus_one unat_gt_0)

lemma unat_add_short: "unat (a :: short) + unat b < 2 ^ 15 \<Longrightarrow> unat (a + b) = unat a + unat b"
  by (subst unat_add_lem [THEN iffD1]) simp_all

lemma console_ok_fill:
  "console_ok api info row \<Longrightarrow> co_x (word_coord v) = 0 \<Longrightarrow>
     info (FillConsoleOutputCharacter api CHR '' '' (scast (co_x (sb_size (info d)))) v d) = info d \<and>
     row (FillConsoleOutputCharacter api CHR '' '' (scast (co_x (sb_size (info d)))) v d) =
       (row d)(unat (co_y (word_coord v)) := replicate (unat (co_x (sb_size (info d)))) CHR '' '')"
  by (simp add: console_ok_def)

lemma win_clear_loop_rows:
  assumes "console_ok api info row" and "sr_left (sb_window (info d)) = 0"
    and "lines \<le> cursor_row (info d)" and "window_top (info d) + cursor_row (info d) < 2 ^ 15"
  shows "cursor_row (info (win_clear_loop api lines (info d) d)) = cursor_row (info d) - lines \<and>
    (\<forall>y. row (win_clear_loop api lines (info d) d) y =
       (if window_top (info d) + cursor_row (info d) \<le> y + lines \<and> y < window_top (info d) + cursor_row (info d)
        then blank_row (info d) else row d y))"
  using assms(2-4)
proof (induction lines arbitrary: d)
  case 0
  then show ?case by auto
next
  case (Suc lines)
  define pos where "pos = (sb_cursorPosition (info d))\<lparr>co_y := co_y (sb_cursorPosition (info d)) - 1\<rparr>"
  define d1 where "d1 = SetConsoleCursorPosition api (coord_word pos) d"
  define cur where "cur = \<lparr>co_x = sr_left (sb_window (info d)), co_y = sr_top (sb_window (info d)) + co_y pos\<rparr>"
  define d2 where "d2 = FillConsoleOutputCharacter api CHR '' '' (scast (co_x (sb_size (info d)))) (coord_word cur) d1"
  have d1: "info d1 = (info d)\<lparr>sb_cursorPosition := pos\<rparr>" "row d1 = row d"
    using assms(1) by (simp_all add: console_ok_def d1_def)
  then have size: "sb_size (info d1) = sb_size (info d)" by simp
  have x: "co_x (word_coord (coord_word cur)) = 0" using Suc.prems(1) by (simp add: cur_def)
  have "info d2 = info d1 \<and> row d2 = (row d1)(unat (co_y cur) := blank_row (info d))"
    using console_ok_fill [OF assms(1) x, of d1] by (simp add: d2_def size blank_row_def)
  with d1 have d2: "info d2 = (info d)\<lparr>sb_cursorPosition := pos\<rparr>" "row d2 = (row d)(unat (co_y cur) := blank_row (info d))"
    by simp_all
  have step: "win_clear_loop api (Suc lines) (info d) d = win_clear_loop api lines (info d2) d2"
    by (simp add: d2 Let_def) (simp add: d2_def d1_def cur_def pos_def)
  have y: "unat (co_y pos) = cursor_row (info d) - 1" using Suc.prems(2) by (simp add: pos_def unat_short_pred)
  then have cy: "unat (co_y cur) = window_top (info d) + cursor_row (info d) - 1"
    using Suc.prems(2,3) by (simp add: cur_def unat_add_short)
  have "sr_left (sb_window (info d2)) = 0" "lines \<le> cursor_row (info d2)"
      "window_top (info d2) + cursor_row (info d2) < 2 ^ 15"
    using Suc.prems y by (simp_all add: d2)
  from Suc.IH [OF this] show ?case
    unfolding step using y cy Suc.prems(2) by (auto simp: d2 blank_row_def)
qed

section \<open>Properties\<close>


text \<open>A console of two columns, as the documentation has it.\<close>

definition tiny_api :: "(consoleScreenBufferInfo \<times> (nat \<Rightarrow> string)) console_api" where
  "tiny_api =
     \<lparr>GetConsoleScreenBufferInfo = (\<lambda>d. Some (fst d)),
      SetConsoleCursorPosition = (\<lambda>v d. ((fst d)\<lparr>sb_cursorPosition := word_coord v\<rparr>, snd d)),
      FillConsoleOutputCharacter = (\<lambda>c n v d. (fst d, (snd d)(unat (co_y (word_coord v)) := replicate (unat (ucast n :: short)) c)))\<rparr>"

definition tiny_console :: "short \<Rightarrow> consoleScreenBufferInfo \<times> (nat \<Rightarrow> string)" where
  "tiny_console t = (zero_csbi\<lparr>sb_size := \<lparr>co_x = 2, co_y = 100\<rparr>, sb_cursorPosition := \<lparr>co_x = 0, co_y = 5\<rparr>,
     sb_window := \<lparr>sr_left = 0, sr_top = t, sr_right = 1, sr_bottom = t + 9\<rparr>\<rparr>, \<lambda>y. ''ab'')"

lemma tiny_ok: "console_ok tiny_api fst snd"
proof -
  have "ucast (scast (x :: short) :: dword) = x" for x
    by (rule bit_word_eqI) (simp add: bit_ucast_iff bit_signed_iff)
  then show ?thesis by (simp add: console_ok_def tiny_api_def)
qed


end
