(* ===== verification/Status_Page.thy ===== *)
theory Status_Page
  imports Web_Status
begin

text \<open>
  The page of the status site (\<open>status-web/src\<close>): what it shows for each answer of the server, as titles
  with texts. \<open>axios-hooks\<close>, which fetches the document, and the layout are not modelled: the state of
  the request is an argument. \<open>Status.ts\<close> declares the shape the page expects of the document.
\<close>

section \<open>Status.ts\<close>

text \<open>The types of the interface declarations.\<close>

datatype ts_type = TsString | TsNumber | TsBoolean | TsObject "(string \<times> ts_type) list"

fun has_type :: "ts_type \<Rightarrow> json \<Rightarrow> bool" where
  "has_type TsString (JStr s) = True"
| "has_type TsNumber (JNum n) = True"
| "has_type TsBoolean (JBool b) = True"
| "has_type (TsObject fs) (JObj kvs) = (\<forall>(k, t) \<in> set fs. has_type t (js_prop k (JObj kvs)))"
| "has_type _ _ = False"

definition ts_Version :: ts_type where
  "ts_Version = TsObject [(''version_str'', TsString), (''version_code'', TsNumber), (''compatible_version'', TsNumber)]"

definition ts_Info :: ts_type where
  "ts_Info = TsObject
     [(''version'', ts_Version), (''server_base_url'', TsString),
      (''socks5_enabled'', TsBoolean), (''socks5_disabled_reason'', TsString),
      (''http_enabled'', TsBoolean), (''http_disabled_reason'', TsString),
      (''ssl_enabled'', TsBoolean), (''ssl_disabled_reason'', TsString),
      (''conn_key_enable'', TsBoolean), (''conn_key_disabled_reason'', TsString)]"

definition ts_Statistics :: ts_type where
  "ts_Statistics = TsObject [(''up_time'', TsNumber), (''clients'', TsNumber), (''proxies'', TsNumber)]"

definition ts_WssosksStatus :: ts_type where
  "ts_WssosksStatus = TsObject [(''info'', ts_Info), (''statistics'', ts_Statistics)]"

section \<open>The components\<close>

text \<open>
  How React shows a value in a text: strings and numbers as they are, booleans and null not at all.
  The documents of the server have no other values there.
\<close>

fun js_text :: "json \<Rightarrow> string" where
  "js_text (JStr s) = s"
| "js_text (JNum n) = (if n < 0 then CHR ''-'' # Itoa (nat (- n)) else Itoa (nat n))"
| "js_text _ = []"

type_synonym rows = "(string \<times> string) list"

definition MoreVersionInfo :: "json \<Rightarrow> rows" where
  "MoreVersionInfo version =
     [(''Protocol Version: '', js_text (js_prop ''version_code'' version)),
      (''Compatible Protocol Version: '', js_text (js_prop ''compatible_version'' version))]"

text \<open>The last two items of the board switch on a property of the document and show its reason.\<close>

definition switch_text :: "json \<Rightarrow> json \<Rightarrow> string" where
  "switch_text enabled reason = (if truthy enabled then ''enabled'' else js_text reason)"

definition InfoBoard :: "string \<Rightarrow> string \<Rightarrow> json \<Rightarrow> rows" where
  "InfoBoard protocol host info =
     [(''Server Version'', js_text (js_prop ''version_str'' (js_prop ''version'' info)))]
     @ MoreVersionInfo (js_prop ''version'' info) @
     [(''Address'', server_addr protocol host info),
      (''Socks5 Proxy'', StatusItem (truthy (js_prop ''socks5_enabled'' info)) (js_text (js_prop ''socks5_disabled_reason'' info))),
      (''Http(s) Proxy'', StatusItem (truthy (js_prop ''http_enabled'' info)) (js_text (js_prop ''http_disabled_reason'' info))),
      (''Connection Key'', switch_text (js_prop ''conn_key_enable'' info) (js_prop ''conn_key_disabled_reason'' info)),
      (''SSL/TLS'', switch_text (js_prop ''ssl_enabled'' info) (js_prop ''ssl_disabled_reason'' info))]"

text \<open>
  The board counts on from the uptime it was first shown with: the timer adds one every second,
  \<open>ticks\<close> times so far.
\<close>

definition initial_uptime :: "json \<Rightarrow> nat" where
  "initial_uptime data = (case js_prop ''up_time'' data of JNum n \<Rightarrow> nat n | _ \<Rightarrow> 0)"

definition StatisticsBoard :: "nat \<Rightarrow> json \<Rightarrow> rows" where
  "StatisticsBoard ticks data =
     (let uptime = (Suc ^^ ticks) (initial_uptime data)
      in [(''Status'', ''In service''), (''Up Time'', upTimeString uptime),
          (''Clients'', js_text (js_prop ''clients'' data)), (''Proxy Connections'', js_text (js_prop ''proxies'' data)),
          (''Data Trans'', ''unknown TiB'')])"

section \<open>App\<close>

text \<open>The state of the request: the document, whether it is under way, the message of an error.\<close>

record axios_state =
  ax_data :: "json option"
  ax_loading :: bool
  ax_error :: "string option"

datatype content = Spinner | Alert string | Boards rows rows

definition App_request :: "string \<Rightarrow> string \<Rightarrow> string" where
  "App_request protocol host = protocol @ ''//'' @ host @ ''/api/status''"

definition App :: "string \<Rightarrow> string \<Rightarrow> nat \<Rightarrow> axios_state \<Rightarrow> content" where
  "App protocol host ticks ax =
     (if ax_loading ax then Spinner
      else case (ax_error ax, ax_data ax) of
        (Some message, _) \<Rightarrow> Alert message
      | (None, None) \<Rightarrow> Alert ''Error while loading server status.''
      | (None, Some data) \<Rightarrow>
          if truthy data
          then Boards (InfoBoard protocol host (js_prop ''info'' data)) (StatisticsBoard ticks (js_prop ''statistics'' data))
          else Alert ''Error while loading server status.'')"

section \<open>Properties\<close>

lemma enc_Status_props [simp]:
  "js_prop ''info'' (enc_Status st) = JObj
     [(''version'', JObj [(''version_str'', JStr (sn_VersionStr (si_Version (su_Info st)))),
        (''version_code'', JNum (sn_VersionCode (si_Version (su_Info st)))),
        (''compatible_version'', JNum (sn_ComVersion (si_Version (su_Info st))))]),
      (''server_base_url'', JStr (si_ServerBaseUrl (su_Info st))),
      (''socks5_enabled'', JBool (si_Socks5Enable (su_Info st))),
      (''socks5_disabled_reason'', JStr (si_Socks5DisableReason (su_Info st))),
      (''http_enabled'', JBool (si_HttpsEnable (su_Info st))),
      (''http_disabled_reason'', JStr (si_HttpsDisableReason (su_Info st))),
      (''ssl_enabled'', JBool (si_SSLEnable (su_Info st))),
      (''ssl_disabled_reason'', JStr (si_SSLDisableReason (su_Info st))),
      (''conn_key_enable'', JBool (si_ConnKeyEnable (su_Info st))),
      (''conn_key_disabled_reason'', JStr (si_ConnKeyDisableReason (su_Info st)))]"
  "js_prop ''statistics'' (enc_Status st) = JObj
     [(''up_time'', JNum (sx_UpTime (su_Statistics st))), (''clients'', JNum (int (sx_Clients (su_Statistics st)))),
      (''proxies'', JNum (int (sx_Proxies (su_Statistics st)))),
      (''queue_len'', JNum (int (sx_QueueLen (su_Statistics st)))),
      (''link_len'', JNum (int (sx_LinkLen (su_Statistics st))))]"
  "truthy (enc_Status st)"
  by (simp_all add: enc_Status_def Let_def)

text \<open>
  Every document of the status endpoint has the type the page declares for it.
\<close>

theorem status_document_typed:
  assumes "rs_body (status_ServeHTTP written now sv s) = Some doc"
  shows "has_type ts_WssosksStatus doc"
proof -
  have "doc = enc_Status (status_of now sv s)"
    using assms by (auto simp: status_ServeHTTP_def split: if_splits)
  moreover obtain kvs where "enc_Status (status_of now sv s) = JObj kvs" by (simp add: enc_Status_def Let_def)
  ultimately show ?thesis
    using enc_Status_props(1,2) [of "status_of now sv s"]
    by (simp add: ts_WssosksStatus_def ts_Info_def ts_Statistics_def ts_Version_def)
qed

theorem status_document_typed_witness:
  "has_type ts_WssosksStatus (the (rs_body (status_ServeHTTP True 0 (new_server :: unit server)
     (NewStatusHandle 0 [] True False ''/''))))"
  by (rule status_document_typed [of True 0 new_server "NewStatusHandle 0 [] True False ''/''"])
    (simp add: status_ServeHTTP_def)



end
