(* ===== verification/Byte_Pipe.thy ===== *)
theory Byte_Pipe
  imports Tunnel_Live
begin

text \<open>
  What a transfer promises, as a machine of three rules: a byte pipe takes bytes from its source,
  hands them to its target in the order it took them, and shuts the target once the source has
  ended and nothing is left inside. The transfer of \<open>Tunnel\<close>, with its queues, links, connections and
  goroutines, is simulated by it: no run of the transfer shows anything at its two ends that the
  pipe could not show.
\<close>

section \<open>The specification\<close>

text \<open>\<open>bp_ends\<close>: the source will report its end after the bytes of \<open>bp_todo\<close>.\<close>

record byte_pipe =
  bp_todo :: bytes
  bp_ends :: bool
  bp_inside :: bytes
  bp_done :: bytes
  bp_shut :: bool

definition new_pipe :: "bytes \<Rightarrow> bool \<Rightarrow> byte_pipe" where
  "new_pipe d ends = \<lparr>bp_todo = d, bp_ends = ends, bp_inside = [], bp_done = [], bp_shut = False\<rparr>"

inductive pipe_step :: "byte_pipe \<Rightarrow> byte_pipe \<Rightarrow> bool" where
  pipe_take: "bp_todo p = d @ rest \<Longrightarrow> pipe_step p (p\<lparr>bp_todo := rest, bp_inside := bp_inside p @ d\<rparr>)"
| pipe_give: "bp_inside p = d @ rest \<Longrightarrow> \<not> bp_shut p \<Longrightarrow>
     pipe_step p (p\<lparr>bp_inside := rest, bp_done := bp_done p @ d\<rparr>)"
| pipe_shut: "bp_todo p = [] \<Longrightarrow> bp_inside p = [] \<Longrightarrow> bp_ends p \<Longrightarrow> pipe_step p (p\<lparr>bp_shut := True\<rparr>)"

text \<open>What a pipe can ever show: a prefix of its source, and all of it before it shuts.\<close>

lemma pipe_step_total:
  "pipe_step p q \<Longrightarrow> bp_done q @ bp_inside q @ bp_todo q = bp_done p @ bp_inside p @ bp_todo p \<and> bp_ends q = bp_ends p \<and>
     (bp_shut q \<longrightarrow> bp_shut p \<and> bp_done q = bp_done p \<or> bp_inside q = [] \<and> bp_todo q = [] \<and> bp_ends q)"
  by (induction rule: pipe_step.induct) simp_all

lemma pipe_prefix:
  assumes "reaches pipe_step (new_pipe d ends) p"
  shows "bp_done p @ bp_inside p @ bp_todo p = d \<and> bp_ends p = ends \<and> (bp_shut p \<longrightarrow> bp_done p = d \<and> ends)"
proof -
  have "bp_done p @ bp_inside p @ bp_todo p = d \<and> bp_ends p = ends \<and> (bp_shut p \<longrightarrow> bp_done p = d \<and> ends)"
    if "reaches pipe_step s p" "s = new_pipe d ends" for s
    using that
  proof (induction rule: reaches.induct)
    case (reaches_refl s)
    then show ?case by (simp add: new_pipe_def)
  next
    case (reaches_step s p q)
    from reaches_step.IH [OF reaches_step.prems] pipe_step_total [OF reaches_step.hyps(2)] show ?case
      by (metis append_Nil2)
  qed
  with assms show ?thesis by blast
qed

section \<open>The two ends of a transfer\<close>

text \<open>What the source still has to yield: nothing once its end was read.\<close>

definition unread :: "'c tunnel \<Rightarrow> bytes" where
  "unread t = (if copy_fin (t_copy t) then [] else incoming (t_src t))"

text \<open>
  The pipe \<open>p\<close> stands for the state \<open>t\<close> of the transfer along \<open>rt\<close>; \<open>before\<close> is what the target had been
  sent when the transfer began.
\<close>

definition pipe_of ::
  "('c \<Rightarrow> ksuid \<Rightarrow> bool) \<Rightarrow> (ksuid \<Rightarrow> string) \<Rightarrow> 'c route \<Rightarrow> bytes \<Rightarrow> 'c tunnel \<Rightarrow> byte_pipe \<Rightarrow> bool" where
  "pipe_of accepts kstr rt before t p \<longleftrightarrow>
     tunnel_inv accepts kstr rt t \<and> bp_todo p = unread t \<and> bp_ends p = (rt_end rt \<noteq> None) \<and>
     tx (t_conns t (rt_target rt)) = before @ bp_done p \<and>
     rt_input rt = before @ bp_done p @ bp_inside p @ bp_todo p \<and>
     bp_shut p = wr_closed (t_conns t (rt_target rt)) \<and>
     (copy_fin (t_copy t) \<longrightarrow> rt_end rt \<noteq> None)"

lemma tunnel_flow:
  assumes "tunnel_inv accepts kstr rt t"
  obtains mid where "rt_input rt =
      tx (t_conns t (rt_target rt)) @ concat (map b_data (pending mid t)) @ unread t"
    "wr_closed (t_conns t (rt_target rt)) \<longleftrightarrow> copy_done (t_copy t) \<and> pending mid t = []"
proof -
  from assms obtain mid where "stream_ok rt mid t" "target_ok rt (t_lpc t) (t_conns t)"
    unfolding tunnel_inv_def by blast
  with that [of mid] show ?thesis
    by (auto simp: stream_ok_def flow_ok_def target_ok_def unread_def)
qed

lemma pipe_of_start:
  assumes "tunnel_inv accepts kstr rt t" and "\<not> copy_fin (t_copy t)"
    and "\<not> wr_closed (t_conns t (rt_target rt))"
    and "rt_input rt = tx (t_conns t (rt_target rt)) @ incoming (t_src t)"
  shows "pipe_of accepts kstr rt (tx (t_conns t (rt_target rt))) t
    (new_pipe (incoming (t_src t)) (rt_end rt \<noteq> None))"
  using assms by (simp add: pipe_of_def new_pipe_def unread_def)

section \<open>What each goroutine does at the two ends\<close>

lemma copy_unread:
  assumes "tunnel_inv accepts kstr rt t"
    and "CopyBuffer_step (queue_PW False) () (t_copy t, t_src t, t_q t) = Some (pc, src, q)"
  shows "\<exists>d. unread t = d @ unread (t\<lparr>t_copy := pc, t_src := src, t_q := q\<rparr>)"
    and "copy_fin pc \<Longrightarrow> copy_fin (t_copy t) \<or> rt_end rt \<noteq> None"
proof -
  obtain mid where i: "queue_ok rt (t_ws t) (t_qpc t) (t_q t)" "stream_ok rt mid t"
    using assms(1) unfolding tunnel_inv_def by blast
  have "(\<exists>d. unread t = d @ unread (t\<lparr>t_copy := pc, t_src := src, t_q := q\<rparr>)) \<and>
    (copy_fin pc \<longrightarrow> copy_fin (t_copy t) \<or> rt_end rt \<noteq> None)"
  proof (cases "t_copy t")
    case (CopyRead n)
    with assms(2) obtain buf er where r: "conn_Read bufSize (t_src t) = Some ((buf, er), src)"
        and pc: "pc = (if buf \<noteq> [] then CopyWrite buf er n else after_read er n)"
      by (auto split: option.splits)
    show ?thesis
    proof (cases er)
      case None
      with conn_Read_data(2) [OF r [unfolded None] bufSize_pos] pc CopyRead show ?thesis
        by (auto simp: unread_def after_read_def)
    next
      case (Some e)
      with conn_Read_error [OF r [unfolded Some]] CopyRead i(2) have "rt_end rt = Some e" "incoming (t_src t) = []"
        by (simp_all add: stream_ok_def flow_ok_def)
      with conn_Read_error(1) [OF r [unfolded Some]] pc Some CopyRead show ?thesis
        by (simp add: unread_def after_read_def)
    qed
  next
    case (CopyWrite d er n)
    then have na: "\<not> pc_ended (t_qpc t)" and er: "er = None" using i(2) by (auto simp: stream_ok_def flow_ok_def)
    from assms(2) CopyWrite obtain r where w: "queue_writeBuf False (data_buffer d) (t_q t) = Some (r, q)"
      by (auto simp: queue_PW_def queue_Write_def split: option.splits)
    have "pc = CopyRead (n + of_nat (length d))" "src = t_src t"
      using assms(2) CopyWrite er w queue_ok_put(1) [OF i(1) na w]
      by (auto simp: queue_PW_def queue_Write_def after_read_def)
    with CopyWrite show ?thesis by (simp add: unread_def)
  qed (use assms(2) in \<open>auto simp: unread_def\<close>)
  then show "\<exists>d. unread t = d @ unread (t\<lparr>t_copy := pc, t_src := src, t_q := q\<rparr>)"
    and "copy_fin pc \<Longrightarrow> copy_fin (t_copy t) \<or> rt_end rt \<noteq> None" by blast+
qed

lemma write_appends:
  assumes "tunnel_inv accepts kstr rt t"
    and "link_Send_step False waiter (rt_link rt 0) (t_lpc t, t_lh t, t_conns t) = Some (pc, lh, conns)"
  shows "\<exists>d. tx (conns (rt_target rt)) = tx (t_conns t (rt_target rt)) @ d"
proof (cases "t_lpc t")
  case (SendPut s b r)
  have c: "l_conn (lh_heap (t_lh t) (rt_link rt 0)) = Some (rt_target rt)"
    using assms(1) by (simp add: tunnel_inv_def links_ok_def)
  show ?thesis
    using assms(2) SendPut c
    by (auto simp: safeWrite_def conn_CloseWrite_def split: prod.splits option.splits if_splits
        dest!: conn_Write_takes)
next
  case (SendIter r)
  with assms(2) show ?thesis by (cases r) auto
next
  case (SendRead w r)
  with assms(2) show ?thesis by (cases w) (auto split: option.splits)
qed (use assms(2) in \<open>auto split: if_splits\<close>)

lemma write_ended:
  "pc_ended (t_lpc t) \<Longrightarrow> link_Send_step False waiter me (t_lpc t, t_lh t, t_conns t) = Some (pc, lh, conns) \<Longrightarrow>
     conns = t_conns t"
  by (cases "t_lpc t") (auto split: if_splits)

section \<open>The simulation\<close>

text \<open>Taking, giving and shutting, or nothing, between two states of which the later has moved on.\<close>

lemma pipe_moves:
  assumes p: "pipe_of accepts kstr rt before t p" and inv: "tunnel_inv accepts kstr rt t'"
    and rd: "unread t = d @ unread t'"
    and wr: "tx (t_conns t' (rt_target rt)) = tx (t_conns t (rt_target rt)) @ d'"
    and one: "d = [] \<or> d' = []"
    and shut: "wr_closed (t_conns t (rt_target rt)) \<Longrightarrow> wr_closed (t_conns t' (rt_target rt)) \<and> d' = []"
    and fin: "copy_fin (t_copy t') \<Longrightarrow> rt_end rt \<noteq> None"
  shows "\<exists>p'. reaches pipe_step p p' \<and> pipe_of accepts kstr rt before t' p'"
proof -
  obtain mid where m: "rt_input rt =
        tx (t_conns t' (rt_target rt)) @ concat (map b_data (pending mid t')) @ unread t'"
      "wr_closed (t_conns t' (rt_target rt)) \<longleftrightarrow> copy_done (t_copy t') \<and> pending mid t' = []"
    by (rule tunnel_flow [OF inv])
  define under where "under = concat (map b_data (pending mid t'))"
  have "before @ bp_done p @ (bp_inside p @ d) @ unread t' = before @ bp_done p @ (d' @ under) @ unread t'"
    using p m(1) rd wr unfolding pipe_of_def under_def by auto
  then have eq: "bp_inside p @ d = d' @ under" by simp
  define p1 where "p1 = p\<lparr>bp_todo := unread t', bp_inside := bp_inside p @ d\<rparr>"
  define p2 where "p2 = p1\<lparr>bp_inside := under, bp_done := bp_done p @ d'\<rparr>"
  have "reaches pipe_step p p1"
    using p rd unfolding p1_def pipe_of_def by (intro reaches_step [OF reaches_refl] pipe_take) simp
  moreover have "reaches pipe_step p1 p2"
  proof (cases "bp_shut p")
    case True
    with shut p have "d' = []" by (simp add: pipe_of_def)
    with eq have "p2 = p1" by (simp add: p2_def p1_def)
    then show ?thesis by (simp add: reaches_refl)
  next
    case False
    then have "pipe_step p1 (p1\<lparr>bp_inside := under, bp_done := bp_done p1 @ d'\<rparr>)"
      using eq by (intro pipe_give) (simp_all add: p1_def)
    then have "pipe_step p1 p2" by (simp add: p2_def p1_def)
    then show ?thesis by (rule reaches_step [OF reaches_refl])
  qed
  moreover define p3 where "p3 = p2\<lparr>bp_shut := wr_closed (t_conns t' (rt_target rt))\<rparr>"
  have "reaches pipe_step p2 p3"
  proof (cases "wr_closed (t_conns t' (rt_target rt)) \<and> \<not> bp_shut p")
    case True
    then have "unread t' = []" "under = []" "rt_end rt \<noteq> None"
      using m(2) fin by (cases "t_copy t'"; simp add: unread_def under_def)+
    with p True have "pipe_step p2 p3"
      using pipe_shut [of p2] by (simp add: p3_def p2_def p1_def pipe_of_def)
    then show ?thesis by (rule reaches_step [OF reaches_refl])
  next
    case False
    with shut p have "p3 = p2" by (auto simp: p3_def p2_def p1_def pipe_of_def)
    then show ?thesis by (simp add: reaches_refl)
  qed
  moreover have "pipe_of accepts kstr rt before t' p3"
    using p inv wr m(1) fin by (simp add: pipe_of_def p3_def p2_def p1_def under_def)
  ultimately show ?thesis by (blast intro: reaches_trans)
qed

lemma tunnel_step_pipe:
  assumes rcv: "frame_receiver kstr recv accepts" and p: "pipe_of accepts kstr rt before t p"
    and step: "tunnel_step kstr recv (rt_link rt 0) t t'"
  shows "\<exists>p'. reaches pipe_step p p' \<and> pipe_of accepts kstr rt before t' p'"
proof -
  have inv: "tunnel_inv accepts kstr rt t" using p by (simp add: pipe_of_def)
  note inv' = tunnel_step_inv [OF rcv inv step]
  note moves = pipe_moves [OF p inv']
  from step show ?thesis
  proof (cases rule: tunnel_step.cases)
    case (ts_copy pc src q)
    note c = copy_unread [OF inv ts_copy(2)]
    from c(1) obtain d where "unread t = d @ unread t'" using ts_copy(1) by blast
    with c(2) p ts_copy(1) show ?thesis by (intro moves [of d "[]"]) (auto simp: pipe_of_def)
  next
    case (ts_send waiter pc q ws)
    with p show ?thesis by (intro moves [of "[]" "[]"]) (auto simp: pipe_of_def unread_def)
  next
    case (ts_recv c doc docs lh)
    with p show ?thesis by (intro moves [of "[]" "[]"]) (auto simp: pipe_of_def unread_def)
  next
    case (ts_write waiter pc lh conns)
    from write_appends [OF inv ts_write(2)] obtain d where
      d: "tx (conns (rt_target rt)) = tx (t_conns t (rt_target rt)) @ d" by blast
    have "wr_closed (conns (rt_target rt)) \<and> d = []" if "wr_closed (t_conns t (rt_target rt))"
      using that d write_ended [OF _ ts_write(2)] inv by (auto simp: tunnel_inv_def target_ok_def)
    with p d ts_write(1) show ?thesis by (intro moves [of "[]" d]) (auto simp: pipe_of_def unread_def)
  qed
qed

sublocale frame_receiver \<subseteq> pipe: simulation "tunnel_step kstr recv (rt_link rt 0)" pipe_step
  "pipe_of accepts kstr rt before" for rt before
  by unfold_locales (rule tunnel_step_pipe [OF frame_receiver_axioms])

end
