(* ===== verification/Early_Data.thy ===== *)
theory Early_Data
  imports Handshake
begin

text \<open>
  Chunks may reach a link before the handshake of \<open>Handshake\<close> is over: a connection carries its
  announcement and then data, while the announcements of the other connections and the target are
  still missing. The events of the handshake neither read nor change what a link has buffered, so it
  makes no difference whether a chunk is put into a link before or after them.
\<close>

section \<open>Changing buffers only\<close>

definition rebuf :: "(ref \<Rightarrow> buffer chan \<Rightarrow> buffer chan) \<Rightarrow> LinkHub \<Rightarrow> LinkHub" where
  "rebuf g h = h\<lparr>lh_heap := (\<lambda>r. (lh_heap h r)\<lparr>l_buffer := g r (l_buffer (lh_heap h r))\<rparr>)\<rparr>"

lemma rebuf_sel [simp]:
  "lh_links (rebuf g h) = lh_links h" "lh_next (rebuf g h) = lh_next h"
  "lh_heap (rebuf g h) r = (lh_heap h r)\<lparr>l_buffer := g r (l_buffer (lh_heap h r))\<rparr>"
  by (simp_all add: rebuf_def)

lemma rebuf_update:
  assumes "\<And>q b. f (q\<lparr>l_buffer := b\<rparr>) = (f q)\<lparr>l_buffer := b\<rparr>" and "\<And>q. l_buffer (f q) = l_buffer q"
  shows "lh_update r f (rebuf g h) = rebuf g (lh_update r f h)"
  using assms by (intro LinkHub.equality) (auto simp: fun_eq_iff)

lemma rebuf_create:
  "g (lh_next h) makeBuffer = makeBuffer \<Longrightarrow> lh_create now i m (rebuf g h) = rebuf g (lh_create now i m h)"
  by (intro LinkHub.equality) (auto simp: fun_eq_iff lh_create_def NewLink_def)

text \<open>\<open>g\<close> leaves the buffers of links that are yet to be made as they will be made.\<close>

definition keeps_new :: "(ref \<Rightarrow> buffer chan \<Rightarrow> buffer chan) \<Rightarrow> LinkHub \<Rightarrow> bool" where
  "keeps_new g h \<longleftrightarrow> (\<forall>r\<ge>lh_next h. g r makeBuffer = makeBuffer)"

lemma keeps_new_le: "keeps_new g h \<Longrightarrow> lh_next h \<le> lh_next h' \<Longrightarrow> keeps_new g h'"
  by (simp add: keeps_new_def)

lemma ensure_next: "lh_next h \<le> lh_next (lh_ensure now i m h)"
  by (simp add: lh_ensure_def)

lemma rebuf_ensure: "keeps_new g h \<Longrightarrow> lh_ensure now i m (rebuf g h) = rebuf g (lh_ensure now i m h)"
  by (simp add: lh_ensure_def rebuf_create keeps_new_def)

lemma rebuf_trySend:
  "LinkHub_trySend m conn (rebuf g h) = (case LinkHub_trySend m conn h of (h', go) \<Rightarrow> (rebuf g h', go))"
proof -
  have "lh_update r (link_SetConn conn) (rebuf g h) = rebuf g (lh_update r (link_SetConn conn) h)" for r
    by (rule rebuf_update) (simp_all add: link_SetConn_def)
  then show ?thesis
    by (auto simp: LinkHub_trySend_def Let_def split: option.splits)
qed

lemma rebuf_add:
  assumes "keeps_new g h"
  shows "LinkHub_Add now i m (rebuf g h) = (case LinkHub_Add now i m h of (h', go) \<Rightarrow> (rebuf g h', go))"
proof -
  let ?h1 = "lh_ensure now m m h"
  have "keeps_new g ?h1" by (rule keeps_new_le [OF assms ensure_next])
  then have "lh_ensure now i m (rebuf g ?h1) = rebuf g (lh_ensure now i m ?h1)" by (rule rebuf_ensure)
  moreover have "lh_update r (\<lambda>q. q\<lparr>l_counter := Suc (l_counter q)\<rparr>) (rebuf g h') =
      rebuf g (lh_update r (\<lambda>q. q\<lparr>l_counter := Suc (l_counter q)\<rparr>) h')" for r h'
    by (rule rebuf_update) simp_all
  ultimately show ?thesis
    by (simp add: LinkHub_Add_def Let_def rebuf_ensure [OF assms] rebuf_trySend split: option.split)
qed

lemma rebuf_sort:
  assumes "keeps_new g h"
  shows "LinkHub_SetSort now m l (rebuf g h) = rebuf g (LinkHub_SetSort now m l h)"
proof -
  have "lh_update r (link_SetSort l) (rebuf g h') = rebuf g (lh_update r (link_SetSort l) h')" for r h'
    by (rule rebuf_update) (simp_all add: link_SetSort_def)
  then show ?thesis
    by (simp add: LinkHub_SetSort_def Let_def rebuf_ensure [OF assms] split: option.split)
qed

section \<open>Events and buffers\<close>

lemma rebuf_event:
  "keeps_new g h \<Longrightarrow> link_event_step now m e (rebuf g h) =
     (rebuf g (fst (link_event_step now m e h)), snd (link_event_step now m e h))"
  by (cases e) (auto simp: rebuf_add rebuf_sort LinkHub_TrySend_def rebuf_trySend split: prod.splits)

lemma trySend_sel [simp]:
  "lh_next (fst (LinkHub_trySend m conn h)) = lh_next h" "lh_links (fst (LinkHub_trySend m conn h)) = lh_links h"
  by (auto simp: LinkHub_trySend_def Let_def split: option.splits)

lemma event_next: "lh_next h \<le> lh_next (fst (link_event_step now m e h))"
proof (cases e)
  case (EvAdd i)
  have "lh_next h \<le> lh_next (lh_ensure now i m (lh_ensure now m m h))"
    using ensure_next order_trans by blast
  with EvAdd show ?thesis by (simp add: LinkHub_Add_def Let_def split: option.split)
next
  case (EvSort l)
  with ensure_next [of h now m m] show ?thesis by (simp add: LinkHub_SetSort_def Let_def split: option.split)
qed (simp add: LinkHub_TrySend_def)

lemma fst_link_events_Cons [simp]:
  "fst (link_events now m (e # es) h) = fst (link_events now m es (fst (link_event_step now m e h)))"
  by (simp add: split_def Let_def)

declare link_events.simps(2) [simp del]

lemma rebuf_events:
  "keeps_new g h \<Longrightarrow> fst (link_events now m es (rebuf g h)) = rebuf g (fst (link_events now m es h))"
proof (induction es arbitrary: h)
  case Nil
  then show ?case by simp
next
  case (Cons e es)
  from Cons.prems event_next have "keeps_new g (fst (link_event_step now m e h))" by (rule keeps_new_le)
  from Cons.IH [OF this] Cons.prems show ?case by (simp add: rebuf_event)
qed

text \<open>The buffer and the status of an existing link stay as they are.\<close>

lemma trySend_keeps:
  "l_buffer (lh_heap (fst (LinkHub_trySend m conn h)) r) = l_buffer (lh_heap h r)"
  "l_status (lh_heap (fst (LinkHub_trySend m conn h)) r) = l_status (lh_heap h r)"
  by (auto simp: LinkHub_trySend_def Let_def link_SetConn_def split: option.splits)

lemma ensure_keeps: "r < lh_next h \<Longrightarrow> lh_heap (lh_ensure now i m h) r = lh_heap h r"
  by (simp add: lh_ensure_def)

lemma event_keeps:
  assumes "r < lh_next h"
  shows "l_buffer (lh_heap (fst (link_event_step now m e h)) r) = l_buffer (lh_heap h r) \<and>
    l_status (lh_heap (fst (link_event_step now m e h)) r) = l_status (lh_heap h r)"
proof (cases e)
  case (EvAdd i)
  have "lh_heap (lh_ensure now i m (lh_ensure now m m h)) r = lh_heap h r"
    using assms ensure_next [of h now m m] by (simp add: ensure_keeps)
  with EvAdd show ?thesis by (simp add: LinkHub_Add_def Let_def trySend_keeps split: option.split)
next
  case (EvSort l)
  with assms show ?thesis by (simp add: LinkHub_SetSort_def Let_def ensure_keeps link_SetSort_def split: option.split)
qed (simp add: LinkHub_TrySend_def trySend_keeps)

lemma events_keep:
  "r < lh_next h \<Longrightarrow> l_buffer (lh_heap (fst (link_events now m es h)) r) = l_buffer (lh_heap h r) \<and>
     l_status (lh_heap (fst (link_events now m es h)) r) = l_status (lh_heap h r)"
proof (induction es arbitrary: h)
  case Nil
  then show ?case by simp
next
  case (Cons e es)
  from Cons.prems event_next have "r < lh_next (fst (link_event_step now m e h))" by (rule less_le_trans)
  from Cons.IH [OF this] event_keeps [OF Cons.prems] show ?case by simp
qed

lemma ensure_get: "gm_get (lh_links h) j = Some r \<Longrightarrow> gm_get (lh_links (lh_ensure now i m h)) j = Some r"
  by (auto simp: lh_ensure_def)

lemma event_get:
  assumes "gm_get (lh_links h) j = Some r"
  shows "gm_get (lh_links (fst (link_event_step now m e h))) j = Some r"
  using assms
  by (cases e) (auto simp: LinkHub_Add_def LinkHub_SetSort_def LinkHub_TrySend_def Let_def ensure_get split: option.splits)

lemma events_get:
  "gm_get (lh_links h) j = Some r \<Longrightarrow> gm_get (lh_links (fst (link_events now m es h))) j = Some r"
  by (induction es arbitrary: h) (auto intro: event_get)

section \<open>Delivery and the handshake\<close>

text \<open>
  Delivering a chunk changes the buffer of one link, in a way that depends on the status and the
  buffer of that link only.
\<close>

lemma deliver_rebuf:
  assumes "gm_get (lh_links h) i = Some r" and "deliver False i b h = Some h'"
  obtains g where "h' = rebuf g h" "\<And>r'. r' \<noteq> r \<Longrightarrow> g r' = id"
    "\<And>h2. gm_get (lh_links h2) i = Some r \<Longrightarrow> l_buffer (lh_heap h2 r) = l_buffer (lh_heap h r) \<Longrightarrow>
       l_status (lh_heap h2 r) = l_status (lh_heap h r) \<Longrightarrow> deliver False i b h2 = Some (rebuf g h2)"
proof -
  let ?q = "lh_heap h r"
  from assms obtain n e q where w: "link_writeBuf False b ?q = Some ((n, e), q)" and h': "h' = lh_update r (\<lambda>_. q) h"
    by (auto simp: deliver_def LinkHub_Get_def)
  have same: "rebuf (\<lambda>_. id) h2 = h2" for h2 by (simp add: rebuf_def)
  have put: "lh_update r (\<lambda>q. q\<lparr>l_buffer := c\<rparr>) h2 = rebuf (\<lambda>r'. if r' = r then (\<lambda>_. c) else id) h2" for c h2
    by (intro LinkHub.equality) (auto simp: fun_eq_iff)
  from w show ?thesis
  proof (cases rule: link_writeBuf_cases)
    case over
    with h' same show ?thesis
      by (intro that [of "\<lambda>_. id"]) (auto simp: lh_update_def deliver_def LinkHub_Get_def link_writeBuf_def)
  next
    case panicked
    with h' same show ?thesis
      by (intro that [of "\<lambda>_. id"])
        (auto simp: lh_update_def deliver_def LinkHub_Get_def link_writeBuf_def chan_send_def)
  next
    case sent
    define c where "c = (l_buffer ?q)\<lparr>ch_buf := ch_buf (l_buffer ?q) @ [b]\<rparr>"
    have "h' = lh_update r (\<lambda>q. q\<lparr>l_buffer := c\<rparr>) h" using h' sent by (simp add: lh_update_def c_def)
    moreover have "deliver False i b h2 = Some (lh_update r (\<lambda>q. q\<lparr>l_buffer := c\<rparr>) h2)"
      if "gm_get (lh_links h2) i = Some r" "l_buffer (lh_heap h2 r) = l_buffer ?q" "l_status (lh_heap h2 r) = l_status ?q" for h2
      using that sent by (simp add: deliver_def LinkHub_Get_def link_writeBuf_sent c_def lh_update_def)
    ultimately show ?thesis by (intro that) (auto simp: put)
  next
    case full
    then show ?thesis by simp
  qed
qed

lemma deliver_events:
  assumes "gm_get (lh_links h) i = Some r" and "r < lh_next h" and "deliver False i b h = Some h'"
  shows "deliver False i b (fst (link_events now m es h)) = Some (fst (link_events now m es h'))"
proof -
  obtain g where g: "h' = rebuf g h" "\<And>r'. r' \<noteq> r \<Longrightarrow> g r' = id"
    "\<And>h2. gm_get (lh_links h2) i = Some r \<Longrightarrow> l_buffer (lh_heap h2 r) = l_buffer (lh_heap h r) \<Longrightarrow>
       l_status (lh_heap h2 r) = l_status (lh_heap h r) \<Longrightarrow> deliver False i b h2 = Some (rebuf g h2)"
    using deliver_rebuf [OF assms(1,3)] by blast
  have "keeps_new g h" using g(2) assms(2) by (simp add: keeps_new_def)
  from rebuf_events [OF this] g(3) [OF events_get [OF assms(1)]] events_keep [OF assms(2)] g(1) show ?thesis
    by simp
qed

section \<open>How much is buffered\<close>

definition buffered :: "LinkHub \<Rightarrow> ksuid \<Rightarrow> nat" where
  "buffered h i = (case gm_get (lh_links h) i of None \<Rightarrow> 0 | Some r \<Rightarrow> length (ch_buf (l_buffer (lh_heap h r))))"

lemma buffered_ensure: "lh_wf h \<Longrightarrow> buffered (lh_ensure now i m h) j = buffered h j"
  by (auto simp: buffered_def lh_ensure_def NewLink_def makeBuffer_def make_chan_def dest: lh_wfD split: option.splits)

lemma buffered_update: "(\<And>q. l_buffer (f q) = l_buffer q) \<Longrightarrow> buffered (lh_update r f h) j = buffered h j"
  by (auto simp: buffered_def split: option.splits)

lemma buffered_event:
  assumes "lh_wf h"
  shows "buffered (fst (link_event_step now m e h)) j = buffered h j"
proof -
  have try_it: "buffered (fst (LinkHub_trySend m conn h)) j = buffered h j" for conn h
    by (auto simp: LinkHub_trySend_def Let_def buffered_update link_SetConn_def split: option.splits)
  note ens = buffered_ensure [OF assms] buffered_ensure [OF lh_wf_ensure [OF assms]]
  show ?thesis
    using ens try_it
    by (cases e) (auto simp: LinkHub_Add_def LinkHub_SetSort_def LinkHub_TrySend_def Let_def buffered_update
        link_SetSort_def split: option.splits)
qed

lemma buffered_events: "lh_wf h \<Longrightarrow> buffered (fst (link_events now m es h)) j = buffered h j"
proof (induction es arbitrary: h)
  case Nil
  then show ?case by simp
next
  case (Cons e es)
  have "lh_wf (fst (link_event_step now m e h))"
    using Cons.prems by (cases e) (auto simp: LinkHub_TrySend_def intro: lh_wf_Add lh_wf_SetSort lh_wf_trySend)
  from Cons.IH [OF this] buffered_event [OF Cons.prems] show ?case by simp
qed

end
