(* ===== verification/Upload_Session.thy ===== *)
theory Upload_Session
  imports Transfers Byte_Pipe Early_Data
begin

text \<open>
  The upload of one session from the moment the client's \<open>transData\<close> has started its goroutines. On
  the server nothing is known of the session yet: the announcements and the establish message are
  still on the WebSockets. The receive loops handle them with the whole \<open>dispatchMessage\<close>, in any
  interleaving; the goroutine \<open>establish\<close> they start checks and dials the target; meanwhile the client
  already sends data, which reaches the links behind the announcements; and \<open>link.Send\<close> begins when
  the last of these has happened. \<open>session_step\<close> is one step of any of them.

  The five-minute timers do not fire, the response has not ended (\<open>writer.Wait()\<close> does not return),
  and the clock, which only the creation times of queues and links record, stands still.
\<close>

section \<open>The relation\<close>

text \<open>\<open>se_est\<close> is the object \<open>DefaultProxyEst\<close>, \<open>se_conn\<close> the WebSocket of the establish message.\<close>

record 'c session_env =
  se_kstr :: "ksuid \<Rightarrow> string"
  se_kparse :: "string \<Rightarrow> ksuid option"
  se_LookupIP :: "string \<Rightarrow> bytes list"
  se_Dial :: "string \<Rightarrow> go_error + ref"
  se_now :: instant
  se_est :: ref
  se_master :: ksuid
  se_conn :: 'c

record 'c session =
  sn_copy :: copy_pc
  sn_src :: tcpconn
  sn_qpc :: "'c webSocketWriter send_pc"
  sn_q :: "'c webSocketWriter queue"
  sn_ws :: "'c lanes ws_world"
  sn_sv :: "'c server"
  sn_hubs :: "'c \<Rightarrow> 'c Hub"
  sn_est :: est_pc
  sn_lpc :: "ref send_pc"
  sn_conns :: "ref \<Rightarrow> tcpconn"
  sn_down :: "'c lanes"

inductive session_step :: "'c session_env \<Rightarrow> 'c session \<Rightarrow> 'c session \<Rightarrow> bool" for E where
  ss_copy: "CopyBuffer_step (queue_PW False) () (sn_copy s, sn_src s, sn_q s) = Some (pc, src, q) \<Longrightarrow>
     session_step E s (s\<lparr>sn_copy := pc, sn_src := src, sn_q := q\<rparr>)"
| ss_send: "queue_Send_step (wsWriter_PW lanes_Write (se_kstr E)) False waiter (sn_qpc s, sn_q s, sn_ws s) =
       Some (pc, q, ws) \<Longrightarrow>
     session_step E s (s\<lparr>sn_qpc := pc, sn_q := q, sn_ws := ws\<rparr>)"
| ss_recv: "wv_net (sn_ws s) c = doc # docs \<Longrightarrow>
     dispatchMessage (se_kparse E) (se_now E) False (sn_hubs s c) MessageText (Some doc) (sn_sv s) = Returns (err, sv) \<Longrightarrow>
     session_step E s (s\<lparr>sn_ws := (sn_ws s)\<lparr>wv_net := (wv_net (sn_ws s))(c := docs)\<rparr>, sn_sv := sv\<rparr>)"
| ss_est: "GoEstablish (se_master E) addr fsd \<in> set (sv_go (sn_sv s)) \<Longrightarrow>
     establish_step lanes_Write (se_kstr E) (se_LookupIP E) (se_Dial E) False (se_est E) (se_master E) addr
       (sn_est s, \<lparr>es_hub = sn_hubs s (se_conn E), es_sv = sn_sv s, es_conns = sn_conns s, es_net = sn_down s\<rparr>) =
       Some (pc, v) \<Longrightarrow>
     session_step E s (s\<lparr>sn_est := pc, sn_sv := es_sv v, sn_hubs := (sn_hubs s)(se_conn E := es_hub v),
       sn_conns := es_conns v, sn_down := es_net v\<rparr>)"
| ss_write: "LinkHub_Get (se_master E) (sv_links (sn_sv s)) = Some r \<Longrightarrow> GoLinkSend r \<in> set (sv_go (sn_sv s)) \<Longrightarrow>
     link_Send_step False waiter r (sn_lpc s, sv_links (sn_sv s), sn_conns s) = Some (pc, lh, conns) \<Longrightarrow>
     session_step E s (s\<lparr>sn_lpc := pc, sn_sv := (sn_sv s)\<lparr>sv_links := lh\<rparr>, sn_conns := conns\<rparr>)"

section \<open>The handshake still under way\<close>

declare link_events.simps(2) [simp del]

text \<open>What the client asked for: identifiers, their WebSockets, the target address and first data,
  the connection dialled, the bytes the source will yield and the error that ends them.\<close>

record 'c plan =
  pl_ids :: "ksuid list"
  pl_conn :: "ksuid \<Rightarrow> 'c"
  pl_addr :: string
  pl_first :: "bytes option"
  pl_target :: ref
  pl_input :: bytes
  pl_end :: "go_error option"

definition plan_ok :: "'c session_env \<Rightarrow> 'c plan \<Rightarrow> bool" where
  "plan_ok E P \<longleftrightarrow>
     pl_ids P \<noteq> [] \<and> distinct (pl_ids P) \<and> inj_on (pl_conn P) (set (pl_ids P)) \<and>
     se_master E = hd (pl_ids P) \<and> se_conn E = pl_conn P (se_master E) \<and> ksuid_codec (se_kstr E) (se_kparse E) \<and>
     \<not> checkAddrPrivite (se_LookupIP E) (pl_addr P) \<and> se_Dial E (pl_addr P) = Inr (pl_target P)"

text \<open>
  The frames of the handshake that are still on the WebSocket of \<open>i\<close>, when the announcements of
  \<open>todo\<close> are outstanding and \<open>srt\<close> says whether the establish message was handled.
\<close>

definition hs_frames :: "'c session_env \<Rightarrow> 'c plan \<Rightarrow> ksuid list \<Rightarrow> bool \<Rightarrow> ksuid \<Rightarrow> json list" where
  "hs_frames E P todo srt i =
     (if i \<in> set todo then [enc_message (se_kstr E) (hi_message (se_kstr E) i (se_master E))] else []) @
     (if i = se_master E \<and> \<not> srt
      then [enc_message (se_kstr E) (est_message (se_kstr E) i (pl_first P) (pl_addr P) (pl_ids P))] else [])"

text \<open>Where \<open>establish\<close> is: \<open>cn\<close> says whether it has handed the connection to the links.\<close>

definition est_at :: "ref \<Rightarrow> bool \<Rightarrow> bool \<Rightarrow> est_pc \<Rightarrow> bool" where
  "est_at c srt cn pc \<longleftrightarrow>
     (if cn then pc \<in> {EstWaiter c, EstAdd c, EstQueue c, EstGet c} \<or> (\<exists>q. pc = EstWait (Some q) c)
      else pc = EstCheck \<or> srt \<and> pc \<in> {EstDial, EstLink c})"

abbreviation erase :: "LinkHub \<Rightarrow> LinkHub" where
  "erase \<equiv> rebuf (\<lambda>_ _. makeBuffer)"

text \<open>The queue for the response, which the announcements and the establish message fill in.\<close>

definition queue_filled :: "'c plan \<Rightarrow> ksuid list \<Rightarrow> bool \<Rightarrow> 'c webSocketWriter queue \<Rightarrow> bool" where
  "queue_filled P todo srt q \<longleftrightarrow>
     q_sorted q = (if srt then pl_ids P else []) \<and> q_status q = StaWait \<and> \<not> q_done_closed q \<and> q_buffer q = makeBuffer \<and>
     gm_wf (q_writers q) \<and> dom (gm_get (q_writers q)) = set (pl_ids P) - set todo \<and>
     (\<forall>i\<in>set (pl_ids P) - set todo. gm_get (q_writers q) i = Some (NewWebSocketWriter (pl_conn P i) i None))"

definition queue_at :: "'c session_env \<Rightarrow> 'c plan \<Rightarrow> ksuid list \<Rightarrow> bool \<Rightarrow> 'c server \<Rightarrow> bool" where
  "queue_at E P todo srt sv \<longleftrightarrow>
     (case QueueHub_Get (se_master E) (sv_queues sv) of
        None \<Rightarrow> todo = pl_ids P \<and> \<not> srt \<and> GoQueueSend (qh_next (sv_queues sv)) \<notin> set (sv_go sv)
      | Some q \<Rightarrow> queue_filled P todo srt (qh_heap (sv_queues sv) q) \<and>
          (GoQueueSend q \<in> set (sv_go sv) \<longrightarrow> todo = [] \<and> srt))"

lemma queue_at_get: "queue_at E P todo True sv \<Longrightarrow> QueueHub_Get (se_master E) (sv_queues sv) \<noteq> None"
  by (auto simp: queue_at_def split: option.splits)

lemma queue_at_go:
  assumes "queue_at E P todo srt sv" and "\<And>q. x \<noteq> GoQueueSend q"
  shows "queue_at E P todo srt (sv\<lparr>sv_go := sv_go sv @ [x]\<rparr>)"
proof -
  have "GoQueueSend q \<in> set (sv_go sv @ [x]) \<longleftrightarrow> GoQueueSend q \<in> set (sv_go sv)" for q
    using assms(2) [of q] by auto
  with assms(1) show ?thesis by (simp add: queue_at_def split: option.splits)
qed

text \<open>Once \<open>establish\<close> has come so far, the response's goroutines are started.\<close>

definition queue_up :: "'c session_env \<Rightarrow> ksuid list \<Rightarrow> est_pc \<Rightarrow> 'c server \<Rightarrow> bool" where
  "queue_up E todo pc sv \<longleftrightarrow>
     (todo = [] \<and> (\<exists>q c. pc = EstGet c \<or> pc = EstWait q c) \<longrightarrow>
        (\<exists>q. QueueHub_Get (se_master E) (sv_queues sv) = Some q \<and> GoQueueSend q \<in> set (sv_go sv))) \<and>
     (\<forall>q c. pc = EstWait (Some q) c \<longrightarrow>
        QueueHub_Get (se_master E) (sv_queues sv) = Some q \<and> GoCopy q c \<in> set (sv_go sv))"

lemma queue_up_before [simp]:
  "queue_up E todo EstCheck sv" "queue_up E todo EstDial sv" "queue_up E todo (EstLink c) sv" "queue_up E todo (EstWaiter c) sv"
  "queue_up E todo (EstAdd c) sv" "queue_up E todo (EstQueue c) sv"
  by (simp_all add: queue_up_def)

lemma queue_up_copy:
  assumes "queue_up E todo (EstGet c) sv" and "QueueHub_Get (se_master E) (sv_queues sv) = Some q"
  shows "queue_up E todo (EstWait (Some q) c) (spawn (\<lambda>q. GoCopy q c) (Some q) sv)"
  using assms by (auto simp: queue_up_def spawn_def)

lemma queue_up_links [simp]: "queue_up E todo pc (sv\<lparr>sv_links := lh\<rparr>) = queue_up E todo pc sv"
  by (simp add: queue_up_def)

lemma queue_at_links [simp]: "queue_at E P todo srt (sv\<lparr>sv_links := lh\<rparr>) = queue_at E P todo srt sv"
  by (simp add: queue_at_def split: option.split)

definition server_at ::
  "'c session_env \<Rightarrow> 'c plan \<Rightarrow> ksuid list \<Rightarrow> bool \<Rightarrow> bool \<Rightarrow> ref \<Rightarrow> 'c server \<Rightarrow> bool" where
  "server_at E P todo srt cn r sv \<longleftrightarrow>
     (todo = [] \<and> srt \<and> cn \<or>
      gathered (se_master E) (pl_ids P) todo (if srt then pl_ids P else []) (if cn then Some (pl_target P) else None) r
        (erase (lh_ensure (se_now E) (se_master E) (se_master E) (sv_links sv)))) \<and>
     lh_wf (sv_links sv) \<and>
     (\<forall>i\<in>set (pl_ids P) - set todo. i = se_master E \<or> LinkHub_Get i (sv_links sv) \<noteq> None) \<and>
     LinkHub_Get (se_master E) (sv_links sv) = (if todo = pl_ids P \<and> \<not> srt then None else Some r) \<and>
     (se_master E \<in> set todo \<longrightarrow> \<not> srt) \<and> (cn \<longrightarrow> srt) \<and>
     queue_at E P todo srt sv \<and>
     (GoLinkSend r \<in> set (sv_go sv) \<longleftrightarrow> todo = [] \<and> srt \<and> cn) \<and>
     (\<forall>a d. GoEstablish (se_master E) a d \<in> set (sv_go sv) \<longleftrightarrow> srt \<and> a = pl_addr P \<and> d = pl_first P)"

text \<open>
  The transfer as it will be once the events \<open>es\<close> have completed the handshake: its links are those
  the hub will have then, its frames the data frames only.
\<close>

definition virtual :: "'c session_env \<Rightarrow> 'c lanes \<Rightarrow> link_event list \<Rightarrow> 'c session \<Rightarrow> 'c tunnel" where
  "virtual E net es s =
     \<lparr>t_copy = sn_copy s, t_src = sn_src s, t_qpc = sn_qpc s, t_q = sn_q s, t_ws = (sn_ws s)\<lparr>wv_net := net\<rparr>,
      t_lpc = sn_lpc s, t_lh = fst (link_events (se_now E) (se_master E) es (sv_links (sn_sv s))), t_conns = sn_conns s\<rparr>"

definition vroute :: "'c session_env \<Rightarrow> 'c plan \<Rightarrow> link_event list \<Rightarrow> 'c session \<Rightarrow> 'c route" where
  "vroute E P es s = hub_route (pl_ids P) (pl_conn P) (pl_target P) (pl_input P) (pl_end P)
     (fst (link_events (se_now E) (se_master E) es (sv_links (sn_sv s))))"

record 'c stage =
  sg_todo :: "ksuid list"
  sg_srt :: bool
  sg_cn :: bool
  sg_pre :: "'c lanes"
  sg_net :: "'c lanes"

abbreviation completes :: "'c plan \<Rightarrow> 'c stage \<Rightarrow> link_event list \<Rightarrow> bool" where
  "completes P g es \<equiv> arrivals (pl_ids P) (pl_target P) (sg_todo g) (sg_srt g) (sg_cn g) es"

definition shell :: "'c session_env \<Rightarrow> 'c plan \<Rightarrow> ref \<Rightarrow> 'c stage \<Rightarrow> 'c session \<Rightarrow> bool" where
  "shell E P r g s \<longleftrightarrow>
     server_at E P (sg_todo g) (sg_srt g) (sg_cn g) r (sn_sv s) \<and>
     est_at (pl_target P) (sg_srt g) (sg_cn g) (sn_est s) \<and>
     (\<forall>c. wv_net (sn_ws s) c = sg_pre g c @ sg_net g c) \<and>
     (\<forall>i\<in>set (pl_ids P). sg_pre g (pl_conn P i) = hs_frames E P (sg_todo g) (sg_srt g) i) \<and>
     (\<forall>c. c \<notin> pl_conn P ` set (pl_ids P) \<longrightarrow> sg_pre g c = []) \<and>
     (\<forall>c. hub_ws (sn_hubs s c) = c) \<and> queue_up E (sg_todo g) (sn_est s) (sn_sv s) \<and> sn_down s = (\<lambda>_. []) \<and>
     (sn_lpc s = SendEntry \<or> sg_todo g = [] \<and> sg_srt g \<and> sg_cn g)"

text \<open>The invariant: however the handshake is completed, the transfer is in order.\<close>

definition session_at :: "'c session_env \<Rightarrow> 'c plan \<Rightarrow> ref \<Rightarrow> 'c stage \<Rightarrow> 'c session \<Rightarrow> bool" where
  "session_at E P r g s \<longleftrightarrow> shell E P r g s \<and>
     (\<forall>es. completes P g es \<longrightarrow>
        tunnel_inv (\<lambda>_ _. ksuid_codec (se_kstr E) (se_kparse E)) (se_kstr E) (vroute E P es s)
          (virtual E (sg_net g) es s))"

text \<open>
  The session has moved from stage \<open>g\<close> to \<open>g'\<close>; the transfer to come has made one step if \<open>moves\<close>, else
  none.
\<close>

definition follows ::
  "bool \<Rightarrow> 'c session_env \<Rightarrow> 'c plan \<Rightarrow> 'c stage \<Rightarrow> 'c session \<Rightarrow> 'c stage \<Rightarrow> 'c session \<Rightarrow> bool" where
  "follows moves E P g s g' s' \<longleftrightarrow>
     (\<forall>es'. completes P g' es' \<longrightarrow> (\<exists>es. completes P g es \<and> vroute E P es' s' = vroute E P es s \<and>
        (if moves
         then \<exists>hubs sv. tunnel_step (se_kstr E) (server_recv (se_kparse E) (se_now E) hubs sv)
           (rt_link (vroute E P es s) 0) (virtual E (sg_net g) es s) (virtual E (sg_net g') es' s')
         else virtual E (sg_net g') es' s' = virtual E (sg_net g) es s)))"

abbreviation session_inv :: "'c session_env \<Rightarrow> 'c plan \<Rightarrow> link_event list \<Rightarrow> 'c stage \<Rightarrow> 'c session \<Rightarrow> bool" where
  "session_inv E P es g s \<equiv> tunnel_inv (\<lambda>_ _. ksuid_codec (se_kstr E) (se_kparse E)) (se_kstr E)
     (vroute E P es s) (virtual E (sg_net g) es s)"

lemma follows_at:
  assumes "session_at E P r g s" and "shell E P r g' s'" and "follows moves E P g s g' s'"
  shows "session_at E P r g' s'"
  unfolding session_at_def
proof (intro conjI allI impI assms(2))
  fix es'
  assume "completes P g' es'"
  with assms(3) obtain es where es: "completes P g es" "vroute E P es' s' = vroute E P es s"
      "if moves
       then \<exists>hubs sv. tunnel_step (se_kstr E) (server_recv (se_kparse E) (se_now E) hubs sv)
         (rt_link (vroute E P es s) 0) (virtual E (sg_net g) es s) (virtual E (sg_net g') es' s')
       else virtual E (sg_net g') es' s' = virtual E (sg_net g) es s"
    unfolding follows_def by blast
  from assms(1) es(1) have inv: "session_inv E P es g s" by (simp add: session_at_def)
  show "session_inv E P es' g' s'"
  proof (cases moves)
    case True
    with es(2,3) tunnel_step_inv [OF server_rx.frame_receiver_axioms inv] show ?thesis by auto
  next
    case False
    with es(2,3) inv show ?thesis by simp
  qed
qed

lemma arrivals_exist:
  assumes "cn \<longrightarrow> srt"
  shows "\<exists>es. arrivals ids c todo srt cn es"
proof -
  have "arrivals ids c [] srt cn ((if srt then [] else [EvSort ids]) @ (if cn then [] else [EvConn c]))"
    using assms by simp
  moreover have "arrivals ids c todo srt cn (map EvAdd todo @ es)" if "arrivals ids c [] srt cn es" for es
    using that by (induction todo) auto
  ultimately show ?thesis by blast
qed

lemma session_at_some:
  assumes "session_at E P r g s"
  obtains es where "completes P g es" "session_inv E P es g s"
proof -
  have "sg_cn g \<longrightarrow> sg_srt g" using assms by (simp add: session_at_def shell_def server_at_def)
  from arrivals_exist [OF this] that assms show ?thesis unfolding session_at_def by blast
qed

section \<open>The client's goroutines\<close>

lemma send_step_net:
  assumes "queue_Send_step (wsWriter_PW lanes_Write kstr) False waiter (pc, q, ws) = Some (pc', q', ws')"
  obtains c vs where "ws' = ws\<lparr>wv_net := (wv_net ws)(c := wv_net ws c @ vs)\<rparr>"
    "\<And>net. queue_Send_step (wsWriter_PW lanes_Write kstr) False waiter (pc, q, ws\<lparr>wv_net := net\<rparr>) =
       Some (pc', q', ws\<lparr>wv_net := net(c := net c @ vs)\<rparr>)"
proof -
  have same: "ws\<lparr>wv_net := (wv_net ws)(c := wv_net ws c @ [])\<rparr> = ws" for c by simp
  show ?thesis
  proof (cases pc)
    case (SendIter r)
    with assms that [of undefined "[]"] show ?thesis by (cases r) auto
  next
    case (SendPut w b r)
    show ?thesis
    proof (cases w)
      case None
      with SendPut assms that [of undefined "[]"] show ?thesis by auto
    next
      case (Some w')
      show ?thesis
      proof (cases "Ctx_Err w' ws")
        case None
        then have "Ctx_Err w' (ws\<lparr>wv_net := net\<rparr>) = None" for net by simp
        note put = writer_put [OF None] writer_put [OF this]
        show ?thesis
          using SendPut Some assms that [of "wr_WSC w'" "[frame_of kstr (wr_Id w') (if b_eof b then eof_buffer else data_buffer (b_data b))]"]
          by (auto simp: wsWriter_PW_def put split: if_splits)
      next
        case (Some e)
        with SendPut \<open>w = Some w'\<close> assms that [of undefined "[]"] show ?thesis
          by (auto simp: wsWriter_PW_def wsWriter_Write_def wsWriter_WriteEOF_def split: if_splits)
      qed
    qed
  next
    case (SendRead w r)
    with assms that [of undefined "[]"] show ?thesis by (auto split: option.splits)
  qed (use assms that [of undefined "[]"] in \<open>auto split: if_splits\<close>)
qed

lemma session_copy:
  assumes at: "session_at E P r g s"
    and step: "CopyBuffer_step (queue_PW False) () (sn_copy s, sn_src s, sn_q s) = Some (pc, src, q)"
    and s': "s' = s\<lparr>sn_copy := pc, sn_src := src, sn_q := q\<rparr>"
  shows "shell E P r g s'" and "follows True E P g s g s'"
proof -
  show "shell E P r g s'" using at by (simp add: session_at_def shell_def s')
  have "virtual E net es s' = (virtual E net es s)\<lparr>t_copy := pc, t_src := src, t_q := q\<rparr>"
      "vroute E P es s' = vroute E P es s" for net es
    by (simp_all add: virtual_def vroute_def s')
  moreover have "CopyBuffer_step (queue_PW False) () (t_copy (virtual E net es s), t_src (virtual E net es s),
      t_q (virtual E net es s)) = Some (pc, src, q)" for net es
    using step by (simp add: virtual_def)
  ultimately have "tunnel_step (se_kstr E) rcv me (virtual E net es s) (virtual E net es s')" for rcv me net es
    using ts_copy by metis
  with \<open>\<And>es. vroute E P es s' = vroute E P es s\<close> show "follows True E P g s g s'" unfolding follows_def by auto
qed

lemma session_send:
  assumes at: "session_at E P r g s"
    and step: "queue_Send_step (wsWriter_PW lanes_Write (se_kstr E)) False waiter (sn_qpc s, sn_q s, sn_ws s) =
      Some (pc, q, ws)"
    and s': "s' = s\<lparr>sn_qpc := pc, sn_q := q, sn_ws := ws\<rparr>"
  shows "\<exists>g'. shell E P r g' s' \<and> follows True E P g s g' s' \<and> sg_todo g' = sg_todo g \<and> sg_srt g' = sg_srt g"
proof -
  obtain c vs where ws: "ws = (sn_ws s)\<lparr>wv_net := (wv_net (sn_ws s))(c := wv_net (sn_ws s) c @ vs)\<rparr>"
    and any: "\<And>net. queue_Send_step (wsWriter_PW lanes_Write (se_kstr E)) False waiter
        (sn_qpc s, sn_q s, (sn_ws s)\<lparr>wv_net := net\<rparr>) = Some (pc, q, (sn_ws s)\<lparr>wv_net := net(c := net c @ vs)\<rparr>)"
    by (rule send_step_net [OF step], rule that)
  let ?net = "(sg_net g)(c := sg_net g c @ vs)"
  let ?g = "g\<lparr>sg_net := ?net\<rparr>"
  have "shell E P r ?g s'" using at by (auto simp: session_at_def shell_def s' ws)
  moreover have "virtual E ?net es s' =
      (virtual E (sg_net g) es s)\<lparr>t_qpc := pc, t_q := q, t_ws := (sn_ws s)\<lparr>wv_net := ?net\<rparr>\<rparr>"
      "vroute E P es s' = vroute E P es s" for es
    by (simp_all add: virtual_def vroute_def s' ws)
  moreover have "queue_Send_step (wsWriter_PW lanes_Write (se_kstr E)) False waiter
      (t_qpc (virtual E (sg_net g) es s), t_q (virtual E (sg_net g) es s), t_ws (virtual E (sg_net g) es s)) =
      Some (pc, q, (sn_ws s)\<lparr>wv_net := ?net\<rparr>)" for es
    using any [of "sg_net g"] by (simp add: virtual_def)
  then have "tunnel_step (se_kstr E) rcv me (virtual E (sg_net g) es s)
      ((virtual E (sg_net g) es s)\<lparr>t_qpc := pc, t_q := q, t_ws := (sn_ws s)\<lparr>wv_net := ?net\<rparr>\<rparr>)" for rcv me es
    by (rule ts_send)
  ultimately have "shell E P r ?g s' \<and> follows True E P g s ?g s'" unfolding follows_def by auto
  then show ?thesis by (intro exI [of _ ?g]) simp
qed

section \<open>The receive loops\<close>

lemma erase_rebuf: "erase (rebuf g h) = erase h"
  by (intro LinkHub.equality) (auto simp: fun_eq_iff)

lemma keeps_new_erase [simp]: "keeps_new (\<lambda>_ _. makeBuffer) h"
  by (simp add: keeps_new_def)

lemma link_of_lane:
  assumes "server_at E P todo srt cn r sv" and "i \<in> set (pl_ids P)" and "hs_frames E P todo srt i = []"
  obtains ri where "gm_get (lh_links (sv_links sv)) i = Some ri" "ri < lh_next (sv_links sv)"
proof -
  have i: "i \<notin> set todo" "i = se_master E \<longrightarrow> srt" using assms(3) by (auto simp: hs_frames_def split: if_splits)
  have "\<exists>ri. gm_get (lh_links (sv_links sv)) i = Some ri"
  proof (cases "i = se_master E")
    case True
    with i(2) assms(1) show ?thesis by (auto simp: server_at_def LinkHub_Get_def)
  next
    case False
    with i(1) assms(1,2) show ?thesis by (auto simp: server_at_def LinkHub_Get_def)
  qed
  with that assms(1) show ?thesis by (auto simp: server_at_def dest: lh_wfD)
qed

lemma server_at_rebuf:
  assumes "server_at E P todo srt cn r sv" and "keeps_new f (sv_links sv)" and "lh_wf (rebuf f (sv_links sv))"
  shows "server_at E P todo srt cn r (sv\<lparr>sv_links := rebuf f (sv_links sv)\<rparr>)"
  using assms by (simp add: server_at_def rebuf_ensure erase_rebuf LinkHub_Get_def)

lemma session_data:
  assumes at: "session_at E P r g s" and ok: "plan_ok E P" and pre: "sg_pre g c = []"
    and lane: "wv_net (sn_ws s) c = doc # docs"
    and step: "dispatchMessage (se_kparse E) (se_now E) False (sn_hubs s c) MessageText (Some doc) (sn_sv s) =
      Returns (err, sv)"
    and s': "s' = s\<lparr>sn_ws := (sn_ws s)\<lparr>wv_net := (wv_net (sn_ws s))(c := docs)\<rparr>, sn_sv := sv\<rparr>"
  shows "\<exists>g'. shell E P r g' s' \<and> follows True E P g s g' s' \<and> sg_todo g' = sg_todo g \<and> sg_srt g' = sg_srt g"
proof -
  let ?h = "sv_links (sn_sv s)" and ?kstr = "se_kstr E"
  have sh: "shell E P r g s" using at by (simp add: session_at_def)
  have net: "sg_net g c = doc # docs" using sh pre lane by (simp add: shell_def)
  have codec: "ksuid_codec ?kstr (se_kparse E)" using ok by (simp add: plan_ok_def)
  obtain es0 where "session_inv E P es0 g s" by (rule session_at_some [OF at])
  then obtain mid where l: "lanes_ok ?kstr (vroute E P es0 s) (lpos (length (pl_ids P)) (sn_lpc s)) mid (sg_net g)
        (t_lh (virtual E (sg_net g) es0 s))" and st: "stream_ok (vroute E P es0 s) mid (virtual E (sg_net g) es0 s)"
    by (auto simp: tunnel_inv_def virtual_def vroute_def)
  obtain n b nb where n: "n < length (pl_ids P)" "c = pl_conn P (pl_ids P ! n)"
      "doc = frame_of ?kstr (pl_ids P ! n) b" "b \<in> set mid"
    by (rule lanes_net [OF l net]) (simp add: vroute_def)
  define i where "i = pl_ids P ! n"
  have "b \<in> set (pending mid (virtual E (sg_net g) es0 s))" using n(4) by (simp add: pending_def)
  then have good: "good_buf b" using st by (simp add: stream_ok_def flow_ok_def)
  have i: "i \<in> set (pl_ids P)" "hs_frames E P (sg_todo g) (sg_srt g) i = []" "server_at E P (sg_todo g) (sg_srt g) (sg_cn g) r (sn_sv s)"
    using n sh pre by (auto simp: i_def shell_def)
  obtain ri where ri: "gm_get (lh_links ?h) i = Some ri" "ri < lh_next ?h" by (rule link_of_lane [OF i(3,1,2)])
  obtain h' where h': "deliver False i b ?h = Some h'" "sv = (sn_sv s)\<lparr>sv_links := h'\<rparr>"
    using step ri(1) unfolding dispatchMessage_def n(3) frame_of_def i_def [symmetric]
    by (auto simp: dispatch_data [OF codec tags_in_range] chunk_of_frame [OF good] LinkHub_Get_def or_block_def
        split: option.splits)
  obtain f where f: "h' = rebuf f ?h" "\<And>r'. r' \<noteq> ri \<Longrightarrow> f r' = id"
    using deliver_rebuf [OF ri(1) h'(1)] by metis
  then have k: "keeps_new f ?h" using ri(2) by (simp add: keeps_new_def)
  have "lh_wf h'" using i(3) h'(1) by (auto simp: server_at_def intro: deliver_wf)
  then have "server_at E P (sg_todo g) (sg_srt g) (sg_cn g) r sv"
    unfolding h'(2) f(1) by (intro server_at_rebuf i(3) k)
  then have "shell E P r (g\<lparr>sg_net := (sg_net g)(c := docs)\<rparr>) s'"
    using sh pre net by (auto simp: shell_def s' h'(2))
  moreover have "vroute E P es s' = vroute E P es s" for es
    by (simp add: vroute_def s' h'(2) f(1) rebuf_events [OF k] hub_route_def LinkHub_Get_def)
  moreover have "tunnel_step ?kstr (server_recv (se_kparse E) (se_now E) hubs sv0) me (virtual E (sg_net g) es s)
      (virtual E ((sg_net g)(c := docs)) es s')" for es hubs sv0 me
  proof -
    let ?t = "virtual E (sg_net g) es s"
    have "server_recv (se_kparse E) (se_now E) hubs sv0 c doc (t_lh ?t) =
        Some (fst (link_events (se_now E) (se_master E) es h'))"
      using server_rx.recv_frame [OF codec good, of "se_now E" hubs sv0 c i "t_lh ?t"] deliver_events [OF ri h'(1)] n(3)
      by (simp add: virtual_def i_def)
    moreover have "wv_net (t_ws ?t) c = doc # docs" using net by (simp add: virtual_def)
    ultimately have "tunnel_step ?kstr (server_recv (se_kparse E) (se_now E) hubs sv0) me ?t
        (?t\<lparr>t_ws := (t_ws ?t)\<lparr>wv_net := (wv_net (t_ws ?t))(c := docs)\<rparr>, t_lh := fst (link_events (se_now E) (se_master E) es h')\<rparr>)"
      by (rule ts_recv [rotated])
    then show ?thesis by (simp add: virtual_def s' h'(2))
  qed
  ultimately show ?thesis
    by (intro exI [of _ "g\<lparr>sg_net := (sg_net g)(c := docs)\<rparr>"]) (auto simp: follows_def)
qed

text \<open>An announcement: one connection fewer is outstanding.\<close>

lemma dispatchHi_result:
  assumes "ksuid_codec kstr kparse"
    and "dispatchMessage kparse now timer hub MessageText (Some (enc_message kstr (hi_message kstr i m))) sv = Returns (err, sv')"
  obtains qgo where "sv_links sv' = fst (LinkHub_Add now i m (sv_links sv))"
    "QueueHub_Add now m i (NewWebSocketWriter (hub_ws hub) i None) (sv_queues sv) = (sv_queues sv', qgo)"
    "sv_go sv' = sv_go sv @ (case qgo of None \<Rightarrow> [] | Some q \<Rightarrow> [GoQueueSend q]) @
       (case snd (LinkHub_Add now i m (sv_links sv)) of None \<Rightarrow> [] | Some l \<Rightarrow> [GoLinkSend l])"
proof -
  have "dec_masterID kparse (Some (JStr (kstr m))) = Some m" using dec_masterID_enc [OF assms(1), of m] by simp
  then have "sv' = (case QueueHub_Add now m i (NewWebSocketWriter (hub_ws hub) i None) (sv_queues sv) of (qh, qgo) \<Rightarrow>
      (case LinkHub_Add now i m (sv_links sv) of (lh, lgo) \<Rightarrow>
         spawn GoLinkSend lgo ((spawn GoQueueSend qgo (sv\<lparr>sv_queues := qh\<rparr>))\<lparr>sv_links := lh\<rparr>)))"
    using assms(2) by (simp add: dispatchMessage_def dispatch_hi [OF assms(1)] dispatchHi_def Let_def split: prod.splits)
  then show ?thesis
    by (intro that [of "snd (QueueHub_Add now m i (NewWebSocketWriter (hub_ws hub) i None) (sv_queues sv))"])
      (auto simp: spawn_def split: prod.splits option.splits)
qed

lemma queue_at_ensure:
  assumes "queue_at E P todo srt sv"
  obtains q where "gm_get (qh_queue (qh_ensure now (se_master E) (sv_queues sv))) (se_master E) = Some q"
    and "queue_filled P todo srt (qh_heap (qh_ensure now (se_master E) (sv_queues sv)) q)"
    and "GoQueueSend q \<in> set (sv_go sv) \<longrightarrow> todo = [] \<and> srt"
proof (cases "QueueHub_Get (se_master E) (sv_queues sv)")
  case None
  with assms that [of "qh_next (sv_queues sv)"] show ?thesis
    by (auto simp: queue_at_def QueueHub_Get_def qh_ensure_def qh_create_def queue_filled_def NewQueue_def fun_eq_iff)
next
  case (Some q)
  with assms that [of q] show ?thesis by (auto simp: queue_at_def QueueHub_Get_def qh_ensure_def)
qed

lemma queue_filled_len:
  assumes "queue_filled P todo srt q" and "distinct (pl_ids P)" and "set todo \<subseteq> set (pl_ids P)" and "pl_ids P \<noteq> []"
  shows "gm_len (q_writers q) = length (q_sorted q) \<longleftrightarrow> (if srt then todo = [] else set todo = set (pl_ids P))"
proof -
  have len: "gm_len (q_writers q) = card (set (pl_ids P) - set todo)"
    using assms(1) by (simp add: queue_filled_def gm_len_card)
  have "card (set (pl_ids P) - set todo) = card (set (pl_ids P)) - card (set todo)" "0 < card (set (pl_ids P))"
    using assms(3,4) by (simp_all add: card_Diff_subset card_gt_0_iff)
  then have "card (set (pl_ids P) - set todo) = card (set (pl_ids P)) \<longleftrightarrow> card (set todo) = 0"
    by linarith
  moreover have "card (set (pl_ids P) - set todo) = 0 \<longleftrightarrow> set todo = set (pl_ids P)"
    using assms(3) by (auto simp: card_eq_0_iff)
  moreover have "length (q_sorted q) = (if srt then card (set (pl_ids P)) else 0)"
    using assms(1,2) by (simp add: queue_filled_def distinct_card)
  ultimately show ?thesis
    unfolding len by (metis card_0_eq List.finite_set set_empty)
qed

lemma queue_filled_add:
  assumes "queue_filled P todo srt q" and "distinct todo" and "i \<in> set todo" and "set todo \<subseteq> set (pl_ids P)"
  shows "queue_filled P (remove1 i todo) srt (q\<lparr>q_writers := gm_put i (NewWebSocketWriter (pl_conn P i) i None) (q_writers q)\<rparr>)"
proof -
  have "set (pl_ids P) - set (remove1 i todo) = insert i (set (pl_ids P) - set todo)"
    using assms(2-4) by (auto simp: set_remove1_eq)
  with assms(1) show ?thesis by (simp add: queue_filled_def)
qed

lemma queue_at_hi:
  assumes at: "queue_at E P todo srt sv" and ids: "distinct todo" "i \<in> set todo" "set todo \<subseteq> set (pl_ids P)"
      "distinct (pl_ids P)" "pl_ids P \<noteq> []"
    and add: "QueueHub_Add now (se_master E) i (NewWebSocketWriter (pl_conn P i) i None) (sv_queues sv) = (qh, qgo)"
    and sv': "sv_queues sv' = qh"
      "sv_go sv' = sv_go sv @ (case qgo of None \<Rightarrow> [] | Some q \<Rightarrow> [GoQueueSend q]) @ (case go of None \<Rightarrow> [] | Some l \<Rightarrow> [GoLinkSend l])"
  shows "queue_at E P (remove1 i todo) srt sv' \<and> (srt \<longrightarrow> queue_up E todo pc sv \<longrightarrow> queue_up E (remove1 i todo) pc sv')"
proof -
  let ?m = "se_master E" and ?w = "NewWebSocketWriter (pl_conn P i) i None"
  obtain q where q: "gm_get (qh_queue (qh_ensure now ?m (sv_queues sv))) ?m = Some q"
      and fill: "queue_filled P todo srt (qh_heap (qh_ensure now ?m (sv_queues sv)) q)" and no: "GoQueueSend q \<notin> set (sv_go sv)"
    using queue_at_ensure [OF at] ids(2) by (metis empty_iff list.set(1))
  let ?h = "qh_update q (\<lambda>x. x\<lparr>q_writers := gm_put i ?w (q_writers x)\<rparr>) (qh_ensure now ?m (sv_queues sv))"
  have qh: "qh = ?h" "qgo = QueueHub_trySend ?m ?h" using add QueueHub_Add_ensure [OF q, of i ?w] by (auto simp: Let_def)
  have fill': "queue_filled P (remove1 i todo) srt (qh_heap qh q)"
    using queue_filled_add [OF fill ids(1-3)] by (simp add: qh(1))
  have sub: "set (remove1 i todo) \<subseteq> set (pl_ids P)" "set (remove1 i todo) \<noteq> set (pl_ids P)" using ids(1-3) by auto
  have go: "qgo = (if remove1 i todo = [] \<and> srt then Some q else None)"
    using queue_filled_len [OF fill' ids(4) sub(1) ids(5)] sub(2) q
    by (auto simp: qh QueueHub_trySend_def)
  have get: "QueueHub_Get ?m (sv_queues sv') = Some q" using q by (simp add: sv' qh(1) QueueHub_Get_def)
  have "queue_at E P (remove1 i todo) srt sv'"
    using fill' get no by (auto simp: queue_at_def sv' go split: option.splits)
  moreover have "queue_up E (remove1 i todo) pc sv'" if "srt" "queue_up E todo pc sv"
    using that get q by (auto simp: queue_up_def sv' go QueueHub_Get_def qh_ensure_def)
  ultimately show ?thesis by blast
qed

lemma gathered_known:
  assumes "gathered m ids todo srt conn r (rebuf f h)"
  shows "\<forall>i\<in>set ids - set todo. i = m \<or> LinkHub_Get i h \<noteq> None"
proof
  fix i
  assume "i \<in> set ids - set todo"
  with assms show "i = m \<or> LinkHub_Get i h \<noteq> None"
    unfolding gathered_def LinkHub_Get_def by (cases "i = m") auto
qed

lemma server_at_hi:
  assumes at: "server_at E P todo srt cn r sv" and ok: "plan_ok E P" and i: "i \<in> set todo"
    and hub: "hub_ws hub = pl_conn P i"
    and step: "dispatchMessage (se_kparse E) (se_now E) False hub MessageText
      (Some (enc_message (se_kstr E) (hi_message (se_kstr E) i (se_master E)))) sv = Returns (err, sv')"
  shows "server_at E P (remove1 i todo) srt cn r sv' \<and>
    (srt \<longrightarrow> queue_up E todo pc sv \<longrightarrow> queue_up E (remove1 i todo) pc sv') \<and> sv_links sv' = fst (LinkHub_Add (se_now E) i (se_master E) (sv_links sv))"
proof -
  let ?m = "se_master E" and ?now = "se_now E" and ?ids = "pl_ids P"
  let ?srt = "if srt then ?ids else []" and ?cn = "if cn then Some (pl_target P) else None"
  define h where "h = lh_ensure ?now ?m ?m (sv_links sv)"
  have g: "gathered ?m ?ids todo ?srt ?cn r (erase h)" and wf: "lh_wf (sv_links sv)"
    and nogo: "GoLinkSend r \<notin> set (sv_go sv)"
    using at i by (auto simp: server_at_def h_def)
  obtain lh go where add: "LinkHub_Add ?now i ?m (sv_links sv) = (lh, go)" by fastforce
  have "LinkHub_Add ?now i ?m h = (lh, go)"
    using ensure_event [of "EvAdd i" ?now ?m "sv_links sv"] add by (simp add: h_def)
  then have "LinkHub_Add ?now i ?m (erase h) = (erase lh, go)" by (simp add: rebuf_add)
  with gathered_add [OF g i, of ?now] have g': "gathered ?m ?ids (remove1 i todo) ?srt ?cn r (erase lh)"
    and go: "go = (if ?cn \<noteq> None \<and> Suc (length ?ids - length todo) = length ?srt then Some r else None)"
    by auto
  have len: "length todo \<le> length ?ids" using g by (simp add: gathered_def)
  have go': "go = (if cn \<and> srt \<and> remove1 i todo = [] then Some r else None)"
    using go remove1_last [OF i len] by auto
  have m: "gm_get (lh_links lh) ?m = Some r" using g' by (simp add: gathered_def)
  have ens: "lh_ensure ?now ?m ?m lh = lh" using m by (simp add: lh_ensure_def)
  have ne: "remove1 i todo \<noteq> ?ids"
    using len length_pos_if_in_set [OF i] i by (metis One_nat_def diff_less length_remove1 less_irrefl_nat less_le_trans zero_less_one)
  have codec: "ksuid_codec (se_kstr E) (se_kparse E)" using ok by (simp add: plan_ok_def)
  obtain qgo where sv': "sv_links sv' = lh"
      "QueueHub_Add ?now ?m i (NewWebSocketWriter (hub_ws hub) i None) (sv_queues sv) = (sv_queues sv', qgo)"
      "sv_go sv' = sv_go sv @ (case qgo of None \<Rightarrow> [] | Some q \<Rightarrow> [GoQueueSend q]) @ (case go of None \<Rightarrow> [] | Some l \<Rightarrow> [GoLinkSend l])"
    by (rule dispatchHi_result [OF codec step]) (simp add: add)
  have "lh_wf lh" using lh_wf_Add [OF wf, of ?now i ?m] add by simp
  moreover have "GoLinkSend r \<in> set (sv_go sv') \<longleftrightarrow> remove1 i todo = [] \<and> srt \<and> cn"
    using nogo by (auto simp: sv'(3) go' split: option.splits)
  moreover have "GoEstablish ?m a d \<in> set (sv_go sv') \<longleftrightarrow> GoEstablish ?m a d \<in> set (sv_go sv)" for a d
    by (auto simp: sv'(3) split: option.splits)
  moreover note gathered_known [OF g']
  moreover have "queue_at E P (remove1 i todo) srt sv' \<and> (srt \<longrightarrow> queue_up E todo pc sv \<longrightarrow> queue_up E (remove1 i todo) pc sv')"
    by (rule queue_at_hi [OF _ _ i _ _ _ sv'(2) [unfolded hub] refl sv'(3)])
      (use at g ok in \<open>auto simp: server_at_def gathered_def plan_ok_def\<close>)
  ultimately show ?thesis
    using at g' m ens ne add
    by (auto simp: server_at_def sv'(1) LinkHub_Get_def dest: notin_set_remove1)
qed

text \<open>The establish message: the order is known, and \<open>establish\<close> is started.\<close>

lemma queue_at_est:
  assumes at: "queue_at E P todo False sv"
    and sv': "sv_queues sv' = QueueHub_SetSort now (se_master E) (pl_ids P) (sv_queues sv)" "sv_go sv' = sv_go sv @ [GoEstablish m a d]"
  shows "queue_at E P todo True sv'"
proof -
  obtain q where q: "gm_get (qh_queue (qh_ensure now (se_master E) (sv_queues sv))) (se_master E) = Some q"
      and fill: "queue_filled P todo False (qh_heap (qh_ensure now (se_master E) (sv_queues sv)) q)"
      and no: "GoQueueSend q \<notin> set (sv_go sv)"
    using queue_at_ensure [OF at] by metis
  then show ?thesis
    by (auto simp: queue_at_def sv' QueueHub_SetSort_ensure [OF q] QueueHub_Get_def queue_SetSort_def queue_filled_def)
qed

text \<open>\<open>TrySend\<close> on the queue starts its sender only when every connection has been announced.\<close>

lemma queue_at_try:
  assumes at: "queue_at E P todo True sv" and ids: "distinct (pl_ids P)" "set todo \<subseteq> set (pl_ids P)" "pl_ids P \<noteq> []"
    and sv': "sv_queues sv' = sv_queues sv" "sv_go sv' = sv_go (spawn GoQueueSend (QueueHub_TrySend (se_master E) (sv_queues sv)) sv)"
  shows "queue_at E P todo True sv' \<and> queue_up E todo (EstGet c) sv'"
proof (cases "QueueHub_Get (se_master E) (sv_queues sv)")
  case None
  with at show ?thesis by (simp add: queue_at_def)
next
  case (Some q)
  then have fill: "queue_filled P todo True (qh_heap (sv_queues sv) q)" using at by (simp add: queue_at_def)
  from queue_filled_len [OF this ids] Some fill at show ?thesis
    by (auto simp: queue_at_def queue_up_def sv' QueueHub_TrySend_def QueueHub_trySend_def QueueHub_Get_def spawn_def)
qed

lemma server_at_est:
  assumes at: "server_at E P todo False cn r sv" and ok: "plan_ok E P" and m: "se_master E \<notin> set todo"
    and step: "dispatchMessage (se_kparse E) (se_now E) False hub MessageText
      (Some (enc_message (se_kstr E) (est_message (se_kstr E) (se_master E) (pl_first P) (pl_addr P) (pl_ids P)))) sv =
      Returns (err, sv')"
  shows "server_at E P todo True cn r sv' \<and> sv_links sv' = LinkHub_SetSort (se_now E) (se_master E) (pl_ids P) (sv_links sv)"
proof -
  let ?m = "se_master E" and ?now = "se_now E" and ?ids = "pl_ids P"
  have codec: "ksuid_codec (se_kstr E) (se_kparse E)" using ok by (simp add: plan_ok_def)
  define h where "h = lh_ensure ?now ?m ?m (sv_links sv)"
  define lh where "lh = LinkHub_SetSort ?now ?m ?ids (sv_links sv)"
  have cn: "\<not> cn" and g: "gathered ?m ?ids todo [] None r (erase h)" and wf: "lh_wf (sv_links sv)"
    using at by (auto simp: server_at_def h_def)
  have "LinkHub_SetSort ?now ?m ?ids h = lh"
    using ensure_event [of "EvSort ?ids" ?now ?m "sv_links sv"] by (simp add: h_def lh_def)
  then have g': "gathered ?m ?ids todo ?ids None r (erase lh)"
    using gathered_sort [OF g, of ?ids ?now] by (simp add: rebuf_sort)
  then have get: "gm_get (lh_links lh) ?m = Some r" by (simp add: gathered_def)
  then have ens: "lh_ensure ?now ?m ?m lh = lh" by (simp add: lh_ensure_def)
  have sv': "sv' = sv\<lparr>sv_queues := QueueHub_SetSort ?now ?m ?ids (sv_queues sv), sv_links := lh,
      sv_go := sv_go sv @ [GoEstablish ?m (pl_addr P) (pl_first P)]\<rparr>"
    using step by (simp add: dispatchMessage_def dispatch_est [OF codec] lh_def)
  have "lh_wf lh" unfolding lh_def by (rule lh_wf_SetSort [OF wf])
  moreover have "queue_at E P todo True sv'"
    by (rule queue_at_est) (use at in \<open>auto simp: server_at_def sv'\<close>)
  ultimately show ?thesis
    using at cn g' get ens m gathered_known [OF g']
    by (auto simp: server_at_def sv' lh_def [symmetric] LinkHub_Get_def)
qed

text \<open>How much of the handshake is still on the WebSockets.\<close>

definition hs_size :: "'c session_env \<Rightarrow> 'c plan \<Rightarrow> ksuid list \<Rightarrow> bool \<Rightarrow> nat" where
  "hs_size E P todo srt = (\<Sum>n<length (pl_ids P). length (hs_frames E P todo srt (pl_ids P ! n)))"

lemma hs_size_less:
  assumes ids: "distinct (pl_ids P)" "i \<in> set (pl_ids P)"
    and less: "hs_frames E P todo srt i = v # hs_frames E P todo' srt' i"
    and other: "\<And>j. j \<in> set (pl_ids P) \<Longrightarrow> j \<noteq> i \<Longrightarrow> hs_frames E P todo' srt' j = hs_frames E P todo srt j"
  shows "hs_size E P todo srt = Suc (hs_size E P todo' srt')"
proof -
  obtain n where n: "n < length (pl_ids P)" "pl_ids P ! n = i" using ids(2) by (auto simp: in_set_conv_nth)
  have "length (hs_frames E P todo srt (pl_ids P ! k)) = length (hs_frames E P todo' srt' (pl_ids P ! k))"
    if "k < length (pl_ids P)" "k \<noteq> n" for k
  proof -
    have "pl_ids P ! k \<noteq> i" using that n ids(1) by (metis nth_eq_iff_index_eq)
    with other that show ?thesis by simp
  qed
  from sum_at [OF n(1), of "\<lambda>k. length (hs_frames E P todo srt (pl_ids P ! k))", OF this] less n(2) show ?thesis
    by (simp add: hs_size_def)
qed

lemma session_hello:
  assumes at: "session_at E P r g s" and ok: "plan_ok E P" and pre: "sg_pre g c \<noteq> []"
    and lane: "wv_net (sn_ws s) c = doc # docs"
    and step: "dispatchMessage (se_kparse E) (se_now E) False (sn_hubs s c) MessageText (Some doc) (sn_sv s) =
      Returns (err, sv)"
    and s': "s' = s\<lparr>sn_ws := (sn_ws s)\<lparr>wv_net := (wv_net (sn_ws s))(c := docs)\<rparr>, sn_sv := sv\<rparr>"
  shows "\<exists>g'. shell E P r g' s' \<and> follows False E P g s g' s' \<and>
    hs_size E P (sg_todo g') (sg_srt g') < hs_size E P (sg_todo g) (sg_srt g)"
proof -
  let ?m = "se_master E" and ?todo = "sg_todo g" and ?srt = "sg_srt g"
  have sh: "shell E P r g s" using at by (simp add: session_at_def)
  have sv: "server_at E P ?todo ?srt (sg_cn g) r (sn_sv s)" and est: "est_at (pl_target P) ?srt (sg_cn g) (sn_est s)"
    using sh by (simp_all add: shell_def)
  obtain i where i: "i \<in> set (pl_ids P)" "c = pl_conn P i" "sg_pre g c = hs_frames E P ?todo ?srt i"
  proof -
    have "c \<in> pl_conn P ` set (pl_ids P)" using sh pre unfolding shell_def by blast
    with that sh show ?thesis unfolding shell_def by blast
  qed
  obtain vs where vs: "sg_pre g c = doc # vs" "docs = vs @ sg_net g c"
  proof -
    have "wv_net (sn_ws s) c = sg_pre g c @ sg_net g c" using sh unfolding shell_def by blast
    with that pre lane show ?thesis by (cases "sg_pre g c") auto
  qed
  with i(3) have docs: "hs_frames E P ?todo ?srt i = doc # vs" by simp
  have ids: "distinct (pl_ids P)" "inj_on (pl_conn P) (set (pl_ids P))" using ok by (simp_all add: plan_ok_def)
  have todo: "distinct ?todo" using sv by (auto simp: server_at_def gathered_def)
  define todo' where "todo' = (if i \<in> set ?todo then remove1 i ?todo else ?todo)"
  define srt' where "srt' \<longleftrightarrow> i \<notin> set ?todo \<or> ?srt"
  define g' where "g' = g\<lparr>sg_todo := todo', sg_srt := srt', sg_pre := (sg_pre g)(c := vs)\<rparr>"
  have m: "\<not> ?srt \<and> i = ?m" if "i \<notin> set ?todo" using docs that by (auto simp: hs_frames_def split: if_splits)
  have frames: "hs_frames E P ?todo ?srt i = doc # hs_frames E P todo' srt' i"
  proof (cases "i \<in> set ?todo")
    case True
    with docs todo show ?thesis by (simp add: hs_frames_def todo'_def srt'_def)
  next
    case False
    with docs m [OF False] show ?thesis by (simp add: hs_frames_def todo'_def srt'_def)
  qed
  have other: "hs_frames E P todo' srt' j = hs_frames E P ?todo ?srt j" if "j \<noteq> i" for j
  proof (cases "i \<in> set ?todo")
    case True
    with that show ?thesis by (simp add: hs_frames_def todo'_def srt'_def)
  next
    case False
    with that m [OF False] show ?thesis by (simp add: hs_frames_def todo'_def srt'_def)
  qed
  have hub: "hub_ws (sn_hubs s c) = pl_conn P i" using sh i(2) by (simp add: shell_def)
  have up: "queue_up E ?todo (sn_est s) (sn_sv s)" using sh by (simp add: shell_def)
  have cn: "sg_cn g \<longrightarrow> ?srt" using sv by (simp add: server_at_def)
  have early: "queue_up E td (sn_est s) sv'" if "\<not> ?srt" for td sv'
    using est cn that by (auto simp: est_at_def queue_up_def split: if_splits)
  have new: "server_at E P todo' srt' (sg_cn g) r sv \<and> queue_up E todo' (sn_est s) sv \<and> (\<exists>e. sv_links sv = fst (link_event_step (se_now E) ?m e (sv_links (sn_sv s))) \<and>
      (\<forall>es. completes P g' es \<longrightarrow> completes P g (e # es)))"
  proof (cases "i \<in> set ?todo")
    case True
    then have "doc = enc_message (se_kstr E) (hi_message (se_kstr E) i ?m)" using docs by (simp add: hs_frames_def)
    from server_at_hi [OF sv ok True hub step [unfolded this], of "sn_est s"] True up early show ?thesis
      by (intro conjI exI [of _ "EvAdd i"]) (auto simp add: todo'_def srt'_def g'_def)
  next
    case False
    with docs m [OF False] have d: "\<not> ?srt" "?m \<notin> set ?todo"
        "doc = enc_message (se_kstr E) (est_message (se_kstr E) ?m (pl_first P) (pl_addr P) (pl_ids P))"
      by (simp_all add: hs_frames_def)
    from sv d(1) have "server_at E P ?todo False (sg_cn g) r (sn_sv s)" by simp
    from server_at_est [OF this ok d(2) step [unfolded d(3)]] False d early show ?thesis
      by (intro conjI exI [of _ "EvSort (pl_ids P)"]) (simp_all add: todo'_def srt'_def g'_def)
  qed
  have "sn_lpc s = SendEntry" using sh docs by (auto simp: shell_def hs_frames_def split: if_splits)
  moreover have "est_at (pl_target P) srt' (sg_cn g) (sn_est s)" using est by (auto simp: est_at_def srt'_def split: if_splits)
  moreover have "sg_pre g' (pl_conn P j) = hs_frames E P todo' srt' j" if "j \<in> set (pl_ids P)" for j
  proof (cases "j = i")
    case True
    with i(2) docs frames show ?thesis by (simp add: g'_def)
  next
    case False
    with that i(1,2) ids(2) have "pl_conn P j \<noteq> c" by (simp add: inj_on_eq_iff)
    with sh that other [OF False] show ?thesis by (simp add: g'_def shell_def)
  qed
  ultimately have "shell E P r g' s'"
    using sh new vs i(1,2) by (auto simp: shell_def s' g'_def)
  moreover have "follows False E P g s g' s'"
    unfolding follows_def
  proof (intro allI impI)
    fix es
    assume "completes P g' es"
    with new obtain e where e: "sv_links sv = fst (link_event_step (se_now E) ?m e (sv_links (sn_sv s)))"
      "completes P g (e # es)" by blast
    then show "\<exists>es'. completes P g es' \<and> vroute E P es s' = vroute E P es' s \<and>
      (if False then \<exists>hubs sv. tunnel_step (se_kstr E) (server_recv (se_kparse E) (se_now E) hubs sv)
         (rt_link (vroute E P es' s) 0) (virtual E (sg_net g) es' s) (virtual E (sg_net g') es s')
       else virtual E (sg_net g') es s' = virtual E (sg_net g) es' s)"
      by (intro exI [of _ "e # es"]) (simp add: vroute_def virtual_def s' g'_def)
  qed
  moreover have "hs_size E P ?todo ?srt = Suc (hs_size E P todo' srt')"
    by (rule hs_size_less [OF ids(1) i(1) frames other])
  ultimately show ?thesis by (intro exI [of _ g']) (simp add: g'_def)
qed

section \<open>establish\<close>

fun est_weight :: "est_pc \<Rightarrow> nat" where
  "est_weight EstCheck = 7"
| "est_weight EstDial = 6"
| "est_weight (EstLink c) = 5"
| "est_weight (EstWaiter c) = 4"
| "est_weight (EstAdd c) = 3"
| "est_weight (EstQueue c) = 2"
| "est_weight (EstGet c) = 1"
| "est_weight _ = 0"

text \<open>Goroutines that are none of the session's sender and establisher do not matter.\<close>

lemma server_at_go:
  assumes "server_at E P todo srt cn r sv" and "\<And>l. x \<noteq> GoLinkSend l" and "\<And>a b d. x \<noteq> GoEstablish a b d"
    and "\<And>q. x \<noteq> GoQueueSend q"
  shows "server_at E P todo srt cn r (sv\<lparr>sv_go := sv_go sv @ [x]\<rparr>)"
  using assms(1-3) queue_at_go [OF _ assms(4), of E P todo srt sv] by (auto simp: server_at_def)

lemma server_at_spawn:
  assumes "server_at E P todo srt cn r sv" and "\<And>q l. f q \<noteq> GoLinkSend l" and "\<And>q a b d. f q \<noteq> GoEstablish a b d"
    and "\<And>q q'. f q \<noteq> GoQueueSend q'"
  shows "server_at E P todo srt cn r (spawn f x sv)"
  using server_at_go [OF assms(1)] assms by (simp add: spawn_def split: option.split)

lemma server_at_try:
  assumes at: "server_at E P todo True cn r sv" and ok: "plan_ok E P"
  shows "server_at E P todo True cn r (spawn GoQueueSend (QueueHub_TrySend (se_master E) (sv_queues sv)) sv) \<and>
    queue_up E todo (EstGet c) (spawn GoQueueSend (QueueHub_TrySend (se_master E) (sv_queues sv)) sv)"
proof -
  have todo: "set todo \<subseteq> set (pl_ids P)" and q: "queue_at E P todo True sv"
    using at unfolding server_at_def gathered_def by force+
  have "queue_at E P todo True (spawn GoQueueSend (QueueHub_TrySend (se_master E) (sv_queues sv)) sv) \<and>
      queue_up E todo (EstGet c) (spawn GoQueueSend (QueueHub_TrySend (se_master E) (sv_queues sv)) sv)"
    using ok by (intro queue_at_try [OF q _ todo]) (simp_all add: plan_ok_def)
  moreover have "GoLinkSend l \<in> set (sv_go (spawn GoQueueSend x sv)) \<longleftrightarrow> GoLinkSend l \<in> set (sv_go sv)"
      "GoEstablish i a d \<in> set (sv_go (spawn GoQueueSend x sv)) \<longleftrightarrow> GoEstablish i a d \<in> set (sv_go sv)" for l i a d x
    by (auto simp: spawn_def split: option.split)
  ultimately show ?thesis using at by (simp add: server_at_def)
qed

lemma establish_hub_ws:
  assumes "establish_step wsw kstr LookupIP Dial waited e cid addr (pc, s) = Some (pc', s')"
  shows "hub_ws (es_hub s') = hub_ws (es_hub s)"
  using assms
  by (cases "(wsw, kstr, LookupIP, Dial, waited, e, cid, addr, (pc, s))" rule: establish_step.cases)
    (auto simp: Let_def Hub_addNewProxy_def Hub_RemoveProxy_def split: option.splits prod.splits if_splits outcome.splits)

text \<open>Handing the dialled connection to the links.\<close>

lemma server_at_conn:
  assumes at: "server_at E P todo True False r sv"
    and try_it: "LinkHub_TrySend (se_master E) (Some (pl_target P)) (sv_links sv) = (lh, go)" and ids: "pl_ids P \<noteq> []"
  shows "server_at E P todo True True r (spawn GoLinkSend go (sv\<lparr>sv_links := lh\<rparr>))"
proof -
  let ?m = "se_master E"
  have get: "gm_get (lh_links (sv_links sv)) ?m = Some r" using at by (simp add: server_at_def LinkHub_Get_def)
  then have ens: "lh_ensure (se_now E) ?m ?m (sv_links sv) = sv_links sv" by (simp add: lh_ensure_def)
  have g: "gathered ?m (pl_ids P) todo (pl_ids P) None r (erase (sv_links sv))" and wf: "lh_wf (sv_links sv)"
    using at ens by (auto simp: server_at_def)
  have "LinkHub_TrySend ?m (Some (pl_target P)) (erase (sv_links sv)) = (erase lh, go)"
    using try_it by (simp add: LinkHub_TrySend_def rebuf_trySend)
  with gathered_conn [OF g, of "pl_target P"] have g': "gathered ?m (pl_ids P) todo (pl_ids P) (Some (pl_target P)) r (erase lh)"
    and go: "go = (if length (pl_ids P) - length todo = length (pl_ids P) then Some r else None)"
    by auto
  have "length todo \<le> length (pl_ids P)" using g by (simp add: gathered_def)
  then have go': "go = (if todo = [] then Some r else None)" using go ids by (cases todo) auto
  have get': "gm_get (lh_links lh) ?m = Some r" using g' by (simp add: gathered_def)
  then have "lh_ensure (se_now E) ?m ?m lh = lh" by (simp add: lh_ensure_def)
  moreover have "lh_wf lh" using lh_wf_trySend [OF wf, of ?m "Some (pl_target P)"] try_it by (simp add: LinkHub_TrySend_def)
  ultimately show ?thesis
    using at g' get' go' gathered_known [OF g']
    by (auto simp: server_at_def queue_at_def spawn_def LinkHub_Get_def split: option.splits)
qed

lemma session_est:
  assumes at: "session_at E P r g s" and ok: "plan_ok E P"
    and go: "GoEstablish (se_master E) addr fsd \<in> set (sv_go (sn_sv s))"
    and step: "establish_step lanes_Write (se_kstr E) (se_LookupIP E) (se_Dial E) False (se_est E) (se_master E) addr
       (sn_est s, \<lparr>es_hub = sn_hubs s (se_conn E), es_sv = sn_sv s, es_conns = sn_conns s, es_net = sn_down s\<rparr>) =
       Some (pc, v)"
    and s': "s' = s\<lparr>sn_est := pc, sn_sv := es_sv v, sn_hubs := (sn_hubs s)(se_conn E := es_hub v),
       sn_conns := es_conns v, sn_down := es_net v\<rparr>"
  shows "\<exists>g'. shell E P r g' s' \<and> follows False E P g s g' s' \<and> sg_todo g' = sg_todo g \<and> sg_srt g' = sg_srt g \<and>
    est_weight (sn_est s') < est_weight (sn_est s)"
proof -
  have sh: "shell E P r g s" using at by (simp add: session_at_def)
  have sv: "server_at E P (sg_todo g) (sg_srt g) (sg_cn g) r (sn_sv s)" and est: "est_at (pl_target P) (sg_srt g) (sg_cn g) (sn_est s)"
    using sh by (simp_all add: shell_def)
  have known: "sg_srt g" "addr = pl_addr P" using go sv by (auto simp: server_at_def)
  have p: "\<not> checkAddrPrivite (se_LookupIP E) addr" "se_Dial E addr = Inr (pl_target P)" "pl_ids P \<noteq> []"
    using ok known by (simp_all add: plan_ok_def)
  have hub: "hub_ws (es_hub v) = hub_ws (sn_hubs s (se_conn E))" using establish_hub_ws [OF step] by simp
  have quiet: ?thesis
    if "server_at E P (sg_todo g) (sg_srt g) (sg_cn g) r (es_sv v)" "queue_up E (sg_todo g) pc (es_sv v)"
      "es_net v = sn_down s" "sv_links (es_sv v) = sv_links (sn_sv s)"
      "es_conns v = sn_conns s" "est_at (pl_target P) (sg_srt g) (sg_cn g) pc" "est_weight pc < est_weight (sn_est s)"
    using that sh hub by (intro exI [of _ g]) (auto simp: shell_def follows_def vroute_def virtual_def s')
  show ?thesis
  proof (cases "sn_est s")
    case EstCheck
    with step p est show ?thesis by (intro quiet) (use sv known in \<open>auto simp: est_at_def\<close>)
  next
    case EstDial
    with step p est show ?thesis by (intro quiet) (use sv known in \<open>auto simp: est_at_def split: if_splits\<close>)
  next
    case (EstLink c)
    with est have cn: "\<not> sg_cn g" "c = pl_target P" by (auto simp: est_at_def split: if_splits)
    obtain lh lgo where try_it: "LinkHub_TrySend (se_master E) (Some (pl_target P)) (sv_links (sn_sv s)) = (lh, lgo)" by fastforce
    with step EstLink cn have v: "pc = EstWaiter c" "es_sv v = spawn GoLinkSend lgo ((sn_sv s)\<lparr>sv_links := lh\<rparr>)" "es_conns v = sn_conns s" "es_net v = sn_down s"
      by auto
    let ?g = "g\<lparr>sg_cn := True\<rparr>"
    have "server_at E P (sg_todo g) True False r (sn_sv s)" using sv known(1) cn(1) by simp
    from server_at_conn [OF this try_it p(3)] have "shell E P r ?g s'"
      using sh known(1) cn v hub by (auto simp: shell_def s' est_at_def)
    moreover have "completes P g (EvConn (pl_target P) # es)" if "completes P ?g es" for es
      using that known(1) cn(1) by simp
    moreover have "vroute E P es s' = vroute E P (EvConn (pl_target P) # es) s"
        "virtual E (sg_net ?g) es s' = virtual E (sg_net g) (EvConn (pl_target P) # es) s" for es
      using try_it by (simp_all add: vroute_def virtual_def s' v)
    ultimately have "follows False E P g s ?g s'" unfolding follows_def by (metis (full_types))
    moreover note \<open>shell E P r ?g s'\<close>
    ultimately show ?thesis using v(1) EstLink by (intro exI [of _ ?g]) (simp add: s')
  next
    case (EstWaiter c)
    with step have v: "pc = EstAdd c" "v = \<lparr>es_hub = sn_hubs s (se_conn E), es_sv = spawn (GoLinkWaiter (se_master E)) (Some c) (sn_sv s),
        es_conns = sn_conns s, es_net = sn_down s\<rparr>"
      by auto
    show ?thesis by (rule quiet) (use v EstWaiter est server_at_spawn [OF sv] in \<open>auto simp: est_at_def split: if_splits\<close>)
  next
    case (EstAdd c)
    with step est show ?thesis by (intro quiet) (use sv in \<open>auto simp: est_at_def split: if_splits\<close>)
  next
    case (EstQueue c)
    with step have v: "pc = EstGet c" "v = \<lparr>es_hub = sn_hubs s (se_conn E),
        es_sv = spawn GoQueueSend (QueueHub_TrySend (se_master E) (sv_queues (sn_sv s))) (sn_sv s),
        es_conns = sn_conns s, es_net = sn_down s\<rparr>"
      by auto
    show ?thesis by (rule quiet) (use v EstQueue est server_at_try [OF sv [unfolded eqTrueI [OF known(1)]] ok] known(1) in
        \<open>auto simp: est_at_def split: if_splits\<close>)
  next
    case (EstGet c)
    have "queue_at E P (sg_todo g) True (sn_sv s)" using sv known(1) by (simp add: server_at_def)
    then obtain q where q: "QueueHub_Get (se_master E) (sv_queues (sn_sv s)) = Some q" using queue_at_get by blast
    have "queue_up E (sg_todo g) (EstGet c) (sn_sv s)" using sh EstGet by (simp add: shell_def)
    note up = queue_up_copy [OF this q]
    from q EstGet step have v: "pc = EstWait (Some q) c" "v = \<lparr>es_hub = sn_hubs s (se_conn E),
        es_sv = spawn (\<lambda>q. GoCopy q c) (Some q) (sn_sv s), es_conns = sn_conns s, es_net = sn_down s\<rparr>"
      by (auto simp: Let_def)
    show ?thesis by (rule quiet) (use v EstGet est server_at_spawn [OF sv] up in \<open>auto simp: est_at_def split: if_splits\<close>)
  qed (use est step in \<open>auto simp: est_at_def split: if_splits\<close>)
qed

section \<open>link.Send\<close>

lemma link_Send_links:
  assumes "link_Send_step timer waiter me (pc, h, conns) = Some (pc', h', conns')"
  shows "lh_links h' = lh_links h"
  using assms
  by (cases "(timer, waiter, me, pc, h, conns)" rule: link_Send_step.cases)
    (auto split: option.splits prod.splits if_splits)

lemma read_keeps_closed: "readWithTimeout c timer = Some (x, c') \<Longrightarrow> ch_closed c' = ch_closed c"
  by (auto simp: readWithTimeout_def chan_recv_def split: list.splits if_splits option.splits)

lemma link_Send_wf:
  assumes "lh_wf h" and "link_Send_step timer waiter me (pc, h, conns) = Some (pc', h', conns')"
  shows "lh_wf h'"
  using assms
  by (cases "(timer, waiter, me, pc, h, conns)" rule: link_Send_step.cases)
    (auto intro!: lh_wf_update simp: link_live_def dest: read_keeps_closed
      split: option.splits prod.splits if_splits)

lemma session_write:
  assumes at: "session_at E P r g s" and ok: "plan_ok E P"
    and get: "LinkHub_Get (se_master E) (sv_links (sn_sv s)) = Some r'" and go: "GoLinkSend r' \<in> set (sv_go (sn_sv s))"
    and step: "link_Send_step False waiter r' (sn_lpc s, sv_links (sn_sv s), sn_conns s) = Some (pc, lh, conns)"
    and s': "s' = s\<lparr>sn_lpc := pc, sn_sv := (sn_sv s)\<lparr>sv_links := lh\<rparr>, sn_conns := conns\<rparr>"
  shows "shell E P r g s' \<and> follows True E P g s g s'"
proof -
  have sh: "shell E P r g s" using at by (simp add: session_at_def)
  have sv: "server_at E P (sg_todo g) (sg_srt g) (sg_cn g) r (sn_sv s)" using sh by (simp add: shell_def)
  have r: "r' = r" using sv get by (auto simp: server_at_def split: if_splits)
  have complete: "sg_todo g = []" "sg_srt g" "sg_cn g" using sv go by (simp_all add: server_at_def r)
  have "lh_wf lh" using link_Send_wf [OF _ step] sv by (simp add: server_at_def)
  note links = link_Send_links [OF step]
  have "server_at E P (sg_todo g) (sg_srt g) (sg_cn g) r ((sn_sv s)\<lparr>sv_links := lh\<rparr>)"
    using sv complete \<open>lh_wf lh\<close> by (simp add: server_at_def LinkHub_Get_def links)
  then have "shell E P r g s'" using sh complete by (simp add: shell_def s')
  moreover have "follows True E P g s g s'"
    unfolding follows_def
  proof (intro allI impI exI conjI)
    fix es'
    assume "completes P g es'"
    then have es: "es' = []" using complete arrivals_done by simp
    show "completes P g []" using complete by simp
    show "vroute E P es' s' = vroute E P [] s" by (simp add: es vroute_def s' hub_route_def LinkHub_Get_def links)
    have "rt_link (vroute E P [] s) 0 = r'"
      using ok get by (simp add: vroute_def plan_ok_def hd_conv_nth)
    moreover have "virtual E (sg_net g) es' s' = (virtual E (sg_net g) [] s)\<lparr>t_lpc := pc, t_lh := lh, t_conns := conns\<rparr>"
      by (simp add: virtual_def s' es)
    moreover have "link_Send_step False waiter r' (t_lpc (virtual E (sg_net g) [] s), t_lh (virtual E (sg_net g) [] s),
        t_conns (virtual E (sg_net g) [] s)) = Some (pc, lh, conns)"
      using step by (simp add: virtual_def)
    ultimately have "tunnel_step (se_kstr E) rcv (rt_link (vroute E P [] s) 0) (virtual E (sg_net g) [] s)
        (virtual E (sg_net g) es' s')" for rcv
      using ts_write by metis
    then show "if True then \<exists>hubs sv. tunnel_step (se_kstr E) (server_recv (se_kparse E) (se_now E) hubs sv)
        (rt_link (vroute E P [] s) 0) (virtual E (sg_net g) [] s) (virtual E (sg_net g) es' s')
      else virtual E (sg_net g) es' s' = virtual E (sg_net g) [] s"
      by simp
  qed
  ultimately show ?thesis ..
qed

section \<open>Every step\<close>

text \<open>Every step moves the transfer to come, shortens the handshake, or moves \<open>establish\<close>.\<close>

definition progress :: "'c session_env \<Rightarrow> 'c plan \<Rightarrow> 'c stage \<Rightarrow> 'c session \<Rightarrow> 'c stage \<Rightarrow> 'c session \<Rightarrow> bool" where
  "progress E P g s g' s' \<longleftrightarrow>
     follows True E P g s g' s' \<and> hs_size E P (sg_todo g') (sg_srt g') = hs_size E P (sg_todo g) (sg_srt g) \<and> sn_est s' = sn_est s \<or>
     follows False E P g s g' s' \<and> hs_size E P (sg_todo g') (sg_srt g') < hs_size E P (sg_todo g) (sg_srt g) \<and> sn_est s' = sn_est s \<or>
     follows False E P g s g' s' \<and> hs_size E P (sg_todo g') (sg_srt g') = hs_size E P (sg_todo g) (sg_srt g) \<and>
       est_weight (sn_est s') < est_weight (sn_est s)"

lemma session_progress:
  assumes at: "session_at E P r g s" and ok: "plan_ok E P" and step: "session_step E s s'"
  obtains g' where "session_at E P r g' s'" "progress E P g s g' s'"
proof -
  have "\<exists>g'. shell E P r g' s' \<and> progress E P g s g' s'"
    using step
  proof (cases rule: session_step.cases)
    case (ss_copy pc src q)
    with session_copy [OF at ss_copy(2,1)] show ?thesis by (intro exI [of _ g]) (simp add: progress_def)
  next
    case (ss_send waiter pc q ws)
    with session_send [OF at ss_send(2,1)] show ?thesis by (auto simp: progress_def)
  next
    case (ss_recv c doc docs err sv)
    show ?thesis
    proof (cases "sg_pre g c = []")
      case True
      from session_data [OF at ok True ss_recv(2,3,1)] ss_recv(1) show ?thesis by (auto simp: progress_def)
    next
      case False
      from session_hello [OF at ok False ss_recv(2,3,1)] ss_recv(1) show ?thesis by (auto simp: progress_def)
    qed
  next
    case (ss_est addr fsd pc v)
    from session_est [OF at ok ss_est(2,3,1)] show ?thesis by (auto simp: progress_def)
  next
    case (ss_write r' waiter pc lh conns)
    with session_write [OF at ok ss_write(2,3,4,1)] show ?thesis by (intro exI [of _ g]) (simp add: progress_def)
  qed
  then obtain g' where "shell E P r g' s'" "progress E P g s g' s'" by blast
  with that follows_at [OF at] show ?thesis by (auto simp: progress_def)
qed

section \<open>Every run is finite\<close>

definition session_weight :: "'c plan \<Rightarrow> 'c session \<Rightarrow> nat" where
  "session_weight P s =
     13 * rx_size (rx (sn_src s)) + copy_weight (sn_copy s) + 11 * length (ch_buf (q_buffer (sn_q s))) +
     pc_weight 10 (sn_qpc s) +
     (\<Sum>n<length (pl_ids P). 6 * length (wv_net (sn_ws s) (pl_conn P (pl_ids P ! n))) +
        5 * buffered (sv_links (sn_sv s)) (pl_ids P ! n)) +
     pc_weight 4 (sn_lpc s) + est_weight (sn_est s)"

lemma session_weight_split:
  assumes at: "session_at E P r g s" and es: "completes P g es"
  shows "session_weight P s =
    tunnel_weight (vroute E P es s) (virtual E (sg_net g) es s) + 6 * hs_size E P (sg_todo g) (sg_srt g) + est_weight (sn_est s)"
proof -
  let ?h = "fst (link_events (se_now E) (se_master E) es (sv_links (sn_sv s)))"
  have sh: "shell E P r g s" and inv: "session_inv E P es g s" using at es by (simp_all add: session_at_def)
  have wf: "lh_wf (sv_links (sn_sv s))" using sh by (simp add: shell_def server_at_def)
  have "6 * length (wv_net (sn_ws s) (pl_conn P (pl_ids P ! n))) + 5 * buffered (sv_links (sn_sv s)) (pl_ids P ! n) =
      lane_weight (vroute E P es s) (sg_net g) ?h n + 6 * length (hs_frames E P (sg_todo g) (sg_srt g) (pl_ids P ! n))"
    if n: "n < length (pl_ids P)" for n
  proof -
    have "gm_get (lh_links ?h) (pl_ids P ! n) = Some (the (LinkHub_Get (pl_ids P ! n) ?h))"
      using inv n by (simp add: tunnel_inv_def links_ok_def vroute_def virtual_def)
    then have "buffered ?h (pl_ids P ! n) = length (ch_buf (l_buffer (lh_heap ?h (the (LinkHub_Get (pl_ids P ! n) ?h)))))"
      by (simp add: buffered_def)
    with buffered_events [OF wf, of "se_now E" "se_master E" es "pl_ids P ! n"] sh n show ?thesis
      by (simp add: lane_weight_def vroute_def shell_def)
  qed
  then show ?thesis
    by (simp add: session_weight_def tunnel_weight_def virtual_def vroute_def hs_size_def sum.distrib sum_distrib_left)
qed

lemma session_weight_less:
  assumes at: "session_at E P r g s" and at': "session_at E P r g' s'" and pr: "progress E P g s g' s'"
  shows "session_weight P s' < session_weight P s"
proof -
  obtain es' where es': "completes P g' es'" by (rule session_at_some [OF at'])
  note w' = session_weight_split [OF at' es']
  show ?thesis
  proof (cases "follows True E P g s g' s' \<and> hs_size E P (sg_todo g') (sg_srt g') = hs_size E P (sg_todo g) (sg_srt g) \<and> sn_est s' = sn_est s")
    case True
    with es' obtain es hubs sv where es: "completes P g es" "vroute E P es' s' = vroute E P es s"
        "tunnel_step (se_kstr E) (server_recv (se_kparse E) (se_now E) hubs sv) (rt_link (vroute E P es s) 0)
           (virtual E (sg_net g) es s) (virtual E (sg_net g') es' s')"
      unfolding follows_def by auto
    from at es(1) have "session_inv E P es g s" by (simp add: session_at_def)
    from tunnel_step_weight [OF server_rx.frame_receiver_axioms this es(3)] True es(2) w'
      session_weight_split [OF at es(1)] show ?thesis by simp
  next
    case False
    with pr have f: "follows False E P g s g' s'"
        "hs_size E P (sg_todo g') (sg_srt g') + est_weight (sn_est s') < hs_size E P (sg_todo g) (sg_srt g) + est_weight (sn_est s)"
        "hs_size E P (sg_todo g') (sg_srt g') \<le> hs_size E P (sg_todo g) (sg_srt g)"
      by (auto simp: progress_def)
    from f(1) es' obtain es where "completes P g es" "vroute E P es' s' = vroute E P es s"
        "virtual E (sg_net g') es' s' = virtual E (sg_net g) es s"
      unfolding follows_def by auto
    with f(2,3) w' session_weight_split [OF at this(1)] show ?thesis by simp
  qed
qed

interpretation session_run: terminating_machine "session_step E" "\<lambda>s. plan_ok E P \<and> (\<exists>g. session_at E P r g s)"
  "session_weight P" for E P r
  by unfold_locales (blast elim: session_progress, blast elim: session_progress intro: session_weight_less)

section \<open>The byte pipe\<close>

definition session_pipe :: "'c session_env \<Rightarrow> 'c plan \<Rightarrow> ref \<Rightarrow> bytes \<Rightarrow> 'c session \<Rightarrow> byte_pipe \<Rightarrow> bool" where
  "session_pipe E P r before s p \<longleftrightarrow> plan_ok E P \<and> (\<exists>g. session_at E P r g s \<and>
     (\<forall>es. completes P g es \<longrightarrow> pipe_of (\<lambda>_ _. ksuid_codec (se_kstr E) (se_kparse E)) (se_kstr E)
        (vroute E P es s) before (virtual E (sg_net g) es s) p))"

lemma pipe_of_any:
  assumes "pipe_of acc kstr (vroute E P es s) before (virtual E net es s) p"
    and "tunnel_inv acc kstr (vroute E P es' s) (virtual E net es' s)"
  shows "pipe_of acc kstr (vroute E P es' s) before (virtual E net es' s) p"
  using assms by (simp add: pipe_of_def vroute_def virtual_def unread_def)

interpretation session_sim: simulation "session_step E" pipe_step "session_pipe E P r before" for E P r before
proof
  fix s p s'
  assume rel: "session_pipe E P r before s p" and step: "session_step E s s'"
  let ?acc = "\<lambda>_ _. ksuid_codec (se_kstr E) (se_kparse E)"
  from rel obtain g where ok: "plan_ok E P" and at: "session_at E P r g s"
      and pipe: "\<And>es. completes P g es \<Longrightarrow> pipe_of ?acc (se_kstr E) (vroute E P es s) before (virtual E (sg_net g) es s) p"
    unfolding session_pipe_def by blast
  obtain g' where at': "session_at E P r g' s'" and pr: "progress E P g s g' s'"
    by (rule session_progress [OF at ok step])
  show "\<exists>p'. reaches pipe_step p p' \<and> session_pipe E P r before s' p'"
  proof (cases "follows False E P g s g' s'")
    case True
    then have "session_pipe E P r before s' p"
      using ok at' pipe unfolding session_pipe_def follows_def by (metis (full_types))
    then show ?thesis using reaches_refl [of pipe_step p] by blast
  next
    case False
    with pr have f: "follows True E P g s g' s'" by (simp add: progress_def)
    obtain es' where es': "completes P g' es'" by (rule session_at_some [OF at'])
    with f obtain es hubs sv where es: "completes P g es" "vroute E P es' s' = vroute E P es s"
        "tunnel_step (se_kstr E) (server_recv (se_kparse E) (se_now E) hubs sv) (rt_link (vroute E P es s) 0)
           (virtual E (sg_net g) es s) (virtual E (sg_net g') es' s')"
      unfolding follows_def by auto
    from tunnel_step_pipe [OF server_rx.frame_receiver_axioms pipe [OF es(1)] es(3)] obtain p' where
      p': "reaches pipe_step p p'" "pipe_of ?acc (se_kstr E) (vroute E P es' s') before (virtual E (sg_net g') es' s') p'"
      using es(2) by auto
    have "session_pipe E P r before s' p'"
      using ok at' pipe_of_any [OF p'(2)] unfolding session_pipe_def session_at_def by blast
    with p'(1) show ?thesis by blast
  qed
qed

section \<open>Where a session stops\<close>

lemma stuck_hello:
  assumes at: "session_at E P r g s" and ok: "plan_ok E P" and stuck: "\<And>u. \<not> session_step E s u"
  shows "sg_todo g = [] \<and> sg_srt g"
proof (rule ccontr)
  assume inc: "\<not> (sg_todo g = [] \<and> sg_srt g)"
  have sh: "shell E P r g s" using at by (simp add: session_at_def)
  then have sv: "server_at E P (sg_todo g) (sg_srt g) (sg_cn g) r (sn_sv s)" by (simp add: shell_def)
  have codec: "ksuid_codec (se_kstr E) (se_kparse E)" and m: "se_master E \<in> set (pl_ids P)"
    using ok by (simp_all add: plan_ok_def)
  define i where "i = (if sg_todo g = [] then se_master E else hd (sg_todo g))"
  have "set (sg_todo g) \<subseteq> set (pl_ids P)" using sv inc by (auto simp: server_at_def gathered_def)
  then have i: "i \<in> set (pl_ids P)" using m by (auto simp: i_def)
  obtain doc docs where lane: "wv_net (sn_ws s) (pl_conn P i) = doc # docs" and
      d: "doc = enc_message (se_kstr E) (hi_message (se_kstr E) i (se_master E)) \<or>
        doc = enc_message (se_kstr E) (est_message (se_kstr E) i (pl_first P) (pl_addr P) (pl_ids P))"
  proof -
    have "wv_net (sn_ws s) (pl_conn P i) = hs_frames E P (sg_todo g) (sg_srt g) i @ sg_net g (pl_conn P i)"
      using sh i by (simp add: shell_def)
    with that inc show ?thesis by (auto simp: hs_frames_def i_def split: if_splits)
  qed
  have "\<exists>err sv'. dispatchMessage (se_kparse E) (se_now E) False (sn_hubs s (pl_conn P i)) MessageText (Some doc) (sn_sv s) = Returns (err, sv')"
    using d dispatchHi_wf [of "sn_sv s"]
    by (auto simp: dispatchMessage_def dispatch_hi [OF codec] dispatch_est [OF codec] dispatchHi_def Let_def
        split: option.split prod.split)
  with ss_recv [OF lane] stuck show False by blast
qed

lemma stuck_est:
  assumes at: "session_at E P r g s" and stuck: "\<And>u. \<not> session_step E s u" and srt: "sg_srt g"
  shows "sg_cn g \<and> (\<exists>q. sn_est s = EstWait (Some q) (pl_target P))"
proof -
  have sv: "server_at E P (sg_todo g) (sg_srt g) (sg_cn g) r (sn_sv s)" and est: "est_at (pl_target P) (sg_srt g) (sg_cn g) (sn_est s)"
    using at by (simp_all add: session_at_def shell_def)
  have "GoEstablish (se_master E) (pl_addr P) (pl_first P) \<in> set (sv_go (sn_sv s))" using sv srt by (simp add: server_at_def)
  note step = ss_est [OF this]
  have "establish_step lanes_Write (se_kstr E) (se_LookupIP E) (se_Dial E) False (se_est E) (se_master E) (pl_addr P)
       (sn_est s, \<lparr>es_hub = sn_hubs s (se_conn E), es_sv = sn_sv s, es_conns = sn_conns s, es_net = sn_down s\<rparr>) = None"
  proof (rule ccontr)
    assume "\<not> ?thesis"
    then obtain pc v where "establish_step lanes_Write (se_kstr E) (se_LookupIP E) (se_Dial E) False (se_est E) (se_master E) (pl_addr P)
       (sn_est s, \<lparr>es_hub = sn_hubs s (se_conn E), es_sv = sn_sv s, es_conns = sn_conns s, es_net = sn_down s\<rparr>) = Some (pc, v)"
      by auto
    from step [OF this] stuck show False by blast
  qed
  with est show ?thesis by (auto simp: est_at_def Let_def split: if_splits prod.splits)
qed

lemma stuck_tunnel:
  assumes at: "session_at E P r g s" and ok: "plan_ok E P" and stuck: "\<And>u. \<not> session_step E s u"
    and all: "sg_todo g = []" "sg_srt g" "sg_cn g"
  shows "\<not> tunnel_step (se_kstr E) (server_recv (se_kparse E) (se_now E) (sn_hubs s) (sn_sv s))
    (rt_link (vroute E P [] s) 0) (virtual E (sg_net g) [] s) t"
proof
  assume step: "tunnel_step (se_kstr E) (server_recv (se_kparse E) (se_now E) (sn_hubs s) (sn_sv s))
    (rt_link (vroute E P [] s) 0) (virtual E (sg_net g) [] s) t"
  have sh: "shell E P r g s" using at by (simp add: session_at_def)
  have get: "LinkHub_Get (se_master E) (sv_links (sn_sv s)) = Some r" "GoLinkSend r \<in> set (sv_go (sn_sv s))"
    using sh all by (simp_all add: shell_def server_at_def)
  then have me: "rt_link (vroute E P [] s) 0 = r" using ok by (simp add: vroute_def plan_ok_def hd_conv_nth)
  have "hs_frames E P (sg_todo g) (sg_srt g) i = []" for i using all by (simp add: hs_frames_def)
  then have "sg_pre g c = []" for c using sh unfolding shell_def by (cases "c \<in> pl_conn P ` set (pl_ids P)") auto
  then have "sg_net g = wv_net (sn_ws s)" using sh by (auto simp: shell_def)
  then have v: "virtual E (sg_net g) [] s = \<lparr>t_copy = sn_copy s, t_src = sn_src s, t_qpc = sn_qpc s, t_q = sn_q s, t_ws = sn_ws s,
      t_lpc = sn_lpc s, t_lh = sv_links (sn_sv s), t_conns = sn_conns s\<rparr>"
    by (simp add: virtual_def)
  from step [unfolded v me] show False
  proof (cases rule: tunnel_step.cases)
    case (ts_copy pc src q)
    with stuck ss_copy [of s pc src q E] show ?thesis by simp
  next
    case (ts_send waiter pc q ws)
    with stuck ss_send [of E waiter s pc q ws] show ?thesis by simp
  next
    case (ts_recv c doc docs lh)
    from ts_recv(3) obtain err sv' where "dispatchMessage (se_kparse E) (se_now E) False (sn_hubs s c) MessageText (Some doc) (sn_sv s) = Returns (err, sv')"
      by (auto simp: server_recv_def dispatchMessage_def split: outcome.splits)
    with stuck ss_recv [of s c doc docs E] ts_recv(2) show ?thesis by simp
  next
    case (ts_write waiter pc lh conns)
    with stuck ss_write [OF get, of waiter pc lh conns] show ?thesis by simp
  qed
qed

lemma session_stuck:
  assumes at: "session_at E P r g s" and ok: "plan_ok E P" and stuck: "\<And>u. \<not> session_step E s u"
  shows "tx (sn_conns s (pl_target P)) = pl_input P"
    and "wr_closed (sn_conns s (pl_target P)) \<or> pl_end P = None"
    and "\<exists>q. sn_est s = EstWait (Some q) (pl_target P) \<and> QueueHub_Get (se_master E) (sv_queues (sn_sv s)) = Some q \<and>
      {GoCopy q (pl_target P), GoQueueSend q} \<subseteq> set (sv_go (sn_sv s))"
proof -
  have all: "sg_todo g = []" "sg_srt g" using stuck_hello [OF at ok stuck] by simp_all
  have "queue_up E [] (sn_est s) (sn_sv s)" using at all(1) by (simp add: session_at_def shell_def)
  with stuck_est [OF at stuck all(2)]
  show "\<exists>q. sn_est s = EstWait (Some q) (pl_target P) \<and> QueueHub_Get (se_master E) (sv_queues (sn_sv s)) = Some q \<and>
      {GoCopy q (pl_target P), GoQueueSend q} \<subseteq> set (sv_go (sn_sv s))"
    by (auto simp: queue_up_def)
  have cn: "sg_cn g" using stuck_est [OF at stuck all(2)] by simp
  then have inv: "session_inv E P [] g s" using at all by (simp add: session_at_def)
  from tunnel_stuck [OF server_rx.frame_receiver_axioms inv stuck_tunnel [OF at ok stuck all cn]]
  show "tx (sn_conns s (pl_target P)) = pl_input P" "wr_closed (sn_conns s (pl_target P)) \<or> pl_end P = None"
    by (simp_all add: virtual_def vroute_def)
qed

end
