(* ===== verification/Session_Props.thy ===== *)
theory Session_Props
  imports Upload_Session Trans_Life
begin

text \<open>
  From \<open>transData\<close> to the target: the state the client's \<open>transData\<close> leaves when it has sent its
  announcements and the establish message and started its goroutines, put together with a server that
  knows nothing of the session, satisfies the invariant of \<open>Upload_Session\<close>.
\<close>

section \<open>What the client has sent\<close>

lemma said_lane:
  assumes "distinct (map wc_conn wscs)" and "k \<le> length wscs"
  shows "i < length wscs \<Longrightarrow> said lanes_Write kstr fresh wscs k net (wc_conn (wscs ! i)) =
      net (wc_conn (wscs ! i)) @ (if i < k then [enc_message kstr (hi_message kstr (fresh i) (fresh 0))] else [])"
    and "c \<notin> set (map wc_conn wscs) \<Longrightarrow> said lanes_Write kstr fresh wscs k net c = net c"
proof -
  have inj: "wc_conn (wscs ! i) = wc_conn (wscs ! j) \<longleftrightarrow> i = j" if "i < length wscs" "j < length wscs" for i j
    using assms(1) that by (metis length_map nth_eq_iff_index_eq nth_map)
  show "i < length wscs \<Longrightarrow> said lanes_Write kstr fresh wscs k net (wc_conn (wscs ! i)) =
      net (wc_conn (wscs ! i)) @ (if i < k then [enc_message kstr (hi_message kstr (fresh i) (fresh 0))] else [])"
    using assms(2) by (induction k) (auto simp: SayID_def lanes_Write_def inj less_Suc_eq)
  show "c \<notin> set (map wc_conn wscs) \<Longrightarrow> said lanes_Write kstr fresh wscs k net c = net c"
    using assms(2) by (induction k) (auto simp: SayID_def lanes_Write_def)
qed

section \<open>The start of a session\<close>

definition session_start ::
  "ksuid \<Rightarrow> tcpconn \<Rightarrow> ('c, 'c lanes) client_world \<Rightarrow> 'c server \<Rightarrow> ('c \<Rightarrow> 'c Hub) \<Rightarrow> (ref \<Rightarrow> tcpconn) \<Rightarrow> 'c session" where
  "session_start m src cw sv hubs conns =
     \<lparr>sn_copy = CopyRead 0, sn_src = src, sn_qpc = SendEntry,
      sn_q = qh_heap (cw_queues cw) (the (QueueHub_Get m (cw_queues cw))), sn_ws = cw_ws cw, sn_sv = sv,
      sn_hubs = hubs, sn_est = EstCheck, sn_lpc = SendEntry, sn_conns = conns, sn_down = (\<lambda>_. [])\<rparr>"

text \<open>
  A client before \<open>transData\<close>: its WebSockets are different connections with nothing under way, and
  the identifiers and contexts it will draw are new.
\<close>

definition client_ready :: "(nat \<Rightarrow> ksuid) \<Rightarrow> (nat \<Rightarrow> ref) \<Rightarrow> ('c, 'c lanes) client_world \<Rightarrow> bool" where
  "client_ready fresh ctx s \<longleftrightarrow>
     cw_wscs s \<noteq> [] \<and> distinct (map wc_conn (cw_wscs s)) \<and> wv_net (cw_ws s) = (\<lambda>_. []) \<and>
     ids_fresh fresh s \<and> lh_wf (cw_links s) \<and>
     (\<forall>i<length (cw_wscs s). ctx i \<notin> set (wv_cancelled (cw_ws s)))"

text \<open>
  A server that has not heard of the identifiers, and the target it can dial: \<open>Dial\<close> opens the
  connection \<open>c\<close>, to which writes succeed.
\<close>

definition server_ready ::
  "'c session_env \<Rightarrow> ksuid list \<Rightarrow> string \<Rightarrow> ref \<Rightarrow> 'c server \<Rightarrow> ('c \<Rightarrow> 'c Hub) \<Rightarrow> (ref \<Rightarrow> tcpconn) \<Rightarrow> bool" where
  "server_ready E ids addr c sv hubs conns \<longleftrightarrow>
     unseen ids (sv_links sv) \<and> QueueHub_Get (se_master E) (sv_queues sv) = None \<and> (\<forall>w. hub_ws (hubs w) = w) \<and>
     GoLinkSend (lh_next (sv_links sv)) \<notin> set (sv_go sv) \<and> GoQueueSend (qh_next (sv_queues sv)) \<notin> set (sv_go sv) \<and>
     (\<forall>a d. GoEstablish (se_master E) a d \<notin> set (sv_go sv)) \<and> ksuid_codec (se_kstr E) (se_kparse E) \<and>
     \<not> checkAddrPrivite (se_LookupIP E) addr \<and> se_Dial E addr = Inr c \<and>
     \<not> conn_closed (conns c) \<and> \<not> wr_closed (conns c) \<and> tx_script (conns c) = []"

lemma unseen_server_at:
  assumes "server_ready E ids addr c sv hubs conns" and "distinct ids" and "se_master E \<in> set ids"
    and "pl_ids P = ids"
  shows "server_at E P ids False False (lh_next (sv_links sv)) sv"
proof -
  let ?m = "se_master E"
  have un: "unseen ids (sv_links sv)" using assms(1) by (simp add: server_ready_def)
  from gathered_start [OF un assms(2,3), of "se_now E"]
  have g: "gathered ?m ids ids [] None (lh_next (sv_links sv)) (lh_ensure (se_now E) ?m ?m (sv_links sv))" .
  have "lh_wf (erase h)" if "lh_wf h" for h
    using that by (auto simp: lh_wf_def link_live_def makeBuffer_def make_chan_def)
  with g have "gathered ?m ids ids [] None (lh_next (sv_links sv)) (erase (lh_ensure (se_now E) ?m ?m (sv_links sv)))"
    by (auto simp: gathered_def master_link_def member_link_def NewLink_def)
  with un assms show ?thesis
    by (auto simp: server_at_def queue_at_def server_ready_def unseen_def LinkHub_Get_def)
qed

text \<open>The plan of the session, from what the client drew.\<close>

definition client_plan ::
  "(nat \<Rightarrow> ksuid) \<Rightarrow> ('c, 'c lanes) client_world \<Rightarrow> string \<Rightarrow> bytes option \<Rightarrow> ref \<Rightarrow> bytes \<Rightarrow> go_error option \<Rightarrow> 'c plan" where
  "client_plan fresh s addr fsd c input ending =
     \<lparr>pl_ids = ids_upto fresh (length (cw_wscs s)),
      pl_conn = (\<lambda>i. wc_conn (cw_wscs s ! inv_into {..<length (cw_wscs s)} fresh i)),
      pl_addr = addr, pl_first = fsd, pl_target = c, pl_input = input, pl_end = ending\<rparr>"

lemma client_plan_sel [simp]:
  "pl_ids (client_plan fresh s addr fsd c input ending) = ids_upto fresh (length (cw_wscs s))"
  "pl_addr (client_plan fresh s addr fsd c input ending) = addr" "pl_first (client_plan fresh s addr fsd c input ending) = fsd"
  "pl_target (client_plan fresh s addr fsd c input ending) = c" "pl_input (client_plan fresh s addr fsd c input ending) = input"
  "pl_end (client_plan fresh s addr fsd c input ending) = ending"
  by (simp_all add: client_plan_def)

lemma fresh_inj: "ids_fresh fresh s \<Longrightarrow> inj_on fresh {..<length (cw_wscs s)}"
  unfolding ids_fresh_def inj_on_def by (metis lessThan_iff linorder_neqE_nat)

lemma client_plan_conn:
  "ids_fresh fresh s \<Longrightarrow> i < length (cw_wscs s) \<Longrightarrow>
     pl_conn (client_plan fresh s addr fsd c input ending) (fresh i) = wc_conn (cw_wscs s ! i)"
  by (simp add: client_plan_def inv_into_f_f [OF fresh_inj])

lemma client_plan_conns:
  assumes "ids_fresh fresh s" and "distinct (map wc_conn (cw_wscs s))"
  shows "distinct (ids_upto fresh (length (cw_wscs s)))"
    and "inj_on (pl_conn (client_plan fresh s addr fsd c input ending)) (set (ids_upto fresh (length (cw_wscs s))))"
    and "pl_conn (client_plan fresh s addr fsd c input ending) ` set (ids_upto fresh (length (cw_wscs s))) = set (map wc_conn (cw_wscs s))"
proof -
  let ?P = "client_plan fresh s addr fsd c input ending" and ?n = "length (cw_wscs s)"
  show "distinct (ids_upto fresh ?n)" using fresh_inj [OF assms(1)] by (simp add: distinct_map atLeast0LessThan)
  have "i = j" if "i < ?n" "j < ?n" "wc_conn (cw_wscs s ! i) = wc_conn (cw_wscs s ! j)" for i j
    using assms(2) that by (metis length_map nth_eq_iff_index_eq nth_map)
  then show "inj_on (pl_conn ?P) (set (ids_upto fresh ?n))"
    using client_plan_conn [OF assms(1), of _ addr fsd c input ending] by (auto intro!: inj_onI) (metis)
  show "pl_conn ?P ` set (ids_upto fresh ?n) = set (map wc_conn (cw_wscs s))"
  proof -
    have "pl_conn ?P ` set (ids_upto fresh ?n) = (\<lambda>i. wc_conn (cw_wscs s ! i)) ` {..<?n}"
      using client_plan_conn [OF assms(1)] by (simp add: image_image atLeast0LessThan)
    also have "\<dots> = set (map wc_conn (cw_wscs s))" by (force simp: in_set_conv_nth)
    finally show ?thesis .
  qed
qed

lemma client_lanes:
  assumes ready: "client_ready fresh ctx s" and built: "round_built lanes_Write kstr fresh ctx t (length (cw_wscs s)) s s1"
    and i: "i < length (cw_wscs s)"
  shows "snd (Establish lanes_Write kstr (fresh 0) (wc_conn (cw_wscs s ! 0)) fsd addr srt (wv_net (cw_ws s1))) (wc_conn (cw_wscs s ! i)) =
      enc_message kstr (hi_message kstr (fresh i) (fresh 0)) #
      (if i = 0 then [enc_message kstr (est_message kstr (fresh 0) fsd addr srt)] else [])"
    and "c \<notin> set (map wc_conn (cw_wscs s)) \<Longrightarrow>
      snd (Establish lanes_Write kstr (fresh 0) (wc_conn (cw_wscs s ! 0)) fsd addr srt (wv_net (cw_ws s1))) c = []"
proof -
  let ?n = "length (cw_wscs s)"
  have d: "distinct (map wc_conn (cw_wscs s))" and net: "wv_net (cw_ws s1) = said lanes_Write kstr fresh (cw_wscs s) ?n (\<lambda>_. [])"
    using ready built by (simp_all add: client_ready_def round_built_def)
  have "wc_conn (cw_wscs s ! i) = wc_conn (cw_wscs s ! 0) \<longleftrightarrow> i = 0"
    using nth_eq_iff_index_eq [OF d, of i 0] i by (cases "cw_wscs s") auto
  then show "snd (Establish lanes_Write kstr (fresh 0) (wc_conn (cw_wscs s ! 0)) fsd addr srt (wv_net (cw_ws s1))) (wc_conn (cw_wscs s ! i)) =
      enc_message kstr (hi_message kstr (fresh i) (fresh 0)) #
      (if i = 0 then [enc_message kstr (est_message kstr (fresh 0) fsd addr srt)] else [])"
    using i said_lane(1) [OF d le_refl i, of kstr fresh "\<lambda>_. []"]
    by (auto simp: Establish_def lanes_Write_def net)
  have "wc_conn (cw_wscs s ! 0) \<in> set (map wc_conn (cw_wscs s))" using i by (cases "cw_wscs s") auto
  then show "c \<notin> set (map wc_conn (cw_wscs s)) \<Longrightarrow>
      snd (Establish lanes_Write kstr (fresh 0) (wc_conn (cw_wscs s ! 0)) fsd addr srt (wv_net (cw_ws s1))) c = []"
    using said_lane(2) [OF d le_refl, of c kstr fresh "\<lambda>_. []"]
    by (auto simp: Establish_def lanes_Write_def net)
qed

text \<open>The queue the client has built.\<close>

lemma client_queue_ready:
  assumes ready: "client_ready fresh ctx s" and q: "queue_built fresh ctx (cw_wscs s) (length (cw_wscs s)) q0"
    and ws: "wv_cancelled ws = wv_cancelled (cw_ws s)"
  shows "queue_ready (ids_upto fresh (length (cw_wscs s))) (pl_conn (client_plan fresh s addr fsd c input ending)) ws
    (queue_SetSort (ids_upto fresh (length (cw_wscs s))) q0)"
proof -
  let ?P = "client_plan fresh s addr fsd c input ending"
  have fr: "ids_fresh fresh s" using ready by (simp add: client_ready_def)
  have w: "\<exists>w. gm_get (q_writers q0) (fresh i) = Some w \<and> wr_WSC w = pl_conn ?P (fresh i) \<and> wr_Id w = fresh i \<and> Ctx_Err w ws = None"
    if "i < length (cw_wscs s)" for i
  proof (intro exI conjI)
    let ?w = "NewWebSocketWriterWithMutex (wc_conn (cw_wscs s ! i)) (fresh i) (Some (ctx i))"
    show "gm_get (q_writers q0) (fresh i) = Some ?w" using q that by (simp add: queue_built_def)
    show "wr_WSC ?w = pl_conn ?P (fresh i)" using client_plan_conn [OF fr that] by simp
    show "wr_Id ?w = fresh i" by simp
    have "ctx i \<notin> set (wv_cancelled ws)" using ready that ws by (simp add: client_ready_def)
    then show "Ctx_Err ?w ws = None" by (simp add: Ctx_Err_def NewWebSocketWriterWithMutex_def)
  qed
  have "\<exists>w. gm_get (q_writers q0) i = Some w \<and> wr_WSC w = pl_conn ?P i \<and> wr_Id w = i \<and> Ctx_Err w ws = None"
    if "i \<in> set (ids_upto fresh (length (cw_wscs s)))" for i
  proof -
    from that obtain k where "k < length (cw_wscs s)" "i = fresh k" by auto
    with w [of k] show ?thesis by blast
  qed
  then show ?thesis using q by (simp add: queue_ready_def queue_SetSort_def queue_built_def del: set_map)
qed

lemma session_start_at:
  assumes ready: "client_ready fresh ctx s" and fsd: "fsd = None \<or> fsd = Some []" and len: "length es = 4 * length (cw_wscs s) + 7"
    and run: "trans_run lanes_Write (se_kstr E) fresh ctx t conn fsd addr es (TdProxy [], s) = Some (TdWait l srt, cw)"
    and env: "se_master E = fresh 0" "se_conn E = wc_conn (cw_wscs s ! 0)"
    and server: "server_ready E srt addr c sv hubs conns"
  shows "\<exists>P g. plan_ok E P \<and> session_at E P (lh_next (sv_links sv)) g (session_start (fresh 0) src cw sv hubs conns) \<and>
    P = client_plan fresh s addr fsd c (tx (conns c) @ incoming src) (incoming_end src) \<and> srt = pl_ids P"
proof -
  let ?n = "length (cw_wscs s)" and ?kstr = "se_kstr E"
  have cl: "cw_wscs s \<noteq> []" "ids_fresh fresh s" "lh_wf (cw_links s)" "distinct (map wc_conn (cw_wscs s))"
    using ready by (simp_all add: client_ready_def)
  define q where "q = qh_next (cw_queues s)"
  have ok: "\<forall>(c :: 'a) d net. fst (lanes_Write c d net) = None" by (simp add: lanes_Write_def)
  obtain s1 where built: "round_built lanes_Write ?kstr fresh ctx t ?n s s1"
    and cw: "srt = ids_upto fresh ?n" "cw_ws cw = (cw_ws s1)\<lparr>wv_net :=
        snd (Establish lanes_Write ?kstr (fresh 0) (wc_conn (cw_wscs s ! 0)) fsd addr srt (wv_net (cw_ws s1)))\<rparr>"
      "cw_queues cw = qh_update q (queue_SetSort srt) (cw_queues s1)"
    and q: "gm_get (qh_queue (cw_queues s1)) (fresh 0) = Some q" "queue_built fresh ctx (cw_wscs s) ?n (qh_heap (cw_queues s1) q)"
    by (rule trans_start [OF cl(1,2) fsd cl(3) ok len refl q_def refl, of ?kstr ctx t conn addr])
      (use run in auto)
  define P where "P = client_plan fresh s addr fsd c (tx (conns c) @ incoming src) (incoming_end src)"
  note conns = client_plan_conns(1) [OF cl(2,4)] client_plan_conns(2,3) [OF cl(2,4), of addr fsd c "tx (conns c) @ incoming src" "incoming_end src", folded P_def]
  have ids: "pl_ids P = srt" "srt \<noteq> []" "hd srt = fresh 0" "se_master E \<in> set srt" "distinct srt"
    using cl(1) conns(1) by (auto simp: P_def cw(1) hd_conv_nth env(1))
  have conn: "pl_conn P (fresh i) = wc_conn (cw_wscs s ! i)" if "i < ?n" for i
    unfolding P_def by (rule client_plan_conn [OF cl(2) that])
  have plan: "plan_ok E P"
    using server ids conns(2) conn [of 0] cl(1) env by (simp add: plan_ok_def server_ready_def P_def cw(1))
  let ?s = "session_start (fresh 0) src cw sv hubs conns"
  define g where "g = \<lparr>sg_todo = srt, sg_srt = False, sg_cn = False, sg_pre = wv_net (cw_ws cw), sg_net = (\<lambda>_. [])\<rparr>"
  have lanes: "sg_pre g (pl_conn P i) = hs_frames E P srt False i" if "i \<in> set (pl_ids P)" for i
  proof -
    from that obtain k where k: "k < ?n" "i = fresh k" by (auto simp: P_def)
    have "fresh k = fresh 0 \<longleftrightarrow> k = 0" using inj_on_eq_iff [OF fresh_inj [OF cl(2)], of k 0] k(1) cl(1) by auto
    moreover have "fresh k \<in> set srt" "fresh 0 \<in> set srt" using that ids(1,4) k(2) env(1) by simp_all
    ultimately show ?thesis
      using client_lanes(1) [OF ready built k(1), of fsd addr srt] conn [OF k(1)] ids(1) k(2)
      by (simp add: g_def cw(2) hs_frames_def env(1) P_def)
  qed
  have other: "sg_pre g c' = []" if "c' \<notin> pl_conn P ` set (pl_ids P)" for c'
    using that client_lanes(2) [OF ready built _, of 0 c' fsd addr srt] cl(1) conns(3) by (simp add: g_def cw(2) P_def)
  have "server_at E P srt False False (lh_next (sv_links sv)) sv"
    by (rule unseen_server_at [OF server ids(5,4,1)])
  then have "shell E P (lh_next (sv_links sv)) g ?s"
    using lanes other server by (simp add: shell_def session_start_def est_at_def server_ready_def) (simp add: g_def)
  moreover have "session_inv E P es' g ?s" if "completes P g es'" for es'
  proof -
    let ?h = "fst (link_events (se_now E) (fresh 0) es' (sv_links sv))"
    have "arrivals srt c srt False False es'" using that by (simp add: g_def P_def cw(1))
    with link_events_start [OF _ ids(5,4) this, of "sv_links sv" "se_now E"] server
    have gth: "gathered (hd srt) srt [] srt (Some c) (lh_next (sv_links sv)) ?h"
      by (auto simp: server_ready_def env(1) ids(3))
    have "queue_ready srt (pl_conn P) ((cw_ws cw)\<lparr>wv_net := (\<lambda>_. [])\<rparr>) (queue_SetSort srt (qh_heap (cw_queues s1) q))"
      unfolding P_def cw(1)
      by (rule client_queue_ready [OF ready q(2)]) (use built in \<open>simp add: cw(2) round_built_def\<close>)
    from ready_inv [OF this _ gth ids(2,5) _ _, of "\<lambda>_ _. ksuid_codec ?kstr (se_kparse E)" conns ?kstr src] server conns(2)
    show ?thesis
      by (simp add: vroute_def virtual_def session_start_def env(1) g_def cw(3) QueueHub_Get_def q(1) ids(1)
          server_ready_def P_def cw(1))
  qed
  ultimately have "session_at E P (lh_next (sv_links sv)) g ?s" by (simp add: session_at_def)
  with plan ids(1) show ?thesis by (intro exI [of _ P] exI [of _ g]) (simp add: P_def)
qed

lemma session_ends:
  fixes hubs :: "'c \<Rightarrow> 'c Hub"
  assumes "client_ready fresh ctx s" and "fsd = None \<or> fsd = Some []" and "length es = 4 * length (cw_wscs s) + 7"
    and "trans_run lanes_Write (se_kstr E) fresh ctx t conn fsd addr es (TdProxy [], s) = Some (TdWait l srt, cw)"
    and "se_master E = fresh 0" and "se_conn E = wc_conn (cw_wscs s ! 0)"
    and "server_ready E srt addr c sv hubs conns" and "incoming_end src \<in> {None, Some EOF}"
  defines "start \<equiv> session_start (fresh 0) src cw sv hubs conns"
  shows "(\<exists>N. \<forall>n u. (session_step E ^^ n) start u \<longrightarrow> n \<le> N) \<and>
    (\<exists>u. reaches (session_step E) start u \<and> (\<forall>v. \<not> session_step E u v)) \<and>
    (\<forall>u. reaches (session_step E) start u \<and> (\<forall>v. \<not> session_step E u v) \<longrightarrow>
       (\<exists>q. sn_est u = EstWait (Some q) c \<and> QueueHub_Get (se_master E) (sv_queues (sn_sv u)) = Some q \<and>
          {GoCopy q c, GoQueueSend q} \<subseteq> set (sv_go (sn_sv u))) \<and> tx (sn_conns u c) = tx (conns c) @ incoming src \<and>
       (incoming_end src \<noteq> None \<longrightarrow> wr_closed (sn_conns u c)))"
proof -
  obtain P g where P: "plan_ok E P" "session_at E P (lh_next (sv_links sv)) g start" "pl_target P = c"
      "pl_input P = tx (conns c) @ incoming src" "pl_end P = incoming_end src"
    using session_start_at [OF assms(1-7)] unfolding start_def by fastforce
  then have inv: "plan_ok E P \<and> (\<exists>g. session_at E P (lh_next (sv_links sv)) g start)" by blast
  have "\<exists>N. \<forall>n u. (session_step E ^^ n) start u \<longrightarrow> n \<le> N"
    using session_run.run_length [OF inv] by (meson add_leD1)
  moreover have "\<exists>u. reaches (session_step E) start u \<and> (\<forall>v. \<not> session_step E u v)"
    using session_run.reaches_final [OF inv] by blast
  moreover have "(\<exists>q. sn_est u = EstWait (Some q) c \<and> QueueHub_Get (se_master E) (sv_queues (sn_sv u)) = Some q \<and>
          {GoCopy q c, GoQueueSend q} \<subseteq> set (sv_go (sn_sv u))) \<and> tx (sn_conns u c) = tx (conns c) @ incoming src \<and>
       (incoming_end src \<noteq> None \<longrightarrow> wr_closed (sn_conns u c))"
    if u: "reaches (session_step E) start u" and stuck: "\<And>v. \<not> session_step E u v" for u
  proof -
    from session_run.reaches_inv [OF u inv] obtain g' where "session_at E P (lh_next (sv_links sv)) g' u" by blast
    from session_stuck [OF this P(1) stuck] P(3-5) show ?thesis by auto
  qed
  ultimately show ?thesis by blast
qed

section \<open>A session over two WebSockets\<close>

definition env0 :: "nat session_env" where
  "env0 = \<lparr>se_kstr = kstr0, se_kparse = kparse0, se_LookupIP = (\<lambda>_. []), se_Dial = (\<lambda>_. Inr 0), se_now = 0,
     se_est = 0, se_master = 1, se_conn = 0\<rparr>"

lemma two_ready: "client_ready two_ids Suc two_lanes"
  using two_ids_fresh by (simp add: client_ready_def) (simp add: two_lanes_def)

lemma private0: "\<not> checkAddrPrivite (\<lambda>_. []) addr"
  by (simp add: checkAddrPrivite_def split: list.split)

lemma server_ready0: "server_ready env0 [1, 2] addr 0 new_server hub0 conns0"
  using codec0 private0
  by (simp add: server_ready_def env0_def unseen_def new_server_def conns0_def new_conn_def hub0_def QueueHub_Get_def)

lemma two_run:
  obtains l cw where "trans_run lanes_Write (se_kstr env0) two_ids Suc 0 7 None ''a:80'' (replicate 15 (0, False))
    (TdProxy [], two_lanes) = Some (TdWait l [1, 2], cw)"
proof -
  have ids: "[1, 2] = ids_upto two_ids (length (cw_wscs two_lanes))"
    by (simp add: two_ids_def upt_rec numeral_eq_Suc)
  have "\<forall>(c :: nat) d net. fst (lanes_Write c d net) = None" "length (replicate 15 (0, False)) = 4 * length (cw_wscs two_lanes) + 7"
    by (simp_all add: lanes_Write_def)
  note trans_start [OF two_lanes_sel(6) two_ids_fresh _ _ this ids refl refl, of None "se_kstr env0" Suc 0 7 "''a:80''"]
  then show ?thesis by (rule) (simp_all add: that)
qed

section \<open>Properties\<close>

text \<open>
  C1. A whole upload refines the byte pipe. The client has run \<open>transData\<close> up to its \<open>Wait\<close>, the server
  knows nothing of the session yet and can dial the target. Whatever the interleaving of the
  client's goroutines, the server's receive loops, \<open>establish\<close> and \<open>link.Send\<close>, and although data may
  arrive before the handshake is complete, what the target has been sent at any moment is what a pipe
  that hands over the application's bytes in order could have handed over, and its write side is shut
  only when that pipe is shut. The application's stream ends with EOF or not at all (after another
  error the client tells the server to close, which is not a step of this relation).
\<close>

theorem session_refines_pipe:
  assumes "client_ready fresh ctx s" and "fsd = None \<or> fsd = Some []" and "length es = 4 * length (cw_wscs s) + 7"
    and "trans_run lanes_Write (se_kstr E) fresh ctx t conn fsd addr es (TdProxy [], s) = Some (TdWait l srt, cw)"
    and "se_master E = fresh 0" and "se_conn E = wc_conn (cw_wscs s ! 0)"
    and "server_ready E srt addr c sv hubs conns" and "incoming_end src \<in> {None, Some EOF}"
    and "reaches (session_step E) (session_start (fresh 0) src cw sv hubs conns) u"
  shows "\<exists>p. reaches pipe_step (new_pipe (incoming src) (incoming_end src \<noteq> None)) p \<and>
    tx (sn_conns u c) = tx (conns c) @ bp_done p \<and> wr_closed (sn_conns u c) = bp_shut p"
proof -
  let ?s = "session_start (fresh 0) src cw sv hubs conns"
  obtain P g where P: "plan_ok E P" "session_at E P (lh_next (sv_links sv)) g ?s" "pl_target P = c"
      "pl_input P = tx (conns c) @ incoming src" "pl_end P = incoming_end src"
    using session_start_at [OF assms(1-7)] by fastforce
  have "pipe_of (\<lambda>_ _. ksuid_codec (se_kstr E) (se_kparse E)) (se_kstr E) (vroute E P es' ?s) (tx (conns c))
      (virtual E (sg_net g) es' ?s) (new_pipe (incoming src) (incoming_end src \<noteq> None))" if "completes P g es'" for es'
  proof -
    have "session_inv E P es' g ?s" using P(2) that by (simp add: session_at_def)
    from pipe_of_start [OF this] P(3-5) assms(7) show ?thesis
      by (simp add: virtual_def vroute_def session_start_def server_ready_def)
  qed
  with P(1,2) have "session_pipe E P (lh_next (sv_links sv)) (tx (conns c)) ?s (new_pipe (incoming src) (incoming_end src \<noteq> None))"
    unfolding session_pipe_def by blast
  from session_sim.reaches_sim [OF assms(9) this] obtain p where p: "reaches pipe_step (new_pipe (incoming src) (incoming_end src \<noteq> None)) p"
      "session_pipe E P (lh_next (sv_links sv)) (tx (conns c)) u p" by blast
  from p(2) obtain g' where "session_at E P (lh_next (sv_links sv)) g' u" and
    pipe: "\<And>es'. completes P g' es' \<Longrightarrow> pipe_of (\<lambda>_ _. ksuid_codec (se_kstr E) (se_kparse E)) (se_kstr E)
      (vroute E P es' u) (tx (conns c)) (virtual E (sg_net g') es' u) p"
    unfolding session_pipe_def by blast
  then obtain es' where "completes P g' es'" using session_at_some by metis
  from pipe [OF this] P(3) have "tx (sn_conns u c) = tx (conns c) @ bp_done p \<and> wr_closed (sn_conns u c) = bp_shut p"
    by (simp add: pipe_of_def virtual_def vroute_def)
  with p(1) show ?thesis by blast
qed

theorem session_refines_pipe_witness:
  "\<exists>l cw. trans_run lanes_Write (se_kstr env0) two_ids Suc 0 7 None ''a:80'' (replicate 15 (0, False)) (TdProxy [], two_lanes) =
      Some (TdWait l [1, 2], cw) \<and>
    (\<exists>p. reaches pipe_step (new_pipe [7, 8] True) p \<and>
       tx (sn_conns (session_start 1 src0 cw new_server hub0 conns0) 0) = bp_done p)"
proof -
  obtain l cw where run: "trans_run lanes_Write (se_kstr env0) two_ids Suc 0 7 None ''a:80'' (replicate 15 (0, False))
      (TdProxy [], two_lanes) = Some (TdWait l [1, 2], cw)" by (rule two_run)
  have env: "se_master env0 = two_ids 0" "se_conn env0 = wc_conn (cw_wscs two_lanes ! 0)"
    by (simp_all add: env0_def two_ids_def two_lanes_def)
  have src: "incoming_end src0 \<in> {None, Some EOF}" by (simp add: src0_sel)
  from session_refines_pipe [OF two_ready _ _ run env server_ready0 src reaches_refl] run show ?thesis
    by (intro exI [of _ l] exI [of _ cw]) (auto simp: src0_sel two_ids_def simp del: run_events.simps)
qed

text \<open>
  C2. A whole upload gets through. From the same start, every run of the session is finite, and when
  nothing can move any more the handshake is complete, \<open>establish\<close> has started the goroutines that
  copy and send the response and waits for them, the target
  has been sent everything the application sent, and its write side is shut if the application's
  stream has ended.
\<close>

theorem session_delivers:
  fixes hubs :: "'c \<Rightarrow> 'c Hub"
  assumes "client_ready fresh ctx s" and "fsd = None \<or> fsd = Some []" and "length es = 4 * length (cw_wscs s) + 7"
    and "trans_run lanes_Write (se_kstr E) fresh ctx t conn fsd addr es (TdProxy [], s) = Some (TdWait l srt, cw)"
    and "se_master E = fresh 0" and "se_conn E = wc_conn (cw_wscs s ! 0)"
    and "server_ready E srt addr c sv hubs conns" and "incoming_end src \<in> {None, Some EOF}"
  defines "start \<equiv> session_start (fresh 0) src cw sv hubs conns"
  shows "(\<exists>N. \<forall>n u. (session_step E ^^ n) start u \<longrightarrow> n \<le> N) \<and>
    (\<exists>u. reaches (session_step E) start u \<and> (\<forall>v. \<not> session_step E u v)) \<and>
    (\<forall>u. reaches (session_step E) start u \<and> (\<forall>v. \<not> session_step E u v) \<longrightarrow>
       (\<exists>q. sn_est u = EstWait (Some q) c \<and> QueueHub_Get (se_master E) (sv_queues (sn_sv u)) = Some q \<and>
          {GoCopy q c, GoQueueSend q} \<subseteq> set (sv_go (sn_sv u))) \<and> tx (sn_conns u c) = tx (conns c) @ incoming src \<and>
       (incoming_end src \<noteq> None \<longrightarrow> wr_closed (sn_conns u c)))"
  using session_ends [OF assms(1-8)] unfolding start_def .

theorem session_delivers_witness:
  "\<exists>l cw u. trans_run lanes_Write (se_kstr env0) two_ids Suc 0 7 None ''a:80'' (replicate 15 (0, False)) (TdProxy [], two_lanes) =
      Some (TdWait l [1, 2], cw) \<and>
    reaches (session_step env0) (session_start 1 src0 cw new_server hub0 conns0) u \<and>
    tx (sn_conns u 0) = [7, 8] \<and> wr_closed (sn_conns u 0)"
proof -
  obtain l cw where run: "trans_run lanes_Write (se_kstr env0) two_ids Suc 0 7 None ''a:80'' (replicate 15 (0, False))
      (TdProxy [], two_lanes) = Some (TdWait l [1, 2], cw)" by (rule two_run)
  have env: "se_master env0 = two_ids 0" "se_conn env0 = wc_conn (cw_wscs two_lanes ! 0)"
    by (simp_all add: env0_def two_ids_def two_lanes_def)
  have src: "incoming_end src0 \<in> {None, Some EOF}" by (simp add: src0_sel)
  have start: "session_start (two_ids 0) src0 cw new_server hub0 conns0 = session_start 1 src0 cw new_server hub0 conns0"
    by (simp add: two_ids_def)
  from session_delivers [OF two_ready _ _ run env server_ready0 src, unfolded start] obtain u where
    "reaches (session_step env0) (session_start 1 src0 cw new_server hub0 conns0) u"
    "tx (sn_conns u 0) = tx (conns0 0) @ incoming src0" "incoming_end src0 \<noteq> None \<longrightarrow> wr_closed (sn_conns u 0)"
    by (auto simp del: run_events.simps)
  with run show ?thesis
    by (intro exI [of _ l] exI [of _ cw] exI [of _ u]) (simp add: src0_sel del: run_events.simps)
qed

end
