(* ===== verification/Response_Props.thy ===== *)
theory Response_Props
  imports Session_Props
begin

text \<open>
  The way back: from any state of a session in which the server has started to send the response,
  the response travels from the target through the server's queue, the WebSockets and the links
  \<open>transData\<close> made to the application. The queue is the one the announcements and the establish
  message filled in, in whatever order they came; the links are those of the client's loop.
\<close>

section \<open>The links of the client\<close>

lemma link_built_new:
  assumes "link_built m k q"
  shows "q = (NewLink (l_ctime q) m)\<lparr>l_counter := k\<rparr>"
  using assms by (intro link.equality) (simp_all add: link_built_def NewLink_def)

lemma client_gathered:
  assumes b: "links_built fresh n h h'" and n: "0 < n" and l: "l = lh_next h"
  shows "gathered (fresh 0) (ids_upto fresh n) [] (ids_upto fresh n) (Some conn) l
    (lh_update l (link_SetSort (ids_upto fresh n)) (lh_update l (link_SetConn (Some conn)) h'))"
    (is "gathered _ ?ids _ _ _ _ ?h")
proof -
  have wf: "lh_wf ?h"
    using b unfolding links_built_def
    by (intro lh_wf_update) (simp_all add: link_live_def link_SetSort_def link_SetConn_def)
  have get: "gm_get (lh_links ?h) (fresh i) = Some (l + i)" if "i < n" for i
    using b that by (simp add: links_built_def l)
  have "link_built (fresh 0) n (lh_heap h' l)" using b n by (auto simp: links_built_def l)
  from link_built_new [OF this] have "lh_heap ?h l = (NewLink (l_ctime (lh_heap h' l)) (fresh 0))\<lparr>l_counter := n, l_sorted := ?ids, l_conn := Some conn\<rparr>"
    by (simp add: link_SetSort_def link_SetConn_def NewLink_def)
  then have m: "master_link (fresh 0) (length ?ids) ?ids (Some conn) (lh_heap ?h l)"
    unfolding master_link_def by (intro exI [of _ "l_ctime (lh_heap h' l)"]) simp
  have "\<exists>r'. gm_get (lh_links ?h) (fresh i) = Some r' \<and> member_link (fresh 0) (lh_heap ?h r')" if "i < n" "i \<noteq> 0" for i
  proof -
    have "link_built (fresh 0) 0 (lh_heap h' (l + i))" using b that by (auto simp: links_built_def l)
    from link_built_new [OF this] have "member_link (fresh 0) (lh_heap ?h (l + i))"
      using that(2) unfolding member_link_def by (intro exI [of _ "l_ctime (lh_heap h' (l + i))"]) (simp add: NewLink_def)
    with get [OF that(1)] show ?thesis by blast
  qed
  note member = this
  have "\<exists>r'. gm_get (lh_links ?h) i = Some r' \<and> member_link (fresh 0) (lh_heap ?h r')" if "i \<in> set ?ids - {fresh 0}" for i
  proof -
    from that obtain k where k: "k < n" "i = fresh k" by auto
    with that have "k \<noteq> 0" by (cases k) auto
    with k member [of k] show ?thesis by blast
  qed
  with wf get [OF n] m show ?thesis by (simp add: gathered_def del: lh_update_sel set_map)
qed

text \<open>The WebSocket client of a connection.\<close>

definition wsc_of :: "'c WebSocketClient list \<Rightarrow> 'c \<Rightarrow> 'c WebSocketClient" where
  "wsc_of wscs c = the (find (\<lambda>w. wc_conn w = c) wscs)"

lemma wsc_of_nth:
  assumes "distinct (map wc_conn wscs)" and "i < length wscs"
  shows "wsc_of wscs (wc_conn (wscs ! i)) = wscs ! i"
proof -
  have "find (\<lambda>w. wc_conn w = wc_conn (wscs ! i)) wscs = Some (wscs ! i)"
    using assms unfolding find_Some_iff
    by (intro exI [of _ i]) (auto simp: distinct_conv_nth)
  then show ?thesis by (simp add: wsc_of_def)
qed

section \<open>The start of the response\<close>

text \<open>
  The response in the state \<open>u\<close> of a session: \<open>CopyBuffer\<close> reads the connection to the target, \<open>queue.Send\<close>
  sends what is in the server's queue \<open>q\<close>, and the client's links are still as \<open>transData\<close> left them.
\<close>

definition response_start ::
  "ref \<Rightarrow> ref \<Rightarrow> ('c, 'c lanes) client_world \<Rightarrow> (ref \<Rightarrow> tcpconn) \<Rightarrow> 'c session \<Rightarrow> 'c tunnel" where
  "response_start c q cw apps u =
     \<lparr>t_copy = CopyRead 0, t_src = sn_conns u c, t_qpc = SendEntry, t_q = qh_heap (sv_queues (sn_sv u)) q,
      t_ws = \<lparr>wv_net = sn_down u, wv_cancelled = []\<rparr>, t_lpc = SendEntry, t_lh = cw_links cw, t_conns = apps\<rparr>"

definition response_step ::
  "'c session_env \<Rightarrow> ('c, 'c lanes) client_world \<Rightarrow> ref \<Rightarrow> 'c tunnel \<Rightarrow> 'c tunnel \<Rightarrow> bool" where
  "response_step E cw l = tunnel_step (se_kstr E) (client_recv (se_kparse E) (wsc_of (cw_wscs cw)) cw) l"

lemma queue_filled_ready:
  assumes "queue_filled P [] True q"
  shows "queue_ready (pl_ids P) (pl_conn P) ws q"
  using assms by (auto simp: queue_filled_def queue_ready_def NewWebSocketWriter_def Ctx_Err_def)

text \<open>A session only writes to the target: what the target sends stays there to be read.\<close>

lemma safeWrite_rx: "safeWrite (Some c) d e = (x, Some c') \<Longrightarrow> rx c' = rx c"
  by (auto simp: safeWrite_def conn_CloseWrite_def conn_Write_def split: if_splits prod.splits list.splits option.splits)

lemma session_rx:
  assumes "session_step E s u"
  shows "rx (sn_conns u r) = rx (sn_conns s r)"
  using assms
proof (cases rule: session_step.cases)
  case (ss_est addr fsd pc v)
  have "rx (es_conns v r) = rx (sn_conns s r)"
    using ss_est(3)
    by (cases "(lanes_Write :: ('a, 'a lanes) wsjson_write, se_kstr E, se_LookupIP E, se_Dial E, False, se_est E, se_master E, addr,
          (sn_est s, \<lparr>es_hub = sn_hubs s (se_conn E), es_sv = sn_sv s, es_conns = sn_conns s, es_net = sn_down s\<rparr>))"
        rule: establish_step.cases)
      (auto simp: Let_def conn_Close_def split: option.splits prod.splits if_splits outcome.splits)
  with ss_est(1) show ?thesis by simp
next
  case (ss_write l waiter pc lh conns)
  from ss_write(4) have "rx (conns r) = rx (sn_conns s r)"
    by (cases "(False, waiter, l, sn_lpc s, sv_links (sn_sv s), sn_conns s)" rule: link_Send_step.cases)
      (auto dest: safeWrite_rx split: option.splits prod.splits if_splits)
  with ss_write(1) show ?thesis by simp
qed simp_all

interpretation session_reads: machine "session_step E" "\<lambda>s. rx (sn_conns s r) = d" for E r d
  by unfold_locales (simp add: session_rx)

text \<open>What \<open>transData\<close> left at the client.\<close>

lemma client_side:
  assumes ready: "client_ready fresh ctx s" and fsd: "fsd = None \<or> fsd = Some []" and len: "length es = 4 * length (cw_wscs s) + 7"
    and run: "trans_run lanes_Write kstr fresh ctx t conn fsd addr es (TdProxy [], s) = Some (TdWait l srt, cw)"
  shows "gathered (hd srt) srt [] srt (Some conn) l (cw_links cw)"
    and "i < length (cw_wscs s) \<Longrightarrow> GetProxyById (fresh i) (wsc_of (cw_wscs cw) (wc_conn (cw_wscs s ! i))) = Some t"
proof -
  let ?n = "length (cw_wscs s)"
  have cl: "cw_wscs s \<noteq> []" "ids_fresh fresh s" "lh_wf (cw_links s)" "distinct (map wc_conn (cw_wscs s))"
    using ready by (simp_all add: client_ready_def)
  have ok: "\<forall>(c :: 'a) d net. fst (lanes_Write c d net) = None" by (simp add: lanes_Write_def)
  obtain s1 where built: "round_built lanes_Write kstr fresh ctx t ?n s s1"
    and cw: "srt = ids_upto fresh ?n" "l = lh_next (cw_links s)"
      "cw_links cw = lh_update l (link_SetSort srt) (lh_update l (link_SetConn (Some conn)) (cw_links s1))" "cw_wscs cw = cw_wscs s1"
    by (rule trans_start [OF cl(1,2) fsd cl(3) ok len refl refl refl, of kstr ctx t conn addr])
      (use run in auto)
  have lb: "links_built fresh ?n (cw_links s) (cw_links s1)" and pb: "proxies_built fresh t ?n (cw_wscs s) (cw_wscs s1)"
    using built by (simp_all add: round_built_def)
  have "hd srt = fresh 0" using cl(1) by (simp add: cw(1) hd_conv_nth)
  then show "gathered (hd srt) srt [] srt (Some conn) l (cw_links cw)"
    using client_gathered [OF lb _ cw(2)] cl(1) cw(1,3) by simp
  have conns: "map wc_conn (cw_wscs s1) = map wc_conn (cw_wscs s)"
    using pb proxies_built_conn [OF pb] by (intro nth_equalityI) (simp_all add: proxies_built_def)
  assume i: "i < ?n"
  then have nth: "cw_wscs s1 ! i = NewProxy (fresh i) t (cw_wscs s ! i)" "i < length (cw_wscs s1)"
    using pb by (simp_all add: proxies_built_def)
  have "wsc_of (cw_wscs s1) (wc_conn (cw_wscs s1 ! i)) = cw_wscs s1 ! i"
    using cl(4) nth(2) by (intro wsc_of_nth) (simp_all add: conns)
  then show "GetProxyById (fresh i) (wsc_of (cw_wscs cw) (wc_conn (cw_wscs s ! i))) = Some t"
    using proxies_built_conn [OF pb i] by (simp add: cw(4) nth(1) GetProxyById_def NewProxy_def)
qed

lemma response_inv:
  assumes ready: "client_ready fresh ctx s" and fsd: "fsd = None \<or> fsd = Some []" and len: "length es = 4 * length (cw_wscs s) + 7"
    and run: "trans_run lanes_Write (se_kstr E) fresh ctx t conn fsd addr es (TdProxy [], s) = Some (TdWait l srt, cw)"
    and env: "se_master E = fresh 0" "se_conn E = wc_conn (cw_wscs s ! 0)"
    and server: "server_ready E srt addr c sv hubs conns"
    and u: "reaches (session_step E) (session_start (fresh 0) src cw sv hubs conns) u"
    and q: "QueueHub_Get (fresh 0) (sv_queues (sn_sv u)) = Some q" "GoQueueSend q \<in> set (sv_go (sn_sv u))"
    and app: "\<not> conn_closed (apps conn)" "\<not> wr_closed (apps conn)" "tx_script (apps conn) = []"
  obtains rt where
    "tunnel_inv (\<lambda>c i. ksuid_codec (se_kstr E) (se_kparse E) \<and> GetProxyById i (wsc_of (cw_wscs cw) c) \<noteq> None) (se_kstr E)
       rt (response_start c q cw apps u)"
    and "rt_link rt 0 = l" and "rt_target rt = conn" and "rt_input rt = tx (apps conn) @ incoming (conns c)"
    and "rt_end rt = incoming_end (conns c)" and "incoming (sn_conns u c) = incoming (conns c)"
proof -
  obtain P g where P: "plan_ok E P" "session_at E P (lh_next (sv_links sv)) g (session_start (fresh 0) src cw sv hubs conns)"
      "P = client_plan fresh s addr fsd c (tx (conns c) @ incoming src) (incoming_end src)" "srt = pl_ids P"
    using session_start_at [OF ready fsd len run env server] by blast
  then have inv: "plan_ok E P \<and> (\<exists>g. session_at E P (lh_next (sv_links sv)) g (session_start (fresh 0) src cw sv hubs conns))" by blast
  from session_run.reaches_inv [OF u inv] obtain g' where at: "session_at E P (lh_next (sv_links sv)) g' u" by blast
  then have qa: "queue_at E P (sg_todo g') (sg_srt g') (sn_sv u)" and down: "sn_down u = (\<lambda>_. [])"
    by (simp_all add: session_at_def shell_def server_at_def)
  then have "queue_filled P [] True (qh_heap (sv_queues (sn_sv u)) q)" using q env(1) by (auto simp: queue_at_def)
  note qr = queue_filled_ready [OF this, folded P(4)]
  note g = client_side(1) [OF ready fsd len run]
  have ids: "srt \<noteq> []" "distinct srt" "inj_on (pl_conn P) (set srt)" using P(1,4) by (simp_all add: plan_ok_def)
  have codec: "ksuid_codec (se_kstr E) (se_kparse E)" using P(1) by (simp add: plan_ok_def)
  have fr: "ids_fresh fresh s" using ready by (simp add: client_ready_def)
  have "GetProxyById i (wsc_of (cw_wscs cw) (pl_conn P i)) \<noteq> None" if i: "i \<in> set srt" for i
  proof -
    from i obtain k where k: "k < length (cw_wscs s)" "i = fresh k" using P(3,4) by auto
    with client_side(2) [OF ready fsd len run k(1)] client_plan_conn [OF fr k(1)] P(3) show ?thesis by simp
  qed
  then have t1: "tunnel_inv (\<lambda>c i. ksuid_codec (se_kstr E) (se_kparse E) \<and> GetProxyById i (wsc_of (cw_wscs cw) c) \<noteq> None) (se_kstr E)
       (hub_route srt (pl_conn P) conn (tx (apps conn) @ incoming (sn_conns u c)) (incoming_end (sn_conns u c)) (cw_links cw))
       (response_start c q cw apps u)"
    unfolding response_start_def by (intro ready_inv [OF qr _ g ids]) (simp_all add: down codec app)
  have t2: "rt_link (hub_route srt (pl_conn P) conn (tx (apps conn) @ incoming (sn_conns u c)) (incoming_end (sn_conns u c)) (cw_links cw)) 0 = l"
    using gathered_route(4) [OF g ids(1,2)] ids(1) by (simp add: hd_conv_nth)
  have t3: "incoming (sn_conns u c) = incoming (conns c)" "incoming_end (sn_conns u c) = incoming_end (conns c)"
  proof -
    obtain es' where "session_inv E P es' g' u" by (rule session_at_some [OF at])
    then have "\<not> conn_closed (sn_conns u c)" by (auto simp: tunnel_inv_def target_ok_def vroute_def virtual_def P(3))
    moreover have "rx (sn_conns u c) = rx (conns c)"
      by (rule session_reads.reaches_inv [OF u]) (simp add: session_start_def)
    ultimately show "incoming (sn_conns u c) = incoming (conns c)" "incoming_end (sn_conns u c) = incoming_end (conns c)"
      using server by (simp_all add: server_ready_def incoming_def incoming_end_def)
  qed
  show ?thesis by (rule that [OF t1 [unfolded t3] t2 [unfolded t3]]) (simp_all add: t3)
qed

interpretation response_sim: simulation "tunnel_step kstr (client_recv kparse wscs cw) (rt_link rt 0)" pipe_step
  "pipe_of (\<lambda>c i. ksuid_codec kstr kparse \<and> GetProxyById i (wscs c) \<noteq> None) kstr rt before"
  for kstr kparse wscs and cw :: "('c, 'net) client_world" and rt before
  by unfold_locales (rule tunnel_step_pipe [OF client_rx.frame_receiver_axioms])

section \<open>A response over two WebSockets\<close>

text \<open>The target answers with two bytes and closes.\<close>

definition conns1 :: "ref \<Rightarrow> tcpconn" where
  "conns1 r = new_conn [RxData [5, 6], RxErr EOF]"

lemma conns1_sel: "incoming (conns1 r) = [5, 6]" "incoming_end (conns1 r) = Some EOF"
  by (simp_all add: conns1_def new_conn_def incoming_def incoming_end_def)

lemma server_ready1: "server_ready env0 [1, 2] addr 0 new_server hub0 conns1"
  using server_ready0 by (simp add: server_ready_def conns0_def conns1_def new_conn_def)

lemma two_started:
  obtains l cw u q where "trans_run lanes_Write (se_kstr env0) two_ids Suc 0 7 None ''a:80'' (replicate 15 (0, False))
      (TdProxy [], two_lanes) = Some (TdWait l [1, 2], cw)"
    and "reaches (session_step env0) (session_start (two_ids 0) src0 cw new_server hub0 conns1) u"
    and "QueueHub_Get (two_ids 0) (sv_queues (sn_sv u)) = Some q" and "GoQueueSend q \<in> set (sv_go (sn_sv u))"
proof -
  obtain l cw where run: "trans_run lanes_Write (se_kstr env0) two_ids Suc 0 7 None ''a:80'' (replicate 15 (0, False))
      (TdProxy [], two_lanes) = Some (TdWait l [1, 2], cw)" by (rule two_run)
  have env: "se_master env0 = two_ids 0" "se_conn env0 = wc_conn (cw_wscs two_lanes ! 0)"
    by (simp_all add: env0_def two_ids_def two_lanes_def)
  have src: "incoming_end src0 \<in> {None, Some EOF}" by (simp add: src0_sel)
  from session_ends [OF two_ready _ _ run env server_ready1 src] obtain u q where
    "reaches (session_step env0) (session_start (two_ids 0) src0 cw new_server hub0 conns1) u"
    "QueueHub_Get (two_ids 0) (sv_queues (sn_sv u)) = Some q" "GoQueueSend q \<in> set (sv_go (sn_sv u))"
    by (auto simp: env simp del: run_events.simps)
  with run show ?thesis by (rule that)
qed

section \<open>Properties\<close>





end
