(* ===== verification/Experiments.thy ===== *)
theory Experiments
  imports Deadlines Go_Net
begin

text \<open>
  The three small programs under \<open>play/\<close>, with which the behaviour of connections was tried out that
  the rest of the code relies on: writing while another goroutine closes (\<open>play/dial\<close>), a read
  deadline that another goroutine moves (\<open>play/timeout\<close>), and a client of the proxy (\<open>play/send\<close>).
  The dialers' results are parameters.
\<close>

definition str_bytes :: "string \<Rightarrow> bytes" where
  "str_bytes s = map of_char s"

text \<open>\<open>n, err := conn.Write([]byte(s)); fmt.Println(n, err)\<close>, for a list of texts.\<close>

type_synonym written = "nat \<times> go_error option"

fun print_writes_step ::
  "string list \<times> tcpconn \<times> written list \<Rightarrow> (string list \<times> tcpconn \<times> written list) option" where
  "print_writes_step ([], c, out) = None"
| "print_writes_step (s # ss, c, out) = (case conn_Write (str_bytes s) c of (r, c') \<Rightarrow> Some (ss, c', out @ [r]))"

fun print_writes :: "string list \<Rightarrow> tcpconn \<times> written list \<Rightarrow> tcpconn \<times> written list" where
  "print_writes [] s = s"
| "print_writes (t # ts) (c, out) = (case conn_Write (str_bytes t) c of (r, c') \<Rightarrow> print_writes ts (c', out @ [r]))"

section \<open>play/dial\<close>

text \<open>\<open>test2\<close> writes at once, \<open>test1\<close> after a second; the texts are the same.\<close>

definition dial_texts :: "string list" where
  "dial_texts = [''GET '', ''http://www.baidu.com '', ''HTTP/1.0'']"

datatype test_pc = TestSleep instant | TestWrites "string list"

fun test_step :: "instant \<Rightarrow> test_pc \<times> tcpconn \<times> written list \<Rightarrow> (test_pc \<times> tcpconn \<times> written list) option" where
  "test_step now (TestSleep wake, s) = (if wake \<le> now then Some (TestWrites dial_texts, s) else None)"
| "test_step now (TestWrites ss, s) = map_option (\<lambda>(ss', s'). (TestWrites ss', s')) (print_writes_step (ss, s))"

definition test1 :: "instant \<Rightarrow> test_pc" where
  "test1 now = TestSleep (now + Second)"

definition test2 :: test_pc where
  "test2 = TestWrites dial_texts"

text \<open>\<open>main\<close>: dial, \<open>go test2\<close>, \<open>Close\<close>, sleep; the program ends with \<open>main\<close>.\<close>

datatype dial_pc = DialGo | DialClose | DialSleep instant | DialEnd

record dial_state =
  dp_now :: instant
  dp_main :: dial_pc
  dp_test :: "test_pc option"
  dp_conn :: tcpconn
  dp_out :: "written list"

inductive dial_step :: "dial_state \<Rightarrow> dial_state \<Rightarrow> bool" where
  dial_tick: "0 \<le> d \<Longrightarrow> dial_step s (s\<lparr>dp_now := dp_now s + d\<rparr>)"
| dial_go: "dp_main s = DialGo \<Longrightarrow> dial_step s (s\<lparr>dp_main := DialClose, dp_test := Some test2\<rparr>)"
| dial_close: "dp_main s = DialClose \<Longrightarrow>
     dial_step s (s\<lparr>dp_main := DialSleep (dp_now s + 2 * Second), dp_conn := conn_Close (dp_conn s)\<rparr>)"
| dial_end: "dp_main s = DialSleep wake \<Longrightarrow> wake \<le> dp_now s \<Longrightarrow> dial_step s (s\<lparr>dp_main := DialEnd\<rparr>)"
| dial_test: "dp_main s \<noteq> DialEnd \<Longrightarrow> dp_test s = Some p \<Longrightarrow>
     test_step (dp_now s) (p, dp_conn s, dp_out s) = Some (p', c, out) \<Longrightarrow>
     dial_step s (s\<lparr>dp_test := Some p', dp_conn := c, dp_out := out\<rparr>)"

definition dial_start :: "instant \<Rightarrow> go_error + tcpconn \<Rightarrow> dial_state option" where
  "dial_start now dialled =
     (case dialled of
        Inl err \<Rightarrow> None
      | Inr c \<Rightarrow> Some \<lparr>dp_now = now, dp_main = DialGo, dp_test = None, dp_conn = c, dp_out = []\<rparr>)"

text \<open>
  What the experiment shows: whenever \<open>Close\<close> comes, the writes before it reach the peer completely
  and in order, and each write after it reports the closed connection and sends nothing. \<open>k\<close> writes
  were made before the close and \<open>n\<close> after it.
\<close>

definition dial_shown :: "bytes \<Rightarrow> nat \<Rightarrow> nat \<Rightarrow> dial_state \<Rightarrow> bool" where
  "dial_shown before k n s \<longleftrightarrow>
     dp_out s = map (\<lambda>t. (length t, None)) (take k dial_texts) @ replicate n (0, Some closed_conn_error) \<and>
     k \<le> length dial_texts \<and> tx (dp_conn s) = before @ str_bytes (concat (take k dial_texts)) \<and>
     (conn_closed (dp_conn s) \<or> n = 0) \<and> (dp_main s = DialGo \<longrightarrow> k = 0) \<and>
     (conn_closed (dp_conn s) \<longleftrightarrow> dp_main s \<notin> {DialGo, DialClose}) \<and>
     \<not> wr_closed (dp_conn s) \<and> tx_script (dp_conn s) = [] \<and>
     dp_test s = (if dp_main s = DialGo then None else Some (TestWrites (drop (k + n) dial_texts)))"

lemma str_bytes_append [simp]: "str_bytes (a @ b) = str_bytes a @ str_bytes b" "str_bytes [] = []"
  by (simp_all add: str_bytes_def)

lemma str_bytes_length [simp]: "length (str_bytes a) = length a"
  by (simp add: str_bytes_def)

lemma test_shown:
  assumes shown: "dial_shown before k n s" and p: "dp_test s = Some p"
    and step: "test_step (dp_now s) (p, dp_conn s, dp_out s) = Some (p', c, out)"
  shows "\<exists>k n. dial_shown before k n (s\<lparr>dp_test := Some p', dp_conn := c, dp_out := out\<rparr>)"
proof -
  have main: "dp_main s \<noteq> DialGo" and pc: "p = TestWrites (drop (k + n) dial_texts)"
    using shown p by (auto simp: dial_shown_def split: if_splits)
  have lt: "k + n < length dial_texts" using step pc by (cases "k + n < length dial_texts") auto
  from Cons_nth_drop_Suc [OF this] obtain t ts where
    t: "drop (k + n) dial_texts = t # ts" "t = dial_texts ! (k + n)" "ts = drop (Suc (k + n)) dial_texts" by metis
  show ?thesis
  proof (cases "conn_closed (dp_conn s)")
    case True
    with step pc t have "p' = TestWrites ts" "c = dp_conn s" "out = dp_out s @ [(0, Some closed_conn_error)]"
      by (auto simp: conn_Write_def)
    with shown main True t(3) show ?thesis
      by (intro exI [of _ k] exI [of _ "Suc n"]) (simp add: dial_shown_def replicate_append_same)
  next
    case False
    from False shown step pc t have "p' = TestWrites ts" "c = (dp_conn s)\<lparr>tx := tx (dp_conn s) @ str_bytes t\<rparr>"
        "out = dp_out s @ [(length t, None)]"
      by (auto simp: dial_shown_def conn_Write_def)
    with shown main False t lt show ?thesis
      by (intro exI [of _ "Suc k"] exI [of _ 0]) (auto simp: dial_shown_def take_Suc_conv_app_nth)
  qed
qed

lemma dial_step_shown:
  assumes "dial_step s t" and "dial_shown before k n s"
  shows "\<exists>k n. dial_shown before k n t"
  using assms
proof (cases rule: dial_step.cases)
  case (dial_test p p' c out)
  with test_shown [OF assms(2) dial_test(3,4)] show ?thesis by simp
qed (rule exI [of _ k], rule exI [of _ n], use assms(2) in \<open>auto simp: dial_shown_def conn_Close_def test2_def\<close>)+

interpretation dial_run: machine dial_step "\<lambda>s. \<exists>k n. dial_shown before k n s" for before
  by unfold_locales (blast intro: dial_step_shown)

theorem dial_writes:
  assumes "dial_start now (Inr c) = Some s" and "\<not> conn_closed c" and "\<not> wr_closed c" and "tx_script c = []"
    and "reaches dial_step s t"
  shows "\<exists>k n. tx (dp_conn t) = tx c @ str_bytes (concat (take k dial_texts)) \<and>
    dp_out t = map (\<lambda>x. (length x, None)) (take k dial_texts) @ replicate n (0, Some closed_conn_error) \<and>
    (0 < n \<longrightarrow> conn_closed (dp_conn t))"
proof -
  have "dial_shown (tx c) 0 0 s" using assms(1-4) by (auto simp: dial_start_def dial_shown_def)
  then obtain k n where "dial_shown (tx c) k n t" using dial_run.reaches_inv [OF assms(5), of "tx c"] by blast
  then show ?thesis by (intro exI [of _ k] exI [of _ n]) (auto simp: dial_shown_def)
qed

section \<open>play/timeout\<close>

definition play_NewDead :: dead where
  "play_NewDead = \<lparr>Line = Minute\<rparr>"

datatype play_line = PlConnected | PlWrote written | PlLine duration | PlEof | PlRead duration bytes "go_error option"

definition timeout_texts :: "string list" where
  "timeout_texts = [''GET http://www.baidu.com HTTP/1.0'' @ [CHR 0x0D, CHR 0x0A], ''Host: www.baidu.com'' @ [CHR 0x0D, CHR 0x0A],
     ''Connection:close'' @ [CHR 0x0D, CHR 0x0A, CHR 0x0D, CHR 0x0A]]"

text \<open>The goroutine that makes the read fail soon: this one by the deadline, the later ones by the line.\<close>

datatype hurry_pc = HuSleep instant | HuEval | HuSet instant | HuLine | HuEnd

fun hurry_step :: "hurry_pc \<times> read_clock \<Rightarrow> (hurry_pc \<times> read_clock) option" where
  "hurry_step (HuSleep wake, c) = (if wake \<le> rc_now c then Some (HuEval, c) else None)"
| "hurry_step (HuEval, c) = Some (HuSet (rc_now c + Second), c)"
| "hurry_step (HuSet x, c) = Some (HuLine, c\<lparr>rc_deadline := Some x\<rparr>)"
| "hurry_step (HuLine, c) = Some (HuEnd, c\<lparr>rc_dead := (rc_dead c)\<lparr>Line := Second\<rparr>\<rparr>)"
| "hurry_step (HuEnd, c) = None"

text \<open>
  \<open>read\<close>: print the line, set the deadline, read at most 100 bytes, return at the end of the stream,
  print otherwise and sleep. A read whose deadline has passed fails; one that finds nothing waits.
\<close>

datatype play_pc = PrLine | PrEval | PrSet instant | PrRead | PrSleep instant | PrRet

definition timeout_error :: go_error where
  "timeout_error = Errorf ''i/o timeout''"

definition read_by :: "nat \<Rightarrow> read_clock \<Rightarrow> tcpconn \<Rightarrow> ((bytes \<times> go_error option) \<times> tcpconn) option" where
  "read_by n c conn =
     (if conn_closed conn then conn_Read n conn
      else case rc_deadline c of
        None \<Rightarrow> conn_Read n conn
      | Some x \<Rightarrow> if x \<le> rc_now c then Some (([], Some timeout_error), conn) else conn_Read n conn)"

fun play_read_step ::
  "instant \<Rightarrow> play_pc \<times> read_clock \<times> tcpconn \<times> play_line list \<Rightarrow>
     (play_pc \<times> read_clock \<times> tcpconn \<times> play_line list) option" where
  "play_read_step s1 (PrLine, c, conn, out) = Some (PrEval, c, conn, out @ [PlLine (Line (rc_dead c))])"
| "play_read_step s1 (PrEval, c, conn, out) = Some (PrSet (rc_now c + Line (rc_dead c)), c, conn, out)"
| "play_read_step s1 (PrSet x, c, conn, out) = Some (PrRead, c\<lparr>rc_deadline := Some x\<rparr>, conn, out)"
| "play_read_step s1 (PrRead, c, conn, out) =
     (case read_by 100 c conn of
        None \<Rightarrow> None
      | Some ((d, e), conn') \<Rightarrow>
          if e = Some EOF then Some (PrRet, c, conn', out @ [PlEof])
          else Some (PrSleep (rc_now c + Second), c, conn', out @ [PlRead (rc_now c - s1) d e]))"
| "play_read_step s1 (PrSleep wake, c, conn, out) = (if wake \<le> rc_now c then Some (PrLine, c, conn, out) else None)"
| "play_read_step s1 (PrRet, c, conn, out) = None"

record play_state =
  pl_clock :: read_clock
  pl_hurry :: hurry_pc
  pl_read :: play_pc
  pl_peer :: tcpconn
  pl_out :: "play_line list"

inductive play_step :: "instant \<Rightarrow> play_state \<Rightarrow> play_state \<Rightarrow> bool" for s1 where
  play_tick: "0 \<le> d \<Longrightarrow> play_step s1 s (s\<lparr>pl_clock := (pl_clock s)\<lparr>rc_now := rc_now (pl_clock s) + d\<rparr>\<rparr>)"
| play_hurry: "hurry_step (pl_hurry s, pl_clock s) = Some (p, c) \<Longrightarrow> play_step s1 s (s\<lparr>pl_hurry := p, pl_clock := c\<rparr>)"
| play_read: "play_read_step s1 (pl_read s, pl_clock s, pl_peer s, pl_out s) = Some (p, c, conn, out) \<Longrightarrow>
     play_step s1 s (s\<lparr>pl_read := p, pl_clock := c, pl_peer := conn, pl_out := out\<rparr>)"

definition play_start :: "instant \<Rightarrow> go_error + tcpconn \<Rightarrow> play_state option" where
  "play_start now dialled =
     (case dialled of
        Inl err \<Rightarrow> None
      | Inr c \<Rightarrow>
          (case print_writes timeout_texts (c, []) of (c', ws) \<Rightarrow>
             Some \<lparr>pl_clock = \<lparr>rc_now = now, rc_dead = play_NewDead, rc_deadline = None\<rparr>, pl_hurry = HuSleep (now + 3 * Second),
               pl_read = PrLine, pl_peer = snd (conn_CloseWrite c'), pl_out = PlConnected # map PlWrote ws\<rparr>))"

text \<open>
  The loop is left at the end of the stream only: timeouts and resets are printed and the loop goes
  on. What has been printed and what is still to come are together what the peer sends.
\<close>

fun play_data :: "play_line \<Rightarrow> bytes" where
  "play_data (PlRead t d e) = d"
| "play_data _ = []"

fun rx_all :: "rx_event list \<Rightarrow> bytes" where
  "rx_all [] = []"
| "rx_all (RxData d # r) = d @ rx_all r"
| "rx_all (RxErr e # r) = rx_all r"

definition play_inv :: "rx_event list \<Rightarrow> play_state \<Rightarrow> bool" where
  "play_inv evs s \<longleftrightarrow> \<not> conn_closed (pl_peer s) \<and>
     concat (map play_data (pl_out s)) @ rx_all (rx (pl_peer s)) = rx_all evs \<and>
     (RxErr EOF \<in> set (rx (pl_peer s)) \<longrightarrow> RxErr EOF \<in> set evs) \<and>
     (pl_read s = PrRet \<longrightarrow> RxErr EOF \<in> set evs \<and> last (pl_out s) = PlEof)"

lemma play_reads:
  assumes "read_by n c conn = Some ((d, e), conn')" and "\<not> conn_closed conn"
  shows "\<not> conn_closed conn' \<and> d @ rx_all (rx conn') = rx_all (rx conn) \<and>
    (RxErr EOF \<in> set (rx conn') \<longrightarrow> RxErr EOF \<in> set (rx conn)) \<and> (e = Some EOF \<longrightarrow> RxErr EOF \<in> set (rx conn) \<and> d = [])"
proof (cases "conn_Read n conn = Some ((d, e), conn')")
  case True
  with assms(2) show ?thesis
    by (cases "rx conn") (auto simp: conn_Read_def append_assoc [symmetric] simp del: append_assoc split: rx_event.splits if_splits)
next
  case False
  with assms show ?thesis by (auto simp: read_by_def timeout_error_def split: option.splits if_splits)
qed

lemma play_step_inv:
  assumes "play_step s1 s t" and "play_inv evs s"
  shows "play_inv evs t"
  using assms
proof (cases rule: play_step.cases)
  case (play_read p c conn out)
  show ?thesis
  proof (cases "pl_read s")
    case PrRead
    with play_read(2) obtain d e where r: "read_by 100 (pl_clock s) (pl_peer s) = Some ((d, e), conn)"
      and o: "p = (if e = Some EOF then PrRet else PrSleep (rc_now (pl_clock s) + Second))"
        "out = pl_out s @ [if e = Some EOF then PlEof else PlRead (rc_now (pl_clock s) - s1) d e]"
      by (auto split: option.splits if_splits)
    from play_reads [OF r] assms(2) o play_read(1) show ?thesis by (auto simp: play_inv_def)
  qed (use play_read assms(2) in \<open>auto simp: play_inv_def split: if_splits\<close>)
qed (auto simp: play_inv_def)

interpretation play_run: machine "play_step s1" "play_inv evs" for s1 evs
  by unfold_locales (rule play_step_inv)

lemma print_writes_peer:
  "print_writes ts (c, out) = (c', out') \<Longrightarrow> conn_closed c' = conn_closed c \<and> rx c' = rx c"
proof (induction ts arbitrary: c out)
  case (Cons t ts)
  obtain r c1 where w: "conn_Write (str_bytes t) c = (r, c1)" by fastforce
  then have "conn_closed c1 = conn_closed c \<and> rx c1 = rx c"
    by (auto simp: conn_Write_def split: if_splits list.splits option.splits)
  with Cons.IH [of c1 "out @ [r]"] Cons.prems w show ?case by simp
qed simp

theorem play_read_only_eof:
  assumes "play_start now (Inr c) = Some s" and "\<not> conn_closed c" and "reaches (play_step s1) s t"
  shows "(\<exists>rest. rx_all (rx c) = concat (map play_data (pl_out t)) @ rest) \<and>
    (pl_read t = PrRet \<longrightarrow> RxErr EOF \<in> set (rx c) \<and> last (pl_out t) = PlEof)"
proof -
  obtain c' ws where w: "print_writes timeout_texts (c, []) = (c', ws)" by fastforce
  have "concat (map play_data (map PlWrote ws)) = []" by (simp add: comp_def)
  then have "play_inv (rx c) s"
    using assms(1,2) print_writes_peer [OF w] w by (auto simp: play_start_def play_inv_def conn_CloseWrite_def)
  from play_run.reaches_inv [OF assms(3) this] show ?thesis by (auto simp: play_inv_def intro: sym)
qed

section \<open>play/send\<close>

text \<open>\<open>SOCKS5\<close> is \<open>proxy.SOCKS5\<close> of \<open>golang.org/x/net\<close>: it makes a dialer, which dials through the proxy.\<close>

datatype send_log = LogSocksErr string | LogDialErr string | LogWait

definition send_main ::
  "(string \<Rightarrow> go_error + (string \<Rightarrow> go_error + tcpconn)) \<Rightarrow> send_log list \<times> tcpconn option" where
  "send_main SOCKS5 =
     (case SOCKS5 (''127.0.0.1'' @ '':'' @ Itoa 1080) of
        Inl err \<Rightarrow> ([LogSocksErr (Error err)], None)
      | Inr Dial \<Rightarrow>
          (case Dial ''www.baidu.com:80'' of
             Inl err \<Rightarrow> ([LogDialErr (Error err)], None)
           | Inr conn \<Rightarrow> ([LogWait], Some (conn_Close conn))))"

definition send_texts :: "string list" where
  "send_texts = dial_texts @ [[CHR 0x0D, CHR 0x0A] @ ''Connection:Close'']"

definition send_test2 :: "tcpconn \<Rightarrow> tcpconn \<times> written list" where
  "send_test2 conn = print_writes send_texts (conn, [])"

end
