(* ===== verification/Flags.thy ===== *)
theory Flags
  imports Commands
begin

text \<open>
  The command lines of \<open>wssocks client\<close> and \<open>wssocks server\<close>: the flag tables of the two \<open>init\<close> functions
  (\<open>cmd/client/client.go\<close>, \<open>cmd/server/server.go\<close>) with the parser of Go's package \<open>flag\<close>, and
  \<open>main\<close> (\<open>main.go\<close>). The command library that picks the subcommand is a parameter.
\<close>

section \<open>Numbers and booleans of package strconv\<close>

text \<open>The value of a digit in bases up to 36; \<open>None\<close>: not a digit.\<close>

definition digit_val :: "char \<Rightarrow> nat option" where
  "digit_val c =
     (let n = (of_char c :: nat)
      in if 48 \<le> n \<and> n \<le> 57 then Some (n - 48)
         else if 97 \<le> n \<and> n \<le> 122 then Some (n - 97 + 10)
         else if 65 \<le> n \<and> n \<le> 90 then Some (n - 65 + 10)
         else None)"

text \<open>The digit loop of \<open>ParseUint\<close> in base zero mode, where underscores are skipped.\<close>

fun parse_digits :: "nat \<Rightarrow> nat \<Rightarrow> string \<Rightarrow> nat option" where
  "parse_digits base n [] = Some n"
| "parse_digits base n (c # s) =
     (if c = CHR ''_'' then parse_digits base n s
      else case digit_val c of
        None \<Rightarrow> None
      | Some d \<Rightarrow> if base \<le> d then None else parse_digits base (n * base + d) s)"

text \<open>The base a prefix selects, and the rest of the text.\<close>

definition split_base :: "string \<Rightarrow> nat \<times> string" where
  "split_base s =
     (if s \<noteq> [] \<and> hd s = CHR ''0''
      then if 3 \<le> length s \<and> s ! 1 \<in> {CHR ''b'', CHR ''B''} then (2, drop 2 s)
           else if 3 \<le> length s \<and> s ! 1 \<in> {CHR ''o'', CHR ''O''} then (8, drop 2 s)
           else if 3 \<le> length s \<and> s ! 1 \<in> {CHR ''x'', CHR ''X''} then (16, drop 2 s)
           else (8, tl s)
      else (10, s))"

text \<open>
  \<open>underscoreOK\<close>: an underscore stands only between digits or after the base prefix. The first
  argument is what stands before: nothing, a digit (or the prefix), an underscore, or another
  character.
\<close>

datatype under_state = UsStart | UsDigit | UsUnder | UsOther

fun underscores :: "under_state \<Rightarrow> bool \<Rightarrow> string \<Rightarrow> bool" where
  "underscores i hex [] = (i \<noteq> UsUnder)"
| "underscores i hex (c # s) =
     (if (case digit_val c of None \<Rightarrow> False | Some d \<Rightarrow> d < (if hex then 16 else 10)) then underscores UsDigit hex s
      else if c = CHR ''_'' then i = UsDigit \<and> underscores UsUnder hex s
      else i \<noteq> UsUnder \<and> underscores UsOther hex s)"

definition underscoreOK :: "string \<Rightarrow> bool" where
  "underscoreOK s =
     (let s1 = (if s \<noteq> [] \<and> (hd s = CHR ''-'' \<or> hd s = CHR ''+'') then tl s else s)
      in if 2 \<le> length s1 \<and> hd s1 = CHR ''0'' \<and> s1 ! 1 \<in> set ''bBoOxX''
         then underscores UsDigit (s1 ! 1 \<in> {CHR ''x'', CHR ''X''}) (drop 2 s1)
         else underscores UsStart False s1)"

text \<open>\<open>ParseInt(s, 0, 64)\<close>: a text that is no number, or too large a number, is an error.\<close>

definition ParseUint0 :: "string \<Rightarrow> nat option" where
  "ParseUint0 s =
     (if s = [] then None
      else case split_base s of (base, r) \<Rightarrow>
        (case parse_digits base 0 r of
           None \<Rightarrow> None
         | Some n \<Rightarrow> if CHR ''_'' \<in> set r \<and> \<not> underscoreOK s then None else if 2 ^ 64 \<le> n then None else Some n))"

definition ParseInt0 :: "string \<Rightarrow> int option" where
  "ParseInt0 s =
     (if s = [] then None
      else let neg = (hd s = CHR ''-''); r = (if neg \<or> hd s = CHR ''+'' then tl s else s)
           in case ParseUint0 r of
                None \<Rightarrow> None
              | Some n \<Rightarrow>
                  if \<not> neg \<and> 2 ^ 63 \<le> n \<or> neg \<and> 2 ^ 63 < n then None
                  else Some (if neg then - int n else int n))"

definition ParseBool :: "string \<Rightarrow> bool option" where
  "ParseBool s =
     (if s \<in> {''1'', ''t'', ''T'', ''true'', ''TRUE'', ''True''} then Some True
      else if s \<in> {''0'', ''f'', ''F'', ''false'', ''FALSE'', ''False''} then Some False
      else None)"

section \<open>Package flag\<close>

text \<open>A flag of a set, by what its \<open>Set\<close> method stores.\<close>

datatype 'c flag_value =
    StringVar "string \<Rightarrow> 'c \<Rightarrow> 'c"
  | IntVar "int \<Rightarrow> 'c \<Rightarrow> 'c"
  | BoolVar "bool \<Rightarrow> 'c \<Rightarrow> 'c"

type_synonym 'c FlagSet = "(string, 'c flag_value) gomap"

definition ErrHelp :: go_error where
  "ErrHelp = Errorf ''flag: help requested''"

fun flag_Set :: "'c flag_value \<Rightarrow> string \<Rightarrow> 'c \<Rightarrow> 'c option" where
  "flag_Set (StringVar f) v c = Some (f v c)"
| "flag_Set (IntVar f) v c = map_option (\<lambda>n. f n c) (ParseInt0 v)"
| "flag_Set (BoolVar f) v c = map_option (\<lambda>b. f b c) (ParseBool v)"

text \<open>\<open>parseOne\<close>: the arguments left when parsing stops, an error, or the next flag set.\<close>

datatype 'c one_flag = NoFlag "string list" | BadFlag go_error | OneFlag "string list" 'c

definition flag_name :: "string \<Rightarrow> string" where
  "flag_name s = (if s ! 1 = CHR ''-'' then drop 2 s else drop 1 s)"

text \<open>\<open>name=value\<close>, cut at the first \<open>=\<close> that is not the first character.\<close>

definition cut_value :: "string \<Rightarrow> string \<times> string option" where
  "cut_value name =
     (case IndexByte (tl name) CHR ''='' of
        None \<Rightarrow> (name, None)
      | Some i \<Rightarrow> (take (Suc i) name, Some (drop (Suc (Suc i)) name)))"

definition set_flag :: "string \<Rightarrow> 'c flag_value \<Rightarrow> string \<Rightarrow> string list \<Rightarrow> 'c \<Rightarrow> 'c one_flag" where
  "set_flag name f v args c =
     (case flag_Set f v c of
        None \<Rightarrow> BadFlag (Errorf (''invalid value for flag -'' @ name))
      | Some c' \<Rightarrow> OneFlag args c')"

definition parseOne :: "'c FlagSet \<Rightarrow> string list \<Rightarrow> 'c \<Rightarrow> 'c one_flag" where
  "parseOne fs args c =
     (case args of
        [] \<Rightarrow> NoFlag []
      | s # rest \<Rightarrow>
          if length s < 2 \<or> hd s \<noteq> CHR ''-'' then NoFlag args
          else if s = ''--'' then NoFlag rest
          else if flag_name s = [] \<or> hd (flag_name s) = CHR ''-'' \<or> hd (flag_name s) = CHR ''=''
          then BadFlag (Errorf (''bad flag syntax: '' @ s))
          else
            (case cut_value (flag_name s) of (name, given) \<Rightarrow>
               (case gm_get fs name of
                  None \<Rightarrow>
                    if name = ''help'' \<or> name = ''h'' then BadFlag ErrHelp
                    else BadFlag (Errorf (''flag provided but not defined: -'' @ name))
                | Some f \<Rightarrow>
                    (case (given, f, rest) of
                       (Some v, _, _) \<Rightarrow> set_flag name f v rest c
                     | (None, BoolVar _, _) \<Rightarrow> set_flag name f ''true'' rest c
                     | (None, _, v # rest') \<Rightarrow> set_flag name f v rest' c
                     | (None, _, []) \<Rightarrow> BadFlag (Errorf (''flag needs an argument: -'' @ name))))))"

lemma parseOne_shorter: "parseOne fs args c = OneFlag args' c' \<Longrightarrow> length args' < length args"
  by (auto simp: parseOne_def set_flag_def
      split: list.splits if_splits prod.splits option.splits flag_value.splits)

text \<open>\<open>FlagSet.Parse\<close>: the arguments that are not flags, and the command with its fields set.\<close>

function flag_Parse :: "'c FlagSet \<Rightarrow> string list \<Rightarrow> 'c \<Rightarrow> go_error + (string list \<times> 'c)" where
  "flag_Parse fs args c =
     (case parseOne fs args c of
        NoFlag rest \<Rightarrow> Inr (rest, c)
      | BadFlag err \<Rightarrow> Inl err
      | OneFlag rest c' \<Rightarrow> flag_Parse fs rest c')"
  by pat_completeness auto

termination flag_Parse
  by (relation "measure (\<lambda>(fs, args, c). length args)") (auto dest: parseOne_shorter)

declare flag_Parse.simps [simp del]

section \<open>The flag tables\<close>

definition client_flags :: "client_cmd FlagSet" where
  "client_flags =
     [(''addr'', StringVar (\<lambda>v c. c\<lparr>cm_address := v\<rparr>)),
      (''remote'', StringVar (\<lambda>v c. c\<lparr>cm_remote := v\<rparr>)),
      (''nums'', IntVar (\<lambda>n c. c\<lparr>cm_connectNum := n\<rparr>)),
      (''key'', StringVar (\<lambda>v c. c\<lparr>cm_key := v\<rparr>)),
      (''ws-header'', StringVar (\<lambda>v c. c\<lparr>cm_headers := listFlags_Set v (cm_headers c)\<rparr>)),
      (''skip-tls-verify'', BoolVar (\<lambda>b c. c\<lparr>cm_skipTLSVerify := b\<rparr>))]"

definition server_flags :: "server_cmd FlagSet" where
  "server_flags =
     [(''addr'', StringVar (\<lambda>v s. s\<lparr>sm_address := v\<rparr>)),
      (''ws_base_path'', StringVar (\<lambda>v s. s\<lparr>sm_wsBasePath := v\<rparr>)),
      (''http'', BoolVar (\<lambda>b s. s\<lparr>sm_http := b\<rparr>)),
      (''auth'', BoolVar (\<lambda>b s. s\<lparr>sm_authEnable := b\<rparr>)),
      (''auth_key'', StringVar (\<lambda>v s. s\<lparr>sm_authKey := v\<rparr>)),
      (''tls'', BoolVar (\<lambda>b s. s\<lparr>sm_tls := b\<rparr>)),
      (''tls-cert-file'', StringVar (\<lambda>v s. s\<lparr>sm_tlsCertFile := v\<rparr>)),
      (''tls-key-file'', StringVar (\<lambda>v s. s\<lparr>sm_tlsKeyFile := v\<rparr>)),
      (''status'', BoolVar (\<lambda>b s. s\<lparr>sm_status := b\<rparr>))]"

section \<open>main\<close>

text \<open>
  \<open>parsed\<close> is the result of \<open>cmds.Parse()\<close>, which picks the subcommand and runs it; \<open>is_sub\<close> tells
  whether an error is the library's \<open>SubCommandParseError\<close>. \<open>log.Fatal\<close> ends the process with code 1.
\<close>

definition main_exit :: "(go_error \<Rightarrow> bool) \<Rightarrow> go_error option \<Rightarrow> nat" where
  "main_exit is_sub parsed =
     (case parsed of
        None \<Rightarrow> 0
      | Some err \<Rightarrow> if err \<noteq> ErrHelp \<and> \<not> is_sub err then 1 else 0)"

section \<open>Printed numbers\<close>

lemma digit_val_digit: "d < 10 \<Longrightarrow> digit_val (digit_char d) = Some d"
  by (simp add: digit_val_def digit_code Let_def)

lemma digit_code_ne: "d < 10 \<Longrightarrow> of_char c \<notin> {48..<58 :: nat} \<Longrightarrow> digit_char d \<noteq> c"
  using digit_code [of d] by auto

lemma digit_no_sign:
  "d < 10 \<Longrightarrow> digit_char d \<noteq> CHR ''_'' \<and> digit_char d \<noteq> CHR ''-'' \<and> digit_char d \<noteq> CHR ''+''"
  by (intro conjI digit_code_ne) simp_all

lemma parse_digits_append: "CHR ''_'' \<notin> set a \<Longrightarrow>
    parse_digits base n (a @ b) = Option.bind (parse_digits base n a) (\<lambda>m. parse_digits base m b)"
  by (induction a arbitrary: n) (auto split: option.split)

lemma Itoa_no_underscore: "CHR ''_'' \<notin> set (Itoa n)"
proof
  assume "CHR ''_'' \<in> set (Itoa n)"
  then obtain d where "d < 10" "CHR ''_'' = digit_char d" using set_Itoa by blast
  then show False using digit_no_sign [of d] by simp
qed

lemma parse_digits_Itoa: "parse_digits 10 0 (Itoa n) = Some n"
proof (induction n rule: less_induct)
  case (less n)
  have digit: "parse_digits 10 m [digit_char d] = Some (m * 10 + d)" if "d < 10" for m d
    using that digit_no_sign [of d] by (simp add: digit_val_digit)
  show ?case
  proof (cases "n < 10")
    case True
    with digit show ?thesis by (simp add: Itoa_1)
  next
    case False
    then have "Itoa n = Itoa (n div 10) @ [digit_char (n mod 10)]" by (subst Itoa.simps) simp
    with less [of "n div 10"] False digit [of "n mod 10"] show ?thesis
      by (simp add: parse_digits_append Itoa_no_underscore)
  qed
qed

lemma hd_Itoa: "\<exists>d<10. hd (Itoa n) = digit_char d \<and> (d = 0 \<longrightarrow> n = 0)"
proof (induction n rule: less_induct)
  case (less n)
  show ?case
  proof (cases "n < 10")
    case True
    then show ?thesis by (auto simp: Itoa_1)
  next
    case False
    then have "Itoa n = Itoa (n div 10) @ [digit_char (n mod 10)]" by (subst Itoa.simps) simp
    with less [of "n div 10"] False show ?thesis by (auto simp: hd_append)
  qed
qed

lemma ParseUint0_Itoa: "n < 2 ^ 64 \<Longrightarrow> ParseUint0 (Itoa n) = Some n"
proof (cases "n = 0")
  case True
  have "Itoa 0 = ''0''" by (simp add: Itoa_1 digit_char_def) code_simp
  then show ?thesis by (simp add: True ParseUint0_def split_base_def)
next
  case False
  assume n: "n < 2 ^ 64"
  obtain d where d: "d < 10" "hd (Itoa n) = digit_char d" "d \<noteq> 0" using hd_Itoa [of n] False by blast
  then have "hd (Itoa n) \<noteq> CHR ''0''" using digit_code [of d] by auto
  then show ?thesis using n by (simp add: ParseUint0_def split_base_def parse_digits_Itoa Itoa_no_underscore)
qed

definition int_string :: "int \<Rightarrow> string" where
  "int_string n = (if n < 0 then CHR ''-'' # Itoa (nat (- n)) else Itoa (nat n))"

lemma ParseInt0_int_string:
  assumes "- (2 ^ 63) \<le> n" and "n < 2 ^ 63"
  shows "ParseInt0 (int_string n) = Some n"
proof (cases "n < 0")
  case True
  then show ?thesis
    using assms by (simp add: int_string_def ParseInt0_def ParseUint0_Itoa nat_less_iff Let_def)
next
  case False
  obtain d where "d < 10" "hd (Itoa (nat n)) = digit_char d" using hd_Itoa [of "nat n"] by blast
  then have "hd (Itoa (nat n)) \<noteq> CHR ''-''" "hd (Itoa (nat n)) \<noteq> CHR ''+''" using digit_no_sign by auto
  then show ?thesis
    using False assms by (simp add: int_string_def ParseInt0_def ParseUint0_Itoa nat_less_iff Let_def)
qed

section \<open>One flag\<close>

text \<open>The names of the tables: not empty, no leading hyphen, no equals sign.\<close>

definition plain_name :: "string \<Rightarrow> bool" where
  "plain_name name \<longleftrightarrow> name \<noteq> [] \<and> hd name \<noteq> CHR ''-'' \<and> CHR ''='' \<notin> set name"

lemma cut_value_given: "plain_name name \<Longrightarrow> cut_value (name @ CHR ''='' # v) = (name, Some v)"
  by (cases name) (simp_all add: plain_name_def cut_value_def IndexByte_append)

lemma cut_value_bare: "plain_name name \<Longrightarrow> cut_value name = (name, None)"
  by (cases name) (simp_all add: plain_name_def cut_value_def IndexByte_None)

lemma parseOne_given:
  assumes "plain_name name" and "gm_get fs name = Some f" and "flag_Set f v c = Some c'"
  shows "flag_Parse fs ((''-'' @ name @ ''='' @ v) # rest) c = flag_Parse fs rest c'"
proof -
  have n: "flag_name (''-'' @ name @ ''='' @ v) = name @ CHR ''='' # v"
    using assms(1) by (cases name) (auto simp: flag_name_def plain_name_def)
  have "parseOne fs ((''-'' @ name @ ''='' @ v) # rest) c = OneFlag rest c'"
    unfolding parseOne_def list.case n cut_value_given [OF assms(1)] using assms
    by (cases name) (auto simp: set_flag_def plain_name_def)
  then show ?thesis by (subst flag_Parse.simps) simp
qed

lemma parseOne_next:
  assumes "plain_name name" and "gm_get fs name = Some (StringVar f)"
  shows "flag_Parse fs ((''--'' @ name) # v # rest) c = flag_Parse fs rest (f v c)"
proof -
  have n: "flag_name (''--'' @ name) = name" by (simp add: flag_name_def)
  have "parseOne fs ((''--'' @ name) # v # rest) c = OneFlag rest (f v c)"
    unfolding parseOne_def list.case n cut_value_bare [OF assms(1)] using assms
    by (cases name) (auto simp: set_flag_def plain_name_def)
  then show ?thesis by (subst flag_Parse.simps) simp
qed

section \<open>Command lines\<close>

definition bool_string :: "bool \<Rightarrow> string" where
  "bool_string b = (if b then ''true'' else ''false'')"

lemma ParseBool_bool_string [simp]: "ParseBool (bool_string b) = Some b"
  by (simp add: ParseBool_def bool_string_def)

definition header_args :: "string list \<Rightarrow> string list" where
  "header_args hs = concat (map (\<lambda>h. [''--ws-header'', h]) hs)"

definition client_args :: "client_cmd \<Rightarrow> string list" where
  "client_args c =
     [''--addr'', cm_address c, ''--remote'', cm_remote c, ''-nums='' @ int_string (cm_connectNum c),
      ''--key'', cm_key c] @ header_args (cm_headers c) @ [''-skip-tls-verify='' @ bool_string (cm_skipTLSVerify c)]"

definition server_args :: "server_cmd \<Rightarrow> string list" where
  "server_args s =
     [''--addr'', sm_address s, ''--ws_base_path'', sm_wsBasePath s, ''-http='' @ bool_string (sm_http s),
      ''-auth='' @ bool_string (sm_authEnable s), ''--auth_key'', sm_authKey s, ''-tls='' @ bool_string (sm_tls s),
      ''--tls-cert-file'', sm_tlsCertFile s, ''--tls-key-file'', sm_tlsKeyFile s,
      ''-status='' @ bool_string (sm_status s)]"

lemma parse_header_args:
  "flag_Parse client_flags (header_args hs @ rest) c = flag_Parse client_flags rest (c\<lparr>cm_headers := cm_headers c @ hs\<rparr>)"
proof (induction hs arbitrary: c)
  case (Cons h hs)
  have "plain_name ''ws-header''"
      "gm_get client_flags ''ws-header'' = Some (StringVar (\<lambda>v c. c\<lparr>cm_headers := listFlags_Set v (cm_headers c)\<rparr>))"
    by (simp_all add: plain_name_def client_flags_def gm_get_def)
  from parseOne_next [OF this, of h "header_args hs @ rest" c] Cons show ?case
    by (simp add: header_args_def listFlags_Set_def)
qed (simp add: header_args_def)

section \<open>Properties\<close>

lemma no_more_flags: "rest = [] \<or> hd (hd rest) \<noteq> CHR ''-'' \<Longrightarrow> flag_Parse fs rest c = Inr (rest, c)"
  by (cases rest) (auto simp: flag_Parse.simps parseOne_def)

lemma client_args_parse:
  assumes "cm_remoteUrl c = None" and "cm_remoteHeaders c = []"
    and "- (2 ^ 63) \<le> cm_connectNum c" and "cm_connectNum c < 2 ^ 63"
  shows "flag_Parse client_flags (client_args c @ rest) new_client_cmd = flag_Parse client_flags rest c"
proof -
  note table = client_flags_def gm_get_def plain_name_def
  have addr: "flag_Parse client_flags (''--addr'' # v # r) d = flag_Parse client_flags r (d\<lparr>cm_address := v\<rparr>)" for v r d
    using parseOne_next [of "''addr''" client_flags _ v r d] by (simp add: table)
  have remote: "flag_Parse client_flags (''--remote'' # v # r) d = flag_Parse client_flags r (d\<lparr>cm_remote := v\<rparr>)" for v r d
    using parseOne_next [of "''remote''" client_flags _ v r d] by (simp add: table)
  have nums: "flag_Parse client_flags ((''-nums='' @ int_string n) # r) d =
      flag_Parse client_flags r (d\<lparr>cm_connectNum := n\<rparr>)" if "- (2 ^ 63) \<le> n" "n < 2 ^ 63" for n r d
    using parseOne_given [of "''nums''" client_flags "IntVar (\<lambda>n c. c\<lparr>cm_connectNum := n\<rparr>)"
        "int_string n" d _ r] ParseInt0_int_string [OF that] by (simp add: table)
  have key: "flag_Parse client_flags (''--key'' # v # r) d = flag_Parse client_flags r (d\<lparr>cm_key := v\<rparr>)" for v r d
    using parseOne_next [of "''key''" client_flags _ v r d] by (simp add: table)
  have skip: "flag_Parse client_flags ((''-skip-tls-verify='' @ bool_string b) # r) d =
      flag_Parse client_flags r (d\<lparr>cm_skipTLSVerify := b\<rparr>)" for b r d
    using parseOne_given [of "''skip-tls-verify''" client_flags "BoolVar (\<lambda>b c. c\<lparr>cm_skipTLSVerify := b\<rparr>)"
        "bool_string b" d _ r] by (simp add: table)
  show ?thesis
    using assms
    by (cases c) (simp add: client_args_def addr [simplified] remote [simplified] nums [simplified] key [simplified]
        skip [simplified] parse_header_args new_client_cmd_def)
qed

lemma server_args_parse:
  "flag_Parse server_flags (server_args s @ rest) new_server_cmd = flag_Parse server_flags rest s"
proof -
  note table = server_flags_def gm_get_def plain_name_def
  have strings:
    "flag_Parse server_flags (''--addr'' # v # r) d = flag_Parse server_flags r (d\<lparr>sm_address := v\<rparr>)"
    "flag_Parse server_flags (''--ws_base_path'' # v # r) d = flag_Parse server_flags r (d\<lparr>sm_wsBasePath := v\<rparr>)"
    "flag_Parse server_flags (''--auth_key'' # v # r) d = flag_Parse server_flags r (d\<lparr>sm_authKey := v\<rparr>)"
    "flag_Parse server_flags (''--tls-cert-file'' # v # r) d = flag_Parse server_flags r (d\<lparr>sm_tlsCertFile := v\<rparr>)"
    "flag_Parse server_flags (''--tls-key-file'' # v # r) d = flag_Parse server_flags r (d\<lparr>sm_tlsKeyFile := v\<rparr>)"
    for v r d
    using parseOne_next [of "''addr''" server_flags _ v r d] parseOne_next [of "''ws_base_path''" server_flags _ v r d]
      parseOne_next [of "''auth_key''" server_flags _ v r d] parseOne_next [of "''tls-cert-file''" server_flags _ v r d]
      parseOne_next [of "''tls-key-file''" server_flags _ v r d]
    by (simp_all add: table)
  have bools:
    "flag_Parse server_flags ((''-http='' @ bool_string b) # r) d = flag_Parse server_flags r (d\<lparr>sm_http := b\<rparr>)"
    "flag_Parse server_flags ((''-auth='' @ bool_string b) # r) d = flag_Parse server_flags r (d\<lparr>sm_authEnable := b\<rparr>)"
    "flag_Parse server_flags ((''-tls='' @ bool_string b) # r) d = flag_Parse server_flags r (d\<lparr>sm_tls := b\<rparr>)"
    "flag_Parse server_flags ((''-status='' @ bool_string b) # r) d = flag_Parse server_flags r (d\<lparr>sm_status := b\<rparr>)"
    for b r d
    using parseOne_given [of "''http''" server_flags _ "bool_string b" d _ r]
      parseOne_given [of "''auth''" server_flags _ "bool_string b" d _ r]
      parseOne_given [of "''tls''" server_flags _ "bool_string b" d _ r]
      parseOne_given [of "''status''" server_flags _ "bool_string b" d _ r]
    by (simp_all add: table)
  show ?thesis
    by (cases s) (simp add: server_args_def strings [simplified] bools [simplified] new_server_cmd_def)
qed

text \<open>
  C32. The command lines of both commands carry every setting: parsing the flags that name the fields of
  a configuration gives exactly this configuration, whatever texts its fields hold (also texts that
  look like flags), for a number of WebSockets that fits an \<open>int\<close>, and leaves the arguments after
  the flags alone.
\<close>

theorem command_line_roundtrip:
  assumes "cm_remoteUrl c = None" and "cm_remoteHeaders c = []"
    and "- (2 ^ 63) \<le> cm_connectNum c" and "cm_connectNum c < 2 ^ 63"
    and "rest = [] \<or> hd (hd rest) \<noteq> CHR ''-''"
  shows "flag_Parse client_flags (client_args c @ rest) new_client_cmd = Inr (rest, c) \<and>
    flag_Parse server_flags (server_args s @ rest) new_server_cmd = Inr (rest, s)"
  using client_args_parse [OF assms(1-4), of rest] server_args_parse [of s rest]
    no_more_flags [OF assms(5), of client_flags c] no_more_flags [OF assms(5), of server_flags s] by simp

theorem command_line_roundtrip_witness:
  "flag_Parse client_flags [''--addr'', '':9'', ''--remote'', ''--x'', ''-nums=7'', ''--key'', ''k='', ''--ws-header'', ''A=b'',
       ''-skip-tls-verify=true'', ''run''] new_client_cmd =
     Inr ([''run''], \<lparr>cm_address = '':9'', cm_remote = ''--x'', cm_remoteUrl = None, cm_headers = [''A=b''], cm_connectNum = 7,
       cm_remoteHeaders = [], cm_key = ''k='', cm_skipTLSVerify = True\<rparr>)"
proof -
  have "int_string 7 = ''7''" by (simp add: int_string_def Itoa_1 digit_char_def) code_simp
  then show ?thesis
    using command_line_roundtrip [of "\<lparr>cm_address = '':9'', cm_remote = ''--x'', cm_remoteUrl = None, cm_headers = [''A=b''],
        cm_connectNum = 7, cm_remoteHeaders = [], cm_key = ''k='', cm_skipTLSVerify = True\<rparr>" "[''run'']" new_server_cmd]
    by (simp add: client_args_def header_args_def bool_string_def)
qed

end
