(* ===== verification/Cmd_Table.thy ===== *)
theory Cmd_Table
  imports Flags
begin

text \<open>
  The table of subcommands (\<open>cmd/client/client.go\<close>, \<open>cmd/server/server.go\<close>, \<open>version/version.go\<close>,
  \<open>main.go\<close>): the commands as their packages declare them, what the packages' \<open>init\<close> functions make
  of them, and what \<open>PreRun\<close> and \<open>Run\<close> of a command are. Package \<open>cmds\<close>, which reads the command line
  and picks the command, is not part of the repository; the type of its commands is given by the
  fields the code sets.
\<close>

section \<open>The commands\<close>

datatype runner = ClientRunner client_cmd | ServerRunner server_cmd | VersionRunner

record Command =
  cd_Name :: string
  cd_Summary :: string
  cd_Description :: string
  cd_CustomFlags :: bool
  cd_HasOptions :: bool
  cd_FlagSet :: "(string \<times> string list) option"  \<comment> \<open>the flag set's name and its flags\<close>
  cd_Runner :: "runner option"

definition CommandNameClient :: string where
  "CommandNameClient = ''client''"

definition clientCommand :: Command where
  "clientCommand = \<lparr>cd_Name = CommandNameClient, cd_Summary = ''run as client mode'',
     cd_Description = ''run as client program.'', cd_CustomFlags = False, cd_HasOptions = True,
     cd_FlagSet = None, cd_Runner = None\<rparr>"

definition serverCommand :: Command where
  "serverCommand = \<lparr>cd_Name = ''server'', cd_Summary = ''run as server mode'',
     cd_Description = ''run as server program.'', cd_CustomFlags = False, cd_HasOptions = True,
     cd_FlagSet = None, cd_Runner = None\<rparr>"

definition versionCommand :: Command where
  "versionCommand = \<lparr>cd_Name = ''version'', cd_Summary = ''show version'',
     cd_Description = ''print current version.'', cd_CustomFlags = False, cd_HasOptions = False,
     cd_FlagSet = None, cd_Runner = None\<rparr>"

text \<open>\<open>listFlags\<close> is a \<open>flag.Value\<close>: what its default is printed as.\<close>

definition listFlags_String :: "string list \<Rightarrow> string" where
  "listFlags_String l = ''my string representation''"

section \<open>init\<close>

text \<open>The \<open>init\<close> functions append to \<open>cmds.AllCommands\<close>; Go runs them in the order of the imports of \<open>main\<close>.\<close>

definition client_init :: "Command list \<Rightarrow> Command list" where
  "client_init cmds = cmds @ [clientCommand\<lparr>cd_FlagSet := Some (CommandNameClient, map fst client_flags),
     cd_Runner := Some (ClientRunner new_client_cmd)\<rparr>]"

definition server_init :: "Command list \<Rightarrow> Command list" where
  "server_init cmds = cmds @ [serverCommand\<lparr>cd_FlagSet := Some (''server'', map fst server_flags),
     cd_Runner := Some (ServerRunner new_server_cmd)\<rparr>]"

definition version_init :: "Command list \<Rightarrow> Command list" where
  "version_init cmds = cmds @ [versionCommand\<lparr>cd_FlagSet := Some (''version'', []), cd_Runner := Some VersionRunner\<rparr>]"

definition AllCommands :: "Command list" where
  "AllCommands = version_init (server_init (client_init []))"

section \<open>version\<close>

definition VERSION :: string where "VERSION = CoreVersion"
definition buildHash :: string where "buildHash = ''none''"
definition buildTime :: string where "buildTime = ''none''"
definition buildGoVersion :: string where "buildGoVersion = ''none''"

definition version_PreRun :: "go_error option" where
  "version_PreRun = None"

section \<open>PreRun of the chosen command\<close>

definition runner_PreRun ::
  "(string \<Rightarrow> go_error + url) \<Rightarrow> (nat \<Rightarrow> go_error + 8 word list) \<Rightarrow> runner \<Rightarrow> go_error + runner" where
  "runner_PreRun url_Parse rand r =
     (case r of
        ClientRunner c \<Rightarrow> map_sum id ClientRunner (client_PreRun url_Parse c)
      | ServerRunner s \<Rightarrow> map_sum id ServerRunner (server_PreRun rand s)
      | VersionRunner \<Rightarrow> (case version_PreRun of None \<Rightarrow> Inr VersionRunner | Some err \<Rightarrow> Inl err))"

text \<open>
  Parsing the arguments of a command stores into the variable its runner points to.
\<close>

definition runner_Parse :: "string list \<Rightarrow> runner \<Rightarrow> go_error + (string list \<times> runner)" where
  "runner_Parse args r =
     (case r of
        ClientRunner c \<Rightarrow> map_sum id (map_prod id ClientRunner) (flag_Parse client_flags args c)
      | ServerRunner s \<Rightarrow> map_sum id (map_prod id ServerRunner) (flag_Parse server_flags args s)
      | VersionRunner \<Rightarrow> map_sum id (map_prod id (\<lambda>_. VersionRunner)) (flag_Parse [] args ()))"

section \<open>The table\<close>

text \<open>A name picks at most one command, and every command can be run.\<close>

lemma AllCommands_table:
  "map cd_Name AllCommands = [''client'', ''server'', ''version'']"
  "distinct (map cd_Name AllCommands)"
  "\<forall>c\<in>set AllCommands. cd_Runner c \<noteq> None \<and> map_option fst (cd_FlagSet c) = Some (cd_Name c)"
  by (simp_all add: AllCommands_def client_init_def server_init_def version_init_def clientCommand_def serverCommand_def
      versionCommand_def CommandNameClient_def)

definition find_command :: "string \<Rightarrow> Command option" where
  "find_command name = find (\<lambda>c. cd_Name c = name) AllCommands"

text \<open>The flag set of a command says whether it has options, as its declaration claims.\<close>

lemma HasOptions_flags: "\<forall>c\<in>set AllCommands. cd_HasOptions c \<longleftrightarrow> snd (the (cd_FlagSet c)) \<noteq> []"
  by (simp add: AllCommands_def client_init_def server_init_def version_init_def clientCommand_def serverCommand_def
      versionCommand_def client_flags_def server_flags_def)

lemma flag_names_distinct: "distinct (map fst client_flags)" "distinct (map fst server_flags)"
  by (simp_all add: client_flags_def server_flags_def)

text \<open>
  A client started without \<open>-remote\<close> is refused before anything is opened.
\<close>

lemma client_needs_remote:
  assumes "find_command ''client'' = Some c"
  shows "\<exists>r e. runner_Parse [] (the (cd_Runner c)) = Inr ([], r) \<and> runner_PreRun url_Parse rand r = Inl e"
proof -
  have "cd_Runner c = Some (ClientRunner new_client_cmd)"
    using assms
    by (auto simp: find_command_def AllCommands_def client_init_def server_init_def version_init_def clientCommand_def
        CommandNameClient_def)
  then show ?thesis
    by (simp add: runner_Parse_def runner_PreRun_def client_PreRun_def new_client_cmd_def flag_Parse.simps parseOne_def)
qed

end
