(* ===== verification/Debug_Log.thy ===== *)
theory Debug_Log
  imports Pipe_Func Go_Net
begin

text \<open>
  The debugging output of the transfer (\<open>pipe/func.go\<close>, \<open>wss/proxy_server.go\<close>,
  \<open>wss/wssocks_client.go\<close>): the switches and the closures that decide whether a line is logged. A line
  is what \<open>log.Debug\<close> or \<open>fmt.Println\<close> gets; the clock is an argument.
\<close>

definition DebugLog :: bool where "DebugLog = True"
definition slowTime :: duration where "slowTime = Second"
definition DebugLogDomain :: string where "DebugLogDomain = ''oca.nflxvideo.net''"

text \<open>\<open>debugPrint\<close> of \<open>CopyBuffer\<close>, and of \<open>establish\<close> and \<open>transData\<close>, which look at the switch themselves.\<close>

definition copy_debugPrint :: "string \<Rightarrow> 'a list \<Rightarrow> 'a list \<Rightarrow> 'a list" where
  "copy_debugPrint addr line out = (if Contains addr DebugLogDomain then out @ line else out)"

definition debugPrint :: "bool \<Rightarrow> string \<Rightarrow> 'a list \<Rightarrow> 'a list \<Rightarrow> 'a list" where
  "debugPrint debug addr line out =
     (if \<not> debug then out else if Contains addr DebugLogDomain then out @ line else out)"

datatype slow_line = SlowLine instant string string int duration

definition debugCompare ::
  "bool \<Rightarrow> instant \<Rightarrow> string \<Rightarrow> string \<Rightarrow> instant \<Rightarrow> int \<Rightarrow> slow_line list \<Rightarrow> slow_line list" where
  "debugCompare debug now addr action s1 nr out =
     (if \<not> debug then out
      else let diff = now - s1
           in if slowTime < diff then copy_debugPrint addr [SlowLine now addr action nr diff] out else out)"

text \<open>\<open>line\<close> is the formatted line, without the newline \<open>fmt.Println\<close> adds.\<close>

definition pipePrintln :: "string \<Rightarrow> string list \<Rightarrow> (nat \<times> go_error option) \<times> string list" where
  "pipePrintln line out =
     (if \<not> pipeDebug then ((0, None), out) else ((Suc (length line), None), out @ [line]))"

text \<open>
  A slow read or write is logged exactly when logging is on, it took longer than a second, and the
  address contains the domain.
\<close>

lemma debugCompare_iff:
  "debugCompare debug now addr action s1 nr out =
     (if debug \<and> Second < now - s1 \<and> (\<exists>a b. addr = a @ DebugLogDomain @ b)
      then out @ [SlowLine now addr action nr (now - s1)] else out)"
  by (auto simp: debugCompare_def copy_debugPrint_def slowTime_def Contains_iff Let_def)

lemma debug_off: "debugPrint False addr line out = out" "pipePrintln x xs = ((0, None), xs)"
  by (simp_all add: debugPrint_def pipePrintln_def pipeDebug_def)

end
