(* ===== verification/Spec2Isabelle.thy ===== *)
theory Spec2Isabelle
  imports Transfers Expiry Queue_Races Listener Local_Visit Buffered_WR Ws_Buffer Serve_Props
    Handles_Live Heart_Beat Term_Props Command_Props Teardown Trans_Life Deadlines Isolation Wire_Types
    Win_Console Status_Page Response_Props Experiments Cmd_Table Debug_Log
begin

text \<open>
  A verification development for \<^emph>\<open>wssocks\<close>, a SOCKS5 proxy that tunnels TCP connections through
  WebSockets. Paths below are relative to \<open>src/\<close>.

  \<^bold>\<open>The program.\<close> The client accepts SOCKS5 connections on a local port. It opens several WebSockets to
  the server; a connection gets one lane per WebSocket. The application's bytes are cut into chunks
  which go to the lanes in turn: on the sending side a \<open>queue\<close> per lane (\<open>pipe/queue.go\<close>), a frame per
  chunk (\<open>wss/concurrent_websocket.go\<close>, \<open>wss/ws_datatypes.go\<close>), on the receiving side a \<open>link\<close> per lane
  (\<open>pipe/link.go\<close>) and a goroutine that takes the chunks out of the links in the order of the lanes and
  writes them to the other TCP connection. The server dials the target and sends its bytes back the
  same way. Private targets are visited from the client directly.

  \<^bold>\<open>Conventions\<close> (\<open>Prelude\<close>). Go maps are association lists without repeated keys (\<open>gm_*\<close>); a range over a
  map takes the order as an argument. Channels (\<open>Go_Chan\<close>) are records of buffer, capacity and the
  closed flag; operations on them return, block or panic (\<open>outcome\<close>). Objects shared by pointer live in
  stores indexed by numbers. A goroutine is a step function over a program counter with one step per
  operation that other goroutines can see; systems of goroutines are step relations or machines
  (locales \<open>machine\<close>, \<open>terminating_machine\<close>). Errors are values (\<open>go_error\<close>). What the environment
  decides (dials, reads, timers, identifiers, the clock, random bytes) is an argument or an event.
  Counters of 64 bits are words where the source lets them wrap.

  \<^bold>\<open>Components and theories.\<close>
  \<^item> \<open>pipe\<close>: \<open>Pipe_Func\<close> (\<open>pipe/func.go\<close>, \<open>tcp.go\<close>, \<open>dead.go\<close>: \<open>CopyBuffer\<close>, \<open>safeWrite\<close>, buffers), \<open>Queue\<close>
    (\<open>queue.go\<close>), \<open>Link\<close> (\<open>link.go\<close>), \<open>Copy_Loop\<close> (the copy loop as a goroutine, equal to \<open>CopyBuffer\<close>),
    \<open>Teardown\<close> (what becomes of a running \<open>Send\<close> when its queue or its links are removed), \<open>Deadlines\<close> (the
    read deadline shared by the copy loop and the goroutine of \<open>establish\<close> that shortens it), \<open>Expiry\<close>
    (\<open>TimeoutClose\<close> of both hubs, once for both in the locale \<open>reaper\<close>), \<open>Queue_Races\<close> (what goes wrong
    around \<open>Send\<close>).
  \<^item> Wire: \<open>Base64\<close>, \<open>Messages\<close> (\<open>ws_datatypes.go\<close>, \<open>proxy_client.go\<close>: JSON documents and their decoders),
    \<open>Ws_Writer\<close> (\<open>concurrent_websocket.go\<close>), \<open>Ws_Buffer\<close> (\<open>Base64WSBufferWriter\<close>), \<open>Buffered_WR\<close>
    (\<open>buffered_reader_writer.go\<close>), \<open>Http_Header\<close> (\<open>http_utils.go\<close>), \<open>Wire_Types\<close> (the messages of the client
    as a type discipline the server's handler respects, and the receive loop of the client).
  \<^item> Front end: \<open>Go_Net\<close> (addresses of package \<open>net\<close>), \<open>Socks5\<close> (\<open>proxy_client_socks5.go\<close>, \<open>Client.Reply\<close>),
    \<open>Privite\<close> (\<open>privite.go\<close>), \<open>Client\<close> (\<open>websocket_client.go\<close>, \<open>wssocks_client.go\<close>: receive loop,
    \<open>localVisit\<close>, \<open>transData\<close>, \<open>Close\<close>), \<open>Trans_Life\<close> (one \<open>transData\<close> from its loop over the WebSockets to
    its deferred calls), \<open>Local_Visit\<close>, \<open>Conn_Records\<close> (\<open>conn_records.go\<close>), \<open>Listener\<close> (\<open>ListenAndServe\<close> and
    the goroutine of each connection).
  \<^item> Server: \<open>Server\<close> (\<open>hub.go\<close>, \<open>hub_collection.go\<close>, \<open>proxy_server.go\<close>), \<open>Server_Props\<close>, \<open>Isolation\<close> (what one
    message can reach in the shared hubs), \<open>Serve_WS\<close> and \<open>Serve_Props\<close> (\<open>wssocks_server.go\<close>), \<open>Web_Status\<close>
    (\<open>status/status.go\<close>), \<open>Status_Page\<close> (the page in \<open>status-web/src\<close>: what it shows for each answer).
  \<^item> Tunnel: \<open>Tunnel\<close>, \<open>Tunnel_Inv\<close>, \<open>Tunnel_Live\<close>, \<open>Transfers\<close> compose copy loop, queues, frames, dispatch
    and links of one connection in either direction; \<open>Handshake\<close> composes the setup messages; \<open>Byte_Pipe\<close>
    is what a transfer promises, a pipe that hands over bytes in order, and the simulation of a tunnel
    by it.
  \<^item> Session: \<open>Upload_Session\<close> puts handshake and data together, from the client's \<open>transData\<close> to the
    target: the receive loops of the server, \<open>establish\<close> and both \<open>Send\<close> goroutines take their steps in any
    order, and data can come before the handshake is complete. Its invariant speaks of every way the
    handshake can still be completed; \<open>Early_Data\<close> shows that what is left of the handshake and the
    delivery of data commute. \<open>Session_Props\<close> starts it from the state \<open>transData\<close> leaves, \<open>Response_Props\<close>
    follows the answer from the target back to the application.
  \<^item> Client process: \<open>Version_Neg\<close> (\<open>version.go\<close>), \<open>Connect\<close> (\<open>client/client.go\<close> up to the negotiation,
    \<open>client_plugin.go\<close>), \<open>Handles\<close> and \<open>Handles_Live\<close> (\<open>StartClient\<close>, \<open>Wait\<close>, \<open>NotifyClose\<close>), \<open>Heart_Beat\<close>
    (\<open>heart_beat.go\<close>), \<open>Term_View\<close> and \<open>Term_Props\<close> (\<open>term_view\<close>), \<open>Win_Console\<close> (\<open>clear_lines_windows.go\<close>).
  \<^item> Commands: \<open>Commands\<close> and \<open>Command_Props\<close> (\<open>cmd/client\<close>, \<open>cmd/server\<close>, \<open>version\<close>), \<open>Serve_Mux\<close> (the
    request multiplexer of package \<open>net/http\<close>), \<open>Flags\<close> (the flag tables with the parser of package
    \<open>flag\<close>, and \<open>main.go\<close>), \<open>Cmd_Table\<close> (the commands and what the \<open>init\<close> functions make of them).
  \<^item> Around it: \<open>Debug_Log\<close> (the switches and conditions of the debug output), \<open>Experiments\<close> (the programs
    under \<open>play\<close>: writing while another goroutine closes, a deadline moved by another goroutine, a client
    of the proxy).

  \<^bold>\<open>What is shown.\<close>
  \<^item> Sessions: from \<open>transData\<close> of the client to the target (C1, C2) and from the target back to the
    application (C3, C4), under every interleaving of handshake and data, the transfer refines a pipe
    that hands over the bytes in order, and every run is finite and ends with everything delivered and
    the end of the stream passed on. Assumed: the five-minute timers do not fire, the WebSockets carry
    what is written to them in order, nothing is under way on them at the start, the server can dial
    the target, and for C1 and C2 the application's stream ends with EOF or not at all (another error
    is C18). The response is followed from a moment at which its sender has been started; the second
    start of that sender, which the code allows, is \<open>two_sends_panic\<close>. The lemmas these rest on are also
    stated for a transfer alone (\<open>upload_prefix\<close>, \<open>upload_delivers\<close>, \<open>download_prefix\<close>, \<open>download_delivers\<close>).
    The receiving goroutine is started exactly once, in whatever order the setup arrives (C5). A transfer
    that is removed ends both its goroutines (C13, C14); \<open>transData\<close> builds and takes back exactly what
    belongs to it (C15, C16); a local error ends the transfer on the server too (C18).
  \<^item> The client process: once started, the end of any task ends all of them (C6); its record counts
    exactly the connections being served (C7, C22); no message makes a receive loop panic (C17).
  \<^item> The server: no input of a peer makes a handler panic (C9), a message reaches only its own transfer
    (C11), and whatever the client sends is accepted (C12); the end of a WebSocket leaves nothing
    behind (C8, C21); without the connection key nothing happens (C10, C19); private targets are not
    dialled (C20); a read of the target that is stuck is given up (C30).
  \<^item> Data: round trips of SOCKS5 requests and of command lines (C24, C32), FIFO of the buffered pipe
    (C27), exactness of the address check, the negotiation and the routes (C25, C26, C31), the terminal
    (C28) and the status page (C33). A local visit relays both directions (C23); the step-by-step copy
    loop is the loop of the source (C29).
  \<^item> Errors the code has, each proved on the model: C34 to C40. Further ones are plain theorems:
    \<open>two_sends_panic\<close>, \<open>queue_send_started_twice\<close>, \<open>dispatch_full_link_loses_chunk\<close>, \<open>bufferedwr_false_eof\<close>,
    \<open>short_deadline_overwritten\<close>, \<open>heartbeat_sees_last_only\<close>, \<open>server_panics_iff\<close>, \<open>uptime_loses_hours\<close>,
    \<open>page_address_always_ws\<close>, \<open>bufferedwr_read_alone\<close>.
  \<^item> Experiments: what is written before a close arrives, what is written after it reports the close
    (\<open>dial_writes\<close>); the reading loop is left at the end of the stream only (\<open>play_read_only_eof\<close>).

  \<^bold>\<open>Bounds.\<close> Loops with a structural or a decreasing argument are total functions. Goroutines have no
  fuel: liveness is stated over all finite runs together with a bound on their length by a weight
  (\<open>terminating_machine\<close>). The counters of the connection record are exact below \<open>2 ^ 64 - 1\<close> open
  connections, which is a hypothesis where it matters. Screen coordinates on Windows are 16-bit words;
  the row C40 speaks of is one where their sum does not wrap.

  \<^bold>\<open>Not modelled.\<close> The WebSocket library, JSON text, identifiers (\<open>ksuid\<close>), the command library, the
  procedures of the Windows console, the fetching of the page, the logger, TLS and name resolution are
  third-party or system code and enter as arguments; what remains of the lines of \<open>src\<close> are declarations
  of interfaces (\<open>ProxyInterface\<close>, \<open>ProxyEstablish\<close>, the plugins), which are the types of those arguments; the mutexes that guard a single map operation are
  represented by the atomicity of that operation. The layout of \<open>status-web\<close>, its generated start-up
  code and service worker are left out.
\<close>

section \<open>Properties that span the components\<close>

text \<open>
  C10. The connection key, from flag to handler: a client started with a key sends it in the header of
  every dial, in place of any \<open>Key\<close> header given with \<open>--ws-header\<close>; the server lets this request pass
  exactly when it has no authentication or its key, given or generated, is the client's.
\<close>

theorem connection_key_decides:
  assumes "server_PreRun rand s = Inr s'" and "client_PreRun url_Parse c = Inr c'"
    and "cm_remoteUrl c' = Some u" and "cm_key c \<noteq> []"
    and "h = op_RemoteHeaders (snd (CreateServerConn no_plugins Dial (client_options u c')))"
  shows "ServeHTTP_step (server_config s') wsw wsr kparse h accepted hid received now timer order ShKey st =
      Some (ShAccept, st) \<longleftrightarrow> (sm_authEnable s \<longrightarrow> cm_key c = sm_authKey s')"
proof -
  have "cm_key c' = cm_key c"
    using assms(2) by (auto simp: client_PreRun_def Let_def split: if_splits sum.splits)
  then have "header_Get ''Key'' h = cm_key c"
    using assms(4,5) by (simp add: CreateServerConn_def client_options_def no_plugins_def Let_def)
  moreover have "sm_authEnable s' = sm_authEnable s"
    using assms(1) by (auto simp: server_PreRun_def split: if_splits sum.splits)
  ultimately show ?thesis by (auto simp: server_config_def)
qed

theorem connection_key_decides_witness:
  "ServeHTTP_step (server_config (new_server_cmd\<lparr>sm_authEnable := True, sm_authKey := ''k''\<rparr>))
       (lanes_Write :: (unit, unit lanes) wsjson_write) (\<lambda>c net. (Inl EOF, net)) kparse0
       (op_RemoteHeaders (snd (CreateServerConn no_plugins (\<lambda>i tr h addr. Inr i)
         (client_options \<lparr>url_Scheme = ''ws'', url_Rest = ''//h''\<rparr>
           (new_client_cmd\<lparr>cm_remote := ''ws://h'', cm_key := ''k'',
              cm_remoteUrl := Some \<lparr>url_Scheme = ''ws'', url_Rest = ''//h''\<rparr>\<rparr>)))))
       (Inl EOF) 0 (Inl EOF) 0 False [] ShKey
       \<lparr>ss_hc = [], ss_sv = new_server, ss_net = (\<lambda>_. []), ss_code = None, ss_body = [], ss_closed = []\<rparr> =
     Some (ShAccept, \<lparr>ss_hc = [], ss_sv = new_server, ss_net = (\<lambda>_. []), ss_code = None, ss_body = [], ss_closed = []\<rparr>)"
proof -
  let ?u = "\<lparr>url_Scheme = ''ws'', url_Rest = ''//h''\<rparr>"
  let ?s = "new_server_cmd\<lparr>sm_authEnable := True, sm_authKey := ''k''\<rparr>"
  let ?c = "new_client_cmd\<lparr>cm_remote := ''ws://h'', cm_key := ''k''\<rparr>"
  have "server_PreRun (\<lambda>n. Inr []) ?s = Inr ?s"
    by (simp add: server_PreRun_def new_server_cmd_def complete_path_def HasSuffix_def Let_def)
  moreover have "client_PreRun (\<lambda>_. Inr ?u) ?c = Inr (?c\<lparr>cm_remoteUrl := Some ?u\<rparr>)"
    by (simp add: client_PreRun_def new_client_cmd_def Let_def)
  ultimately show ?thesis
    by (subst connection_key_decides [OF _ _ _ _ refl, of "\<lambda>n. Inr []" ?s ?s "\<lambda>_. Inr ?u" ?c])
      (simp_all add: new_client_cmd_def new_server_cmd_def)
qed

end
